(* ===== verification/Prelude.thy ===== *)
theory Prelude
  imports Complex_Main "HOL-Library.Word" "HOL-Library.Multiset"
begin

text \<open>
  What every other theory shares: the outcome of running a piece of C code, the
  \<open>assert\<close> macro, the limits of the C integer types, and the collections of rewrite
  rules that the component proofs use.
\<close>

named_theorems outcome_simps "sequencing of C statements"
named_theorems frame_simps "fields of the state that an operation leaves alone"
named_theorems limit_simps "numeric limits of the C types"

section \<open>Outcomes\<close>

text \<open>
  Running C code either returns (\<open>Ret\<close>), stops the process in a failed \<open>assert\<close>
  (\<open>Abort\<close>), or performs an access the language leaves undefined (\<open>Undef\<close>): a
  NULL or dangling pointer is read, or something that is not an allocated block is freed.
\<close>

datatype 'a outcome = Ret 'a | Abort | Undef

fun obind :: "'a outcome \<Rightarrow> ('a \<Rightarrow> 'b outcome) \<Rightarrow> 'b outcome" where
  "obind (Ret x) f = f x"
| "obind Abort f = Abort"
| "obind Undef f = Undef"

lemma obind_Ret_right [simp]: "obind m Ret = m"
  by (cases m) auto

lemma obind_assoc [outcome_simps]: "obind (obind m f) g = obind m (\<lambda>x. obind (f x) g)"
  by (cases m) auto

lemma obind_eq_Ret [outcome_simps]:
  "obind m f = Ret y \<longleftrightarrow> (\<exists>x. m = Ret x \<and> f x = Ret y)"
  by (cases m) auto

lemma obind_RetE [elim]:
  assumes "obind m f = Ret y"
  obtains x where "m = Ret x" and "f x = Ret y"
  using assms by (cases m) auto

lemma obind_cong [fundef_cong]:
  "m = m' \<Longrightarrow> (\<And>x. m' = Ret x \<Longrightarrow> f x = f' x) \<Longrightarrow> obind m f = obind m' f'"
  by (cases m') auto

text \<open>
  Total correctness: the code returns, and what it returns satisfies \<open>Q\<close>. In particular
  no assertion fails and no access is undefined.
\<close>

fun returns :: "'a outcome \<Rightarrow> ('a \<Rightarrow> bool) \<Rightarrow> bool" where
  "returns (Ret x) Q = Q x"
| "returns Abort Q = False"
| "returns Undef Q = False"

lemma returns_iff: "returns m Q \<longleftrightarrow> (\<exists>x. m = Ret x \<and> Q x)"
  by (cases m) auto

lemma returnsE:
  assumes "returns m Q"
  obtains x where "m = Ret x" and "Q x"
  using assms by (auto simp: returns_iff)

lemma returns2E:
  assumes "returns m (\<lambda>(x, y). Q x y)"
  obtains x y where "m = Ret (x, y)" and "Q x y"
  using assms by (auto simp: returns_iff)

lemma returns3E:
  assumes "returns m (\<lambda>(x, y, z). Q x y z)"
  obtains x y z where "m = Ret (x, y, z)" and "Q x y z"
  using assms by (auto simp: returns_iff)

lemma returns4E:
  assumes "returns m (\<lambda>(x, y, z, u). Q x y z u)"
  obtains x y z u where "m = Ret (x, y, z, u)" and "Q x y z u"
  using assms by (auto simp: returns_iff)

lemma returns_mono: "returns m Q \<Longrightarrow> (\<And>x. m = Ret x \<Longrightarrow> Q x \<Longrightarrow> R x) \<Longrightarrow> returns m R"
  by (cases m) auto

lemma returns_obind [outcome_simps]: "returns (obind m f) Q \<longleftrightarrow> returns m (\<lambda>x. returns (f x) Q)"
  by (cases m) auto

text \<open>
  \<open>assert(b)\<close>: with \<open>NDEBUG\<close> defined the macro is empty, otherwise a false
  condition aborts. The Makefile does not define \<open>NDEBUG\<close>; a user's \<open>CFLAGS\<close> can, so
  the flag is a parameter.
\<close>

definition c_assert :: "bool \<Rightarrow> bool \<Rightarrow> 'a outcome \<Rightarrow> 'a outcome" where
  "c_assert nd b k = (if b \<or> nd then k else Abort)"

lemma c_assert_True [simp]: "c_assert nd True k = k"
  by (simp add: c_assert_def)

lemma returns_c_assert [outcome_simps]:
  "returns (c_assert nd b k) Q \<longleftrightarrow> (b \<or> nd) \<and> returns k Q"
  by (simp add: c_assert_def)

lemma c_assert_eq_Ret [outcome_simps]: "c_assert nd b k = Ret x \<longleftrightarrow> (b \<or> nd) \<and> k = Ret x"
  by (simp add: c_assert_def)

section \<open>Limits of the C types (LP64)\<close>

definition INT_MAX :: int where
  "INT_MAX = 2147483647"

definition UINT_MAX :: nat where
  "UINT_MAX = 4294967295"

definition ULONG_MAX :: nat where
  "ULONG_MAX = 18446744073709551615"

definition PATH_MAX :: nat where
  "PATH_MAX = 4096"

lemmas limit_defs [limit_simps] = INT_MAX_def UINT_MAX_def ULONG_MAX_def PATH_MAX_def

text \<open>Conversions between \<open>int\<close> and \<open>uint32_t\<close>, as the compilers the plugin is built with do them.\<close>

definition int_to_u32 :: "int \<Rightarrow> 32 word" where
  "int_to_u32 i = word_of_int i"

definition u32_to_int :: "32 word \<Rightarrow> int" where
  "u32_to_int w = sint w"

lemma u32_to_int_small:
  assumes "uint w \<le> INT_MAX"
  shows "u32_to_int w = uint w"
proof -
  have "signed_take_bit 31 (uint w) = uint w"
  proof (rule signed_take_bit_int_eq_self)
    have "- (2 ^ 31) \<le> (0 :: int)" by simp
    also have "0 \<le> uint w" by simp
    finally show "- (2 ^ 31) \<le> uint w" .
    show "uint w < 2 ^ 31" using assms by (simp add: INT_MAX_def)
  qed
  then show ?thesis by (simp add: u32_to_int_def sint_uint)
qed

lemma int_to_u32_nonneg:
  "0 \<le> i \<Longrightarrow> i \<le> INT_MAX \<Longrightarrow> uint (int_to_u32 i) = i"
  by (simp add: int_to_u32_def uint_word_of_int INT_MAX_def)

end
