(* ===== verification/Libc.thy ===== *)
theory Libc
  imports Prelude
begin

text \<open>
  The parts of the C standard library that the plugin computes with: \<open>strtoul\<close>,
  \<open>strncmp\<close>, \<open>strncasecmp\<close>, \<open>strnlen\<close>, \<open>strncpy\<close>, the \<open>%d\<close> conversion of
  \<open>snprintf\<close> and the \<open>%hx\<close> conversion of \<open>sscanf\<close>. A C string is the list of
  its characters before the terminating NUL; a buffer is the list of the bytes stored in it.
\<close>

section \<open>Characters\<close>

definition NUL :: char where
  "NUL = CHR 0x00"

definition code_of :: "char \<Rightarrow> nat" where
  "code_of c = of_char c"

definition isspace :: "char \<Rightarrow> bool" where
  "isspace c = (code_of c = 32 \<or> (9 \<le> code_of c \<and> code_of c \<le> 13))"

definition tolower :: "char \<Rightarrow> nat" where
  "tolower c = (if 65 \<le> code_of c \<and> code_of c \<le> 90 then code_of c + 32 else code_of c)"

text \<open>The value of a digit in base \<open>b\<close>, letters of either case standing for 10 and up.\<close>

definition digit_of :: "nat \<Rightarrow> char \<Rightarrow> nat option" where
  "digit_of b c =
     (let n = code_of c;
          v = (if 48 \<le> n \<and> n \<le> 57 then n - 48
               else if 65 \<le> n \<and> n \<le> 90 then n - 55
               else if 97 \<le> n \<and> n \<le> 122 then n - 87
               else b)
      in if v < b then Some v else None)"

lemma digit_of_less: "digit_of b c = Some d \<Longrightarrow> d < b"
  by (auto simp: digit_of_def Let_def split: if_splits)

text \<open>The bytes before the first NUL: what a string function sees of a buffer.\<close>

definition c_str :: "char list \<Rightarrow> string" where
  "c_str bs = takeWhile (\<lambda>c. c \<noteq> NUL) bs"

lemma NUL_notin_c_str: "NUL \<notin> set (c_str bs)"
  by (auto simp: c_str_def dest: set_takeWhileD)

lemma c_str_no_NUL: "NUL \<notin> set bs \<Longrightarrow> c_str (bs @ NUL # rest) = bs"
  by (induction bs) (auto simp: c_str_def)

lemma c_str_id [simp]: "NUL \<notin> set bs \<Longrightarrow> c_str bs = bs"
  by (auto simp: c_str_def takeWhile_eq_all_conv)

section \<open>strtoul\<close>

text \<open>
  The subject sequence: white space, an optional sign, digits of the base. With no digit
  the result is 0 and \<open>end\<close> points at the start of the string. A value above
  \<open>ULONG_MAX\<close> gives \<open>ULONG_MAX\<close>; a minus sign negates in the unsigned type. The
  second component is the string \<open>end\<close> points at, so \<open>*end == 0\<close> is the empty list.
  Bases 2 and 10 only are used, so no \<open>0x\<close> prefix is recognised.
\<close>

fun scan_digits :: "nat \<Rightarrow> nat \<Rightarrow> string \<Rightarrow> nat \<times> string" where
  "scan_digits b acc [] = (acc, [])"
| "scan_digits b acc (c # cs) =
     (case digit_of b c of
        None \<Rightarrow> (acc, c # cs)
      | Some d \<Rightarrow> scan_digits b (acc * b + d) cs)"

fun scan_sign :: "string \<Rightarrow> bool \<times> string" where
  "scan_sign [] = (False, [])"
| "scan_sign (c # cs) =
     (if c = CHR ''-'' then (True, cs)
      else if c = CHR ''+'' then (False, cs)
      else (False, c # cs))"

definition starts_with_digit :: "nat \<Rightarrow> string \<Rightarrow> bool" where
  "starts_with_digit b s = (case s of [] \<Rightarrow> False | c # _ \<Rightarrow> digit_of b c \<noteq> None)"

definition strtoul :: "nat \<Rightarrow> string \<Rightarrow> 64 word \<times> string" where
  "strtoul b nptr =
     (let (neg, s) = scan_sign (dropWhile isspace nptr) in
      if starts_with_digit b s then
        let (n, rest) = scan_digits b 0 s in
        (if ULONG_MAX < n then of_nat ULONG_MAX
         else if neg then - of_nat n
         else of_nat n, rest)
      else (0, nptr))"

section \<open>Comparing and copying\<close>

fun strncmp_by :: "(char \<Rightarrow> nat) \<Rightarrow> string \<Rightarrow> string \<Rightarrow> nat \<Rightarrow> int" where
  "strncmp_by f xs ys 0 = 0"
| "strncmp_by f [] [] (Suc n) = 0"
| "strncmp_by f (x # xs) [] (Suc n) = int (f x)"
| "strncmp_by f [] (y # ys) (Suc n) = - int (f y)"
| "strncmp_by f (x # xs) (y # ys) (Suc n) =
     (if f x = f y then strncmp_by f xs ys n else int (f x) - int (f y))"

definition strncmp :: "string \<Rightarrow> string \<Rightarrow> nat \<Rightarrow> int" where
  "strncmp = strncmp_by code_of"

definition strncasecmp :: "string \<Rightarrow> string \<Rightarrow> nat \<Rightarrow> int" where
  "strncasecmp = strncmp_by tolower"

definition strnlen :: "char list \<Rightarrow> nat \<Rightarrow> nat" where
  "strnlen bs n = length (c_str (take n bs))"

text \<open>The \<open>n\<close> bytes that \<open>strncpy(dst, src, n)\<close> stores.\<close>

definition strncpy :: "char list \<Rightarrow> nat \<Rightarrow> char list" where
  "strncpy src n = take n (c_str src @ replicate n NUL)"

section \<open>The %d conversion\<close>

fun show_nat :: "nat \<Rightarrow> string" where
  "show_nat n =
     (if n < 10 then [char_of (48 + n)] else show_nat (n div 10) @ [char_of (48 + n mod 10)])"

declare show_nat.simps [simp del]

definition show_int :: "int \<Rightarrow> string" where
  "show_int i = (if i < 0 then CHR ''-'' # show_nat (nat (- i)) else show_nat (nat i))"

section \<open>The %hx conversion of sscanf\<close>

text \<open>
  White space is skipped, then an optional sign, an optional \<open>0x\<close> and at least one
  hexadecimal digit. The value is stored in an \<open>unsigned short\<close>, which keeps its low 16
  bits. A matching failure is \<open>None\<close>.
\<close>

definition skip_0x :: "string \<Rightarrow> string" where
  "skip_0x s =
     (case s of
        c # x # cs \<Rightarrow>
          if c = CHR ''0'' \<and> (x = CHR ''x'' \<or> x = CHR ''X'') then cs else s
      | _ \<Rightarrow> s)"

definition scan_hx :: "string \<Rightarrow> (16 word \<times> string) option" where
  "scan_hx inp =
     (let (neg, s) = scan_sign (dropWhile isspace inp); s' = skip_0x s in
      if starts_with_digit 16 s' then
        let (n, rest) = scan_digits 16 0 s' in
        Some (if ULONG_MAX < n then of_nat ULONG_MAX
              else if neg then - of_nat n else of_nat n, rest)
      else None)"

text \<open>A literal character of the format has to match the next input character.\<close>

fun scan_lit :: "char \<Rightarrow> string \<Rightarrow> string option" where
  "scan_lit c [] = None"
| "scan_lit c (x # xs) = (if x = c then Some xs else None)"

section \<open>Facts about scanning and printing\<close>

lemma code_of_char_of [simp]: "n < 256 \<Longrightarrow> code_of (char_of n) = n"
  by (simp add: code_of_def)

lemma digit_of_dec: "d < 10 \<Longrightarrow> digit_of 10 (char_of (48 + d)) = Some d"
  by (simp add: digit_of_def Let_def)

text \<open>
  A printed digit is neither white space nor a sign, so the scanners go straight to the
  digits.
\<close>

lemma digit_not_space: "digit_of b c = Some d \<Longrightarrow> b \<le> 36 \<Longrightarrow> \<not> isspace c"
  by (auto simp: digit_of_def isspace_def Let_def split: if_splits)

lemma digit_not_sign:
  assumes "digit_of b c = Some d"
  shows "c \<noteq> CHR ''-''" and "c \<noteq> CHR ''+''"
  using assms by (auto simp: digit_of_def Let_def code_of_def)

lemma starts_with_digitE:
  assumes "starts_with_digit b s"
  obtains c cs d where "s = c # cs" and "digit_of b c = Some d"
  using assms by (auto simp: starts_with_digit_def split: list.splits)

lemma skip_to_digit:
  assumes "starts_with_digit b s" and "b \<le> 36"
  shows "dropWhile isspace s = s" and "scan_sign s = (False, s)"
  using assms
  by (auto elim!: starts_with_digitE dest: digit_not_space digit_not_sign)

lemma scan_digits_append:
  "scan_digits b acc xs = (n, []) \<Longrightarrow> scan_digits b acc (xs @ ys) = scan_digits b n ys"
  by (induction b acc xs rule: scan_digits.induct) (auto split: option.splits)

lemma show_nat_nonempty [simp]: "show_nat n \<noteq> []"
  by (subst show_nat.simps) simp

lemma show_nat_starts: "starts_with_digit 10 (show_nat n)"
proof (induction n rule: show_nat.induct)
  case (1 n)
  show ?case
  proof (cases "n < 10")
    case True
    then show ?thesis
      by (subst show_nat.simps) (simp add: starts_with_digit_def digit_of_dec)
  next
    case False
    with 1 have "starts_with_digit 10 (show_nat (n div 10))" by simp
    then obtain c cs d where "show_nat (n div 10) = c # cs" and "digit_of 10 c = Some d"
      by (rule starts_with_digitE)
    with False show ?thesis
      by (subst show_nat.simps) (simp add: starts_with_digit_def)
  qed
qed

lemma scan_show_nat: "scan_digits 10 0 (show_nat n) = (n, [])"
proof (induction n rule: show_nat.induct)
  case (1 n)
  show ?case
  proof (cases "n < 10")
    case True
    then show ?thesis by (subst show_nat.simps) (simp add: digit_of_dec)
  next
    case False
    with 1 have "scan_digits 10 0 (show_nat (n div 10)) = (n div 10, [])" by simp
    with False show ?thesis
      by (subst show_nat.simps) (simp add: scan_digits_append digit_of_dec)
  qed
qed

lemma strtoul_show_nat:
  "n \<le> ULONG_MAX \<Longrightarrow> strtoul 10 (show_nat n) = (of_nat n, [])"
  by (simp add: strtoul_def skip_to_digit [OF show_nat_starts] show_nat_starts scan_show_nat)

text \<open>The comparison with an upper bound on the length is a comparison of prefixes.\<close>

lemma strncmp_by_eq_0:
  assumes "inj_on f (set xs \<union> set ys)" and "\<forall>c \<in> set xs \<union> set ys. f c \<noteq> 0"
  shows "strncmp_by f xs ys n = 0 \<longleftrightarrow> take n xs = take n ys"
  using assms
proof (induction f xs ys n rule: strncmp_by.induct)
  case (5 f x xs y ys n)
  have "f x = f y \<longleftrightarrow> x = y" using "5.prems"(1) by (auto simp: inj_on_def)
  moreover have "inj_on f (set xs \<union> set ys)"
    using "5.prems"(1) by (rule inj_on_subset) auto
  ultimately show ?case using "5.IH" "5.prems"(2) by auto
qed auto

lemma code_of_0 [simp]: "code_of c = 0 \<longleftrightarrow> c = NUL"
proof -
  have "code_of c = code_of NUL \<longleftrightarrow> c = NUL" by (simp add: code_of_def)
  then show ?thesis by (simp add: code_of_def NUL_def)
qed

lemma code_of_NUL [simp]: "code_of NUL = 0"
  by simp

lemma inj_code_of: "inj_on code_of A"
  by (simp add: inj_on_def code_of_def)

lemma strncmp_eq_0:
  "NUL \<notin> set xs \<Longrightarrow> NUL \<notin> set ys \<Longrightarrow> strncmp xs ys n = 0 \<longleftrightarrow> take n xs = take n ys"
  unfolding strncmp_def
  by (rule strncmp_by_eq_0) (auto simp: inj_code_of)

lemma tolower_0 [simp]: "tolower c = 0 \<longleftrightarrow> c = NUL"
  by (auto simp: tolower_def)

lemma strncasecmp_prefix:
  assumes "NUL \<notin> set xs" and "NUL \<notin> set ys"
  shows "strncasecmp xs ys (length xs) = 0 \<longleftrightarrow>
    length xs \<le> length ys \<and> map tolower xs = map tolower (take (length xs) ys)"
  using assms unfolding strncasecmp_def
proof (induction xs arbitrary: ys)
  case Nil
  then show ?case by simp
next
  case (Cons x xs)
  then show ?case by (cases ys) auto
qed

lemma strncpy_length [simp]: "length (strncpy src n) = n"
  by (simp add: strncpy_def)

lemma c_str_strncpy:
  assumes "length (c_str src) < n"
  shows "c_str (strncpy src n) = c_str src"
proof -
  have "strncpy src n = c_str src @ NUL # replicate (n - length (c_str src) - 1) NUL"
    using assms by (simp add: strncpy_def flip: replicate_Suc)
  then show ?thesis by (simp add: c_str_no_NUL NUL_notin_c_str)
qed

text \<open>How long a printed number is; every \<open>int\<close> has at most 11 characters.\<close>

lemma length_show_nat: "n < 10 ^ Suc k \<Longrightarrow> length (show_nat n) \<le> Suc k"
proof (induction k arbitrary: n)
  case 0
  then show ?case by (subst show_nat.simps) simp
next
  case (Suc k)
  show ?case
  proof (cases "n < 10")
    case True
    then show ?thesis by (subst show_nat.simps) simp
  next
    case False
    have "n div 10 < 10 ^ Suc k" using Suc.prems by (simp add: less_mult_imp_div_less mult.commute)
    from Suc.IH [OF this] show ?thesis using False by (subst show_nat.simps) simp
  qed
qed

lemma length_show_int:
  assumes "- (2 ^ 31) \<le> dev" and "dev < 2 ^ 31"
  shows "length (show_int dev) \<le> 11"
proof -
  have "nat (- dev) < 10 ^ Suc 9" and "nat dev < 10 ^ Suc 9" using assms by simp_all
  from this [THEN length_show_nat] show ?thesis by (auto simp: show_int_def)
qed

end
