(* ===== verification/Nccl_Types.thy ===== *)
theory Nccl_Types
  imports Prelude
begin

text \<open>
  The types and constants of the NCCL plugin headers (\<open>src/include/nccl_net\<close>): result
  codes, log levels, the limits of the interface and the device property structures of
  each interface version. Pointers to C strings are addresses in the string heap of
  \<open>Plugin_State\<close>, 0 standing for NULL.
\<close>

section \<open>err.h\<close>

datatype ncclResult =
    ncclSuccess
  | ncclUnhandledCudaError
  | ncclSystemError
  | ncclInternalError
  | ncclInvalidArgument
  | ncclRemoteError

text \<open>The enumerators' values; the code compares plain \<open>int\<close>s with them.\<close>

fun nccl_code :: "ncclResult \<Rightarrow> int" where
  "nccl_code ncclSuccess = 0"
| "nccl_code ncclUnhandledCudaError = 1"
| "nccl_code ncclSystemError = 2"
| "nccl_code ncclInternalError = 3"
| "nccl_code ncclInvalidArgument = 4"
| "nccl_code ncclRemoteError = 6"

lemma inj_nccl_code: "nccl_code a = nccl_code b \<Longrightarrow> a = b"
  by (cases a; cases b) auto

section \<open>types.h\<close>

text \<open>The type of the elements of a buffer; the enumeration gives five of them a second name.\<close>

datatype ncclDataType =
    ncclInt8
  | ncclUint8
  | ncclInt32
  | ncclUint32
  | ncclInt64
  | ncclUint64
  | ncclFloat16
  | ncclFloat32
  | ncclFloat64
  | ncclBfloat16

abbreviation ncclChar :: ncclDataType where "ncclChar \<equiv> ncclInt8"
abbreviation ncclInt :: ncclDataType where "ncclInt \<equiv> ncclInt32"
abbreviation ncclHalf :: ncclDataType where "ncclHalf \<equiv> ncclFloat16"
abbreviation ncclFloat :: ncclDataType where "ncclFloat \<equiv> ncclFloat32"
abbreviation ncclDouble :: ncclDataType where "ncclDouble \<equiv> ncclFloat64"

fun data_type_code :: "ncclDataType \<Rightarrow> int" where
  "data_type_code ncclInt8 = 0"
| "data_type_code ncclUint8 = 1"
| "data_type_code ncclInt32 = 2"
| "data_type_code ncclUint32 = 3"
| "data_type_code ncclInt64 = 4"
| "data_type_code ncclUint64 = 5"
| "data_type_code ncclFloat16 = 6"
| "data_type_code ncclFloat32 = 7"
| "data_type_code ncclFloat64 = 8"
| "data_type_code ncclBfloat16 = 9"

lemma inj_data_type_code: "data_type_code a = data_type_code b \<Longrightarrow> a = b"
  by (cases a; cases b) auto

section \<open>net.h\<close>

definition NCCL_NET_HANDLE_MAXSIZE :: nat where
  "NCCL_NET_HANDLE_MAXSIZE = 128"

definition NCCL_PTR_HOST :: "32 word" where
  "NCCL_PTR_HOST = 1"

definition NCCL_PTR_CUDA :: "32 word" where
  "NCCL_PTR_CUDA = 2"

definition NCCL_PTR_DMABUF :: "32 word" where
  "NCCL_PTR_DMABUF = 4"

definition NCCL_NET_MAX_REQUESTS :: nat where
  "NCCL_NET_MAX_REQUESTS = 32"

datatype ncclDebugLogLevel =
    NCCL_LOG_NONE
  | NCCL_LOG_VERSION
  | NCCL_LOG_WARN
  | NCCL_LOG_INFO
  | NCCL_LOG_ABORT
  | NCCL_LOG_TRACE

fun log_level_code :: "ncclDebugLogLevel \<Rightarrow> nat" where
  "log_level_code NCCL_LOG_NONE = 0"
| "log_level_code NCCL_LOG_VERSION = 1"
| "log_level_code NCCL_LOG_WARN = 2"
| "log_level_code NCCL_LOG_INFO = 3"
| "log_level_code NCCL_LOG_ABORT = 4"
| "log_level_code NCCL_LOG_TRACE = 5"

lemma inj_log_level_code: "log_level_code a = log_level_code b \<Longrightarrow> a = b"
  by (cases a; cases b) auto

text \<open>The levels are ordered as their codes are.\<close>

instantiation ncclDebugLogLevel :: linorder
begin

definition less_eq_ncclDebugLogLevel :: "ncclDebugLogLevel \<Rightarrow> ncclDebugLogLevel \<Rightarrow> bool" where
  "a \<le> b \<longleftrightarrow> log_level_code a \<le> log_level_code b"

definition less_ncclDebugLogLevel :: "ncclDebugLogLevel \<Rightarrow> ncclDebugLogLevel \<Rightarrow> bool" where
  "a < b \<longleftrightarrow> log_level_code a < log_level_code b"

instance
  by standard
    (auto simp: less_eq_ncclDebugLogLevel_def less_ncclDebugLogLevel_def
      intro: inj_log_level_code)

end

text \<open>The one subsystem the plugin logs under.\<close>

definition NCCL_NET :: nat where
  "NCCL_NET = 16"

section \<open>net_device.h\<close>

datatype ncclNetDeviceType = NCCL_NET_DEVICE_HOST | NCCL_NET_DEVICE_UNPACK

definition NCCL_NET_DEVICE_INVALID_VERSION :: int where
  "NCCL_NET_DEVICE_INVALID_VERSION = 0"

record ncclNetDeviceHandle_v7 =
  dh_netDeviceType :: ncclNetDeviceType
  dh_netDeviceVersion :: int
  dh_handle :: nat
  dh_size :: "64 word"
  dh_needsProxyProgress :: int

section \<open>The property structures of net_v4.h, net_v6.h, net_v7.h and net_v8.h\<close>

record ncclNetProperties_v4 =
  v4_name :: nat
  v4_pciPath :: nat
  v4_guid :: "64 word"
  v4_ptrSupport :: "32 word"
  v4_speed :: int
  v4_port :: int
  v4_maxComms :: int

record ncclNetProperties_v6 =
  v6_name :: nat
  v6_pciPath :: nat
  v6_guid :: "64 word"
  v6_ptrSupport :: "32 word"
  v6_speed :: int
  v6_port :: int
  v6_latency :: real
  v6_maxComms :: int
  v6_maxRecvs :: int

record ncclNetProperties_v7 =
  v7_name :: nat
  v7_pciPath :: nat
  v7_guid :: "64 word"
  v7_ptrSupport :: "32 word"
  v7_speed :: int
  v7_port :: int
  v7_latency :: real
  v7_maxComms :: int
  v7_maxRecvs :: int
  v7_netDeviceType :: ncclNetDeviceType
  v7_netDeviceVersion :: int

record ncclNetProperties_v8 =
  v8_name :: nat
  v8_pciPath :: nat
  v8_guid :: "64 word"
  v8_ptrSupport :: "32 word"
  v8_regIsGlobal :: int
  v8_speed :: int
  v8_port :: int
  v8_latency :: real
  v8_maxComms :: int
  v8_maxRecvs :: int
  v8_netDeviceType :: ncclNetDeviceType
  v8_netDeviceVersion :: int

text \<open>The plugin works on the latest structure (\<open>psm2_nccl_net.h\<close>).\<close>

type_synonym psm2_ncclNetProperties = ncclNetProperties_v8

end
