(* ===== verification/Plugin_State.thy ===== *)
theory Plugin_State
  imports Libc Nccl_Types
begin

text \<open>
  The data of the plugin (\<open>psm2_nccl_api.h\<close> and the file-scope variables of
  \<open>psm2_nccl_api.c\<close>), the memory it allocates, and the interface to what is not part of
  the repository: the operating system and libpsm2, which are the fields of a record that
  every operation takes as its first argument.
\<close>

section \<open>Pointers\<close>

text \<open>
  Addresses are numbers, 0 is NULL. A request lives inside a communicator, so a pointer to
  it is the communicator's address and its index in the array; a NULL request is \<open>None\<close>.
\<close>

type_synonym addr = nat
type_synonym req_ptr = "addr \<times> nat"
type_synonym uuid = "8 word list"

section \<open>What the plugin calls: the operating system and libpsm2\<close>

text \<open>
  Each function takes the state \<open>'w\<close> of the outside world and returns the new one, with
  its result and what it stores through its pointer arguments. Nothing is assumed about
  them here; the theorems that rely on their documented behaviour say so.
  \<open>alloc_ok n\<close> says whether the \<open>n\<close>-th allocation of the process succeeds.
\<close>

record 'w os_api =
  ndebug :: bool
  alloc_ok :: "nat \<Rightarrow> bool"
  getenv :: "string \<Rightarrow> 'w \<Rightarrow> string option"
  os_open :: "string \<Rightarrow> 'w \<Rightarrow> int \<times> 'w"
  os_read :: "int \<Rightarrow> nat \<Rightarrow> 'w \<Rightarrow> int \<times> char list \<times> 'w"
  os_close :: "int \<Rightarrow> 'w \<Rightarrow> 'w"
  os_lstat :: "string \<Rightarrow> 'w \<Rightarrow> int \<times> 'w"
  os_realpath :: "string \<Rightarrow> 'w \<Rightarrow> string option \<times> 'w"

datatype info_query =
    PSM2_INFO_QUERY_NUM_UNITS
  | PSM2_INFO_QUERY_NUM_PORTS
  | PSM2_INFO_QUERY_NUM_FREE_CONTEXTS

text \<open>The one field of \<open>struct psm2_ep_open_opts\<close> that the plugin sets, and the others.\<close>

record psm2_ep_open_opts =
  opt_unit :: int
  other_opts :: nat

text \<open>The fields of \<open>psm2_mq_status_t\<close> that the plugin reads.\<close>

record mq_status =
  s_context :: req_ptr
  s_nbytes :: "32 word"

record 'w platform = "'w os_api" +
  PSM2_OK :: int
  PSM2_MQ_INCOMPLETE :: int
  PSM2_VERNO_MAJOR :: int
  PSM2_VERNO_MINOR :: int
  PSM2_EP_CLOSE_GRACEFUL :: int
  PSM2_MQ_ORDERMASK_NONE :: "64 word"
  PSM2_MQ_FLAG_GDRCPY_ONLY :: "32 word"
  psm2_init :: "int \<Rightarrow> int \<Rightarrow> 'w \<Rightarrow> int \<times> 'w"
  psm2_info_query :: "info_query \<Rightarrow> int option \<Rightarrow> 'w \<Rightarrow> int \<times> 32 word \<times> 'w"
  psm2_ep_open_opts_get_defaults :: "'w \<Rightarrow> int \<times> psm2_ep_open_opts \<times> 'w"
  psm2_ep_open :: "uuid \<Rightarrow> psm2_ep_open_opts \<Rightarrow> 'w \<Rightarrow> int \<times> addr \<times> 64 word \<times> 'w"
  psm2_ep_close :: "addr \<Rightarrow> int \<Rightarrow> int \<Rightarrow> 'w \<Rightarrow> int \<times> 'w"
  psm2_ep_connect ::
    "addr \<Rightarrow> 64 word \<Rightarrow> int \<Rightarrow> int \<Rightarrow> 'w \<Rightarrow> int \<times> int \<times> addr \<times> 'w"
  psm2_mq_init :: "addr \<Rightarrow> 64 word \<Rightarrow> 'w \<Rightarrow> int \<times> addr \<times> 'w"
  psm2_mq_finalize :: "addr \<Rightarrow> 'w \<Rightarrow> int \<times> 'w"
  psm2_mq_isend ::
    "addr \<Rightarrow> addr \<Rightarrow> 32 word \<Rightarrow> 64 word \<Rightarrow> addr \<Rightarrow> 32 word \<Rightarrow> req_ptr \<Rightarrow> 'w
      \<Rightarrow> int \<times> addr \<times> 'w"
  psm2_mq_irecv ::
    "addr \<Rightarrow> 64 word \<Rightarrow> 64 word \<Rightarrow> 32 word \<Rightarrow> addr \<Rightarrow> 32 word \<Rightarrow> req_ptr \<Rightarrow> 'w
      \<Rightarrow> int \<times> addr \<times> 'w"
  psm2_mq_ipeek :: "addr \<Rightarrow> 'w \<Rightarrow> int \<times> addr \<times> 'w"
  psm2_mq_test :: "addr \<Rightarrow> 'w \<Rightarrow> int \<times> mq_status \<times> 'w"

text \<open>
  The arrays handed to \<open>psm2_ep_connect\<close> have one element
  (\<open>PSM2_NCCL_COMM_CONNECT_ARRAY_SIZE\<close>), so they are passed and returned as that element:
  the remote epid, the mask, and back the per-peer error and the endpoint address.
\<close>

section \<open>psm2_nccl_api.h\<close>

definition NUM_REQUESTS :: nat where
  "NUM_REQUESTS = NCCL_NET_MAX_REQUESTS"

definition SHARED_EP_MULTI_ERROR :: int where
  "SHARED_EP_MULTI_ERROR = 0"

definition SHARED_EP_MULTI_WARN :: int where
  "SHARED_EP_MULTI_WARN = 1"

definition NCCL_NET_PSM2_MAX_RECVS :: int where
  "NCCL_NET_PSM2_MAX_RECVS = 1"

record psm2comm_handle =
  h_epid :: "64 word"
  h_tag :: "64 word"

text \<open>Two 8-byte members: the size of the structure in bytes.\<close>

definition sizeof_psm2comm_handle :: nat where
  "sizeof_psm2comm_handle = 16"

text \<open>\<open>ReqNone\<close> is the value 0 that \<open>memset\<close> leaves, which is no enumerator.\<close>

datatype comm_req_type = ReqNone | ReqSend | ReqRecv

record comm_req =
  used :: int
  r_comm :: addr
  r_ep :: addr
  r_mq :: addr
  r_req :: addr
  r_type :: comm_req_type
  req_done :: int
  recv_size :: int

definition zero_req :: comm_req where
  "zero_req = \<lparr>used = 0, r_comm = 0, r_ep = 0, r_mq = 0, r_req = 0, r_type = ReqNone,
    req_done = 0, recv_size = 0\<rparr>"

record shared_ep_t =
  sh_ep :: addr
  sh_epid :: "64 word"
  sh_unit :: int
  refcount :: "32 word"

definition zero_shared_ep :: shared_ep_t where
  "zero_shared_ep = \<lparr>sh_ep = 0, sh_epid = 0, sh_unit = 0, refcount = 0\<rparr>"

text \<open>
  The member \<open>shared_ep\<close> of a communicator is NULL or points to the file-scope variable
  of that name, the only object of its type: \<open>has_shared_ep\<close> says which.
\<close>

record psm2comm =
  ep :: addr
  epid :: "64 word"
  mq :: addr
  has_shared_ep :: bool
  rem_epid :: "64 word"
  rem_epaddr :: addr
  tag :: "64 word"
  requests :: "comm_req list"

text \<open>What \<open>calloc(1, sizeof(psm2comm_t))\<close> returns.\<close>

definition zero_comm :: psm2comm where
  "zero_comm = \<lparr>ep = 0, epid = 0, mq = 0, has_shared_ep = False, rem_epid = 0,
    rem_epaddr = 0, tag = 0, requests = replicate NUM_REQUESTS zero_req\<rparr>"

section \<open>The state of the plugin\<close>

text \<open>A block that holds a string: its size and the bytes stored from its start.\<close>

record str_block =
  block_size :: nat
  block_bytes :: "char list"

text \<open>
  The file-scope variables of \<open>psm2_nccl_api.c\<close>, the communicators and the strings on
  the heap by address, the number of allocations made, and the outside world.
  \<open>pluginLogFunction\<close> is a function pointer.
\<close>

record 'w plugin =
  use_shared_ep :: int
  shared_ep_multi_policy :: int
  use_gpudirect :: int
  use_gdr_dmabuf :: int
  use_nccl_dev_num :: int
  next_tag :: "64 word"
  jobkey :: uuid
  shared_ep :: shared_ep_t
  plugin_logLevel :: "32 word"
  pluginLogFunction :: addr
  comms :: "addr \<Rightarrow> psm2comm option"
  strs :: "addr \<Rightarrow> str_block option"
  allocs :: nat
  world :: 'w

text \<open>The state when the library is loaded.\<close>

definition initial_plugin :: "'w \<Rightarrow> 'w plugin" where
  "initial_plugin w = \<lparr>
     use_shared_ep = 1,
     shared_ep_multi_policy = SHARED_EP_MULTI_WARN,
     use_gpudirect = 1,
     use_gdr_dmabuf = 0,
     use_nccl_dev_num = 1,
     next_tag = 0,
     jobkey = replicate 16 0,
     shared_ep = zero_shared_ep,
     plugin_logLevel = 0,
     pluginLogFunction = 0,
     comms = (\<lambda>_. None),
     strs = (\<lambda>_. None),
     allocs = 0,
     world = w\<rparr>"

lemma initial_plugin_simps [simp]:
  "use_shared_ep (initial_plugin w) = 1"
  "shared_ep_multi_policy (initial_plugin w) = SHARED_EP_MULTI_WARN"
  "use_gpudirect (initial_plugin w) = 1"
  "use_gdr_dmabuf (initial_plugin w) = 0"
  "use_nccl_dev_num (initial_plugin w) = 1"
  "next_tag (initial_plugin w) = 0"
  "shared_ep (initial_plugin w) = zero_shared_ep"
  "plugin_logLevel (initial_plugin w) = 0"
  "comms (initial_plugin w) = Map.empty"
  "strs (initial_plugin w) = Map.empty"
  "allocs (initial_plugin w) = 0"
  "world (initial_plugin w) = w"
  by (simp_all add: initial_plugin_def)

text \<open>The variables that the life of a communicator does not touch.\<close>

definition same_globals :: "'w plugin \<Rightarrow> 'w plugin \<Rightarrow> bool" where
  "same_globals s s' \<longleftrightarrow>
     use_shared_ep s' = use_shared_ep s \<and>
     shared_ep_multi_policy s' = shared_ep_multi_policy s \<and>
     use_gpudirect s' = use_gpudirect s \<and> use_gdr_dmabuf s' = use_gdr_dmabuf s \<and>
     use_nccl_dev_num s' = use_nccl_dev_num s \<and> next_tag s' = next_tag s \<and>
     jobkey s' = jobkey s \<and> plugin_logLevel s' = plugin_logLevel s \<and>
     pluginLogFunction s' = pluginLogFunction s \<and> strs s' = strs s"

lemma same_globals_refl [simp]: "same_globals s s"
  by (simp add: same_globals_def)

lemma same_globals_trans: "same_globals s t \<Longrightarrow> same_globals t u \<Longrightarrow> same_globals s u"
  by (simp add: same_globals_def)

lemma same_globals_upd [simp]:
  "same_globals s (t\<lparr>comms := cs\<rparr>) = same_globals s t"
  "same_globals s (t\<lparr>allocs := n\<rparr>) = same_globals s t"
  "same_globals s (t\<lparr>world := w\<rparr>) = same_globals s t"
  "same_globals s (t\<lparr>shared_ep := sh\<rparr>) = same_globals s t"
  by (simp_all add: same_globals_def)

section \<open>Memory\<close>

text \<open>
  The \<open>n\<close>-th allocation (from 0) has address \<open>n + 1\<close> if it succeeds: addresses are
  never NULL and never reused, so a dangling pointer stays dangling.
\<close>

definition malloc_str :: "'w platform \<Rightarrow> nat \<Rightarrow> 'w plugin \<Rightarrow> addr \<times> 'w plugin" where
  "malloc_str P sz s =
     (let n = allocs s; s' = s\<lparr>allocs := Suc n\<rparr> in
      if alloc_ok P n
      then (Suc n, s'\<lparr>strs := (strs s)(Suc n \<mapsto> \<lparr>block_size = sz, block_bytes = []\<rparr>)\<rparr>)
      else (0, s'))"

definition calloc_comm :: "'w platform \<Rightarrow> 'w plugin \<Rightarrow> addr \<times> 'w plugin" where
  "calloc_comm P s =
     (let n = allocs s; s' = s\<lparr>allocs := Suc n\<rparr> in
      if alloc_ok P n then (Suc n, s'\<lparr>comms := (comms s)(Suc n \<mapsto> zero_comm)\<rparr>)
      else (0, s'))"

text \<open>Storing bytes from the start of a block; writing past its end is undefined.\<close>

definition store_str :: "addr \<Rightarrow> char list \<Rightarrow> 'w plugin \<Rightarrow> 'w plugin outcome" where
  "store_str p bs s =
     (case strs s p of
        None \<Rightarrow> Undef
      | Some b \<Rightarrow>
          if length bs \<le> block_size b
          then Ret (s\<lparr>strs := (strs s)(p \<mapsto> b\<lparr>block_bytes := bs\<rparr>)\<rparr>)
          else Undef)"

text \<open>\<open>free\<close> of NULL does nothing; of anything but a live block it is undefined.\<close>

definition free_str :: "addr \<Rightarrow> 'w plugin \<Rightarrow> 'w plugin outcome" where
  "free_str p s =
     (if p = 0 then Ret s
      else case strs s p of
        None \<Rightarrow> Undef
      | Some _ \<Rightarrow> Ret (s\<lparr>strs := (strs s)(p := None)\<rparr>))"

definition load_comm :: "addr \<Rightarrow> 'w plugin \<Rightarrow> psm2comm outcome" where
  "load_comm c s = (case comms s c of None \<Rightarrow> Undef | Some cm \<Rightarrow> Ret cm)"

definition store_comm :: "addr \<Rightarrow> psm2comm \<Rightarrow> 'w plugin \<Rightarrow> 'w plugin" where
  "store_comm c cm s = s\<lparr>comms := (comms s)(c \<mapsto> cm)\<rparr>"

lemma store_comm_simps [simp]:
  "comms (store_comm c cm s) = (comms s)(c \<mapsto> cm)"
  "world (store_comm c cm s) = world s"
  "shared_ep (store_comm c cm s) = shared_ep s"
  "allocs (store_comm c cm s) = allocs s"
  "strs (store_comm c cm s) = strs s"
  "next_tag (store_comm c cm s) = next_tag s"
  "use_shared_ep (store_comm c cm s) = use_shared_ep s"
  "same_globals s' (store_comm c cm s) = same_globals s' s"
  by (simp_all add: store_comm_def)

definition free_comm :: "addr \<Rightarrow> 'w plugin \<Rightarrow> 'w plugin outcome" where
  "free_comm c s =
     (case comms s c of
        None \<Rightarrow> Undef
      | Some _ \<Rightarrow> Ret (s\<lparr>comms := (comms s)(c := None)\<rparr>))"

fun load_req :: "req_ptr \<Rightarrow> 'w plugin \<Rightarrow> comm_req outcome" where
  "load_req (c, i) s =
     (case comms s c of
        None \<Rightarrow> Undef
      | Some cm \<Rightarrow> if i < length (requests cm) then Ret (requests cm ! i) else Undef)"

fun store_req :: "req_ptr \<Rightarrow> comm_req \<Rightarrow> 'w plugin \<Rightarrow> 'w plugin" where
  "store_req (c, i) r s =
     (case comms s c of
        None \<Rightarrow> s
      | Some cm \<Rightarrow> store_comm c (cm\<lparr>requests := (requests cm)[i := r]\<rparr>) s)"

end
