(* ===== verification/Psm2_Contract.thy ===== *)
theory Psm2_Contract
  imports Plugin_State
begin

text \<open>
  What the plugin relies on in libpsm2, as predicates on the platform record. Each one
  speaks of a ghost view of the library's state: the endpoints that are open, and the
  operations that were posted to a matched queue and not yet retired. The header of
  libpsm2 documents them: \<open>psm2_ep_open\<close> returns a new endpoint, \<open>psm2_ep_close\<close>
  closes the one it is given and no other, \<open>psm2_mq_ipeek\<close> returns a completed request
  or \<open>PSM2_MQ_INCOMPLETE\<close>, and \<open>psm2_mq_test\<close> retires that request and returns the
  context it was posted with. The second half of the theory is a small simulated library
  that satisfies all of them.
\<close>

section \<open>Calls that neither open, close, post nor retire\<close>

text \<open>Calls of the system and queries of the library, and the other calls of this kind.\<close>

inductive sys_call :: "'w platform \<Rightarrow> 'w \<Rightarrow> 'w \<Rightarrow> bool" for P where
  s_open: "os_open P path w = (fd, w') \<Longrightarrow> sys_call P w w'"
| s_read: "os_read P fd len w = (n, bs, w') \<Longrightarrow> sys_call P w w'"
| s_close: "os_close P fd w = w' \<Longrightarrow> sys_call P w w'"
| s_lstat: "os_lstat P path w = (rc, w') \<Longrightarrow> sys_call P w w'"
| s_realpath: "os_realpath P path w = (r, w') \<Longrightarrow> sys_call P w w'"
| s_info: "psm2_info_query P q a w = (rc, x, w') \<Longrightarrow> sys_call P w w'"
| s_opts: "psm2_ep_open_opts_get_defaults P w = (rc, opts, w') \<Longrightarrow> sys_call P w w'"

inductive quiet_call :: "'w platform \<Rightarrow> 'w \<Rightarrow> 'w \<Rightarrow> bool" for P where
  q_sys: "sys_call P w w' \<Longrightarrow> quiet_call P w w'"
| q_init: "psm2_init P ma mi w = (rc, w') \<Longrightarrow> quiet_call P w w'"
| q_connect: "psm2_ep_connect P e i m t w = (rc, err, a, w') \<Longrightarrow> quiet_call P w w'"
| q_mq_init: "psm2_mq_init P e om w = (rc, q, w') \<Longrightarrow> quiet_call P w w'"

section \<open>The contracts\<close>

definition consts_ok :: "'w platform \<Rightarrow> bool" where
  "consts_ok P \<longleftrightarrow> PSM2_OK P = 0 \<and> PSM2_MQ_INCOMPLETE P \<noteq> 0"

definition ep_contract :: "'w platform \<Rightarrow> ('w \<Rightarrow> addr set) \<Rightarrow> bool" where
  "ep_contract P opened \<longleftrightarrow>
     (\<forall>u opts w rc e i w'. psm2_ep_open P u opts w = (rc, e, i, w') \<longrightarrow>
        (if rc = PSM2_OK P then e \<noteq> 0 \<and> e \<notin> opened w \<and> opened w' = insert e (opened w)
         else opened w' = opened w)) \<and>
     (\<forall>e m t w rc w'. psm2_ep_close P e m t w = (rc, w') \<longrightarrow>
        opened w - {e} \<subseteq> opened w' \<and> opened w' \<subseteq> opened w \<and>
        (rc = PSM2_OK P \<longrightarrow> e \<notin> opened w')) \<and>
     (\<forall>w w'. quiet_call P w w' \<longrightarrow> opened w' = opened w) \<and>
     (\<forall>q w rc w'. psm2_mq_finalize P q w = (rc, w') \<longrightarrow> opened w' = opened w) \<and>
     (\<forall>q a f t d l c w rc h w'. psm2_mq_isend P q a f t d l c w = (rc, h, w') \<longrightarrow>
        opened w' = opened w) \<and>
     (\<forall>q t ts f d l c w rc h w'. psm2_mq_irecv P q t ts f d l c w = (rc, h, w') \<longrightarrow>
        opened w' = opened w) \<and>
     (\<forall>q w rc h w'. psm2_mq_ipeek P q w = (rc, h, w') \<longrightarrow> opened w' = opened w) \<and>
     (\<forall>h w rc st w'. psm2_mq_test P h w = (rc, st, w') \<longrightarrow> opened w' = opened w)"

text \<open>
  An operation is posted with a context and a length; retiring it returns the context and
  a byte count that does not exceed the length.
\<close>

definition mq_contract ::
  "'w platform \<Rightarrow> ('w \<Rightarrow> (req_ptr \<times> 32 word) multiset) \<Rightarrow> bool" where
  "mq_contract P posted \<longleftrightarrow>
     (\<forall>q a f t d l c w rc h w'. psm2_mq_isend P q a f t d l c w = (rc, h, w') \<longrightarrow>
        posted w' = (if rc = PSM2_OK P then add_mset (c, l) (posted w) else posted w)) \<and>
     (\<forall>q t ts f d l c w rc h w'. psm2_mq_irecv P q t ts f d l c w = (rc, h, w') \<longrightarrow>
        posted w' = (if rc = PSM2_OK P then add_mset (c, l) (posted w) else posted w)) \<and>
     (\<forall>q w rc h w1. psm2_mq_ipeek P q w = (rc, h, w1) \<longrightarrow>
        (rc = PSM2_MQ_INCOMPLETE P \<and> posted w1 = posted w) \<or>
        (rc = PSM2_OK P \<and>
         (\<exists>l st w2. psm2_mq_test P h w1 = (PSM2_OK P, st, w2) \<and>
            (s_context st, l) \<in># posted w \<and> s_nbytes st \<le> l \<and>
            posted w2 = posted w - {#(s_context st, l)#}))) \<and>
     (\<forall>w w'. quiet_call P w w' \<longrightarrow> posted w' = posted w) \<and>
     (\<forall>u opts w rc e i w'. psm2_ep_open P u opts w = (rc, e, i, w') \<longrightarrow>
        posted w' = posted w) \<and>
     (\<forall>e m t w rc w'. psm2_ep_close P e m t w = (rc, w') \<longrightarrow> posted w' \<subseteq># posted w) \<and>
     (\<forall>q w rc w'. psm2_mq_finalize P q w = (rc, w') \<longrightarrow> posted w' \<subseteq># posted w)"

section \<open>Sequences of control calls\<close>

text \<open>Any sequence of calls that set up or tear down, none that posts or polls.\<close>

inductive control_calls :: "'w platform \<Rightarrow> 'w \<Rightarrow> 'w \<Rightarrow> bool" for P where
  cc_refl [simp, intro]: "control_calls P w w"
| cc_quiet: "control_calls P w w1 \<Longrightarrow> quiet_call P w1 w2 \<Longrightarrow> control_calls P w w2"
| cc_open: "control_calls P w w1 \<Longrightarrow> psm2_ep_open P u opts w1 = (rc, e, i, w2) \<Longrightarrow>
     control_calls P w w2"
| cc_close: "control_calls P w w1 \<Longrightarrow> psm2_ep_close P e m t w1 = (rc, w2) \<Longrightarrow>
     control_calls P w w2"
| cc_finalize: "control_calls P w w1 \<Longrightarrow> psm2_mq_finalize P q w1 = (rc, w2) \<Longrightarrow>
     control_calls P w w2"

lemma control_calls_trans:
  assumes "control_calls P u v" and "control_calls P v w"
  shows "control_calls P u w"
  using assms(2,1)
  by (induction rule: control_calls.induct) (blast intro: control_calls.intros)+

lemma mq_contract_control:
  assumes "mq_contract P posted"
  shows "quiet_call P w w' \<Longrightarrow> posted w' = posted w"
    and "psm2_ep_open P u opts w = (rc, e, i, w') \<Longrightarrow> posted w' = posted w"
    and "psm2_ep_close P e m t w = (rc2, w') \<Longrightarrow> posted w' \<subseteq># posted w"
    and "psm2_mq_finalize P q w = (rc3, w') \<Longrightarrow> posted w' \<subseteq># posted w"
  using assms unfolding mq_contract_def by blast+

lemma control_calls_posted:
  assumes "mq_contract P posted" and "control_calls P w w'"
  shows "posted w' \<subseteq># posted w"
  using assms(2)
proof (induction rule: control_calls.induct)
  case (cc_quiet w w1 w2)
  then show ?case using mq_contract_control(1) [OF assms(1)] by metis
next
  case (cc_open w w1 u opts rc e i w2)
  then show ?case using mq_contract_control(2) [OF assms(1)] by metis
next
  case (cc_close w w1 e m t rc w2)
  then show ?case
    using mq_contract_control(3) [OF assms(1)] subset_mset.order_trans by blast
next
  case (cc_finalize w w1 q rc w2)
  then show ?case
    using mq_contract_control(4) [OF assms(1)] subset_mset.order_trans by blast
qed simp

lemma ep_contract_open:
  assumes "ep_contract P opened" and "psm2_ep_open P u opts w = (rc, e, i, w')"
  shows "rc = PSM2_OK P \<Longrightarrow> e \<noteq> 0 \<and> e \<notin> opened w \<and> opened w' = insert e (opened w)"
    and "rc \<noteq> PSM2_OK P \<Longrightarrow> opened w' = opened w"
  using assms unfolding ep_contract_def by (metis (no_types, lifting))+

lemma ep_contract_close:
  assumes "ep_contract P opened" and "psm2_ep_close P e m t w = (rc, w')"
  shows "opened w - {e} \<subseteq> opened w' \<and> opened w' \<subseteq> opened w \<and>
    (rc = PSM2_OK P \<longrightarrow> e \<notin> opened w')"
proof -
  from assms(1) have "\<forall>e m t w rc w'. psm2_ep_close P e m t w = (rc, w') \<longrightarrow>
        opened w - {e} \<subseteq> opened w' \<and> opened w' \<subseteq> opened w \<and>
        (rc = PSM2_OK P \<longrightarrow> e \<notin> opened w')"
    unfolding ep_contract_def by (elim conjE)
  then show ?thesis using assms(2) by blast
qed

lemma ep_contract_quiet:
  assumes "ep_contract P opened"
  shows "quiet_call P w w' \<Longrightarrow> opened w' = opened w"
    and "psm2_mq_finalize P q w = (rc, w') \<Longrightarrow> opened w' = opened w"
    and "psm2_mq_isend P q a f t d l c w = (rc, h, w') \<Longrightarrow> opened w' = opened w"
    and "psm2_mq_irecv P q t ts f d l c w = (rc, h, w') \<Longrightarrow> opened w' = opened w"
    and "psm2_mq_ipeek P q w = (rc, h, w') \<Longrightarrow> opened w' = opened w"
    and "psm2_mq_test P h w = (rc, st, w') \<Longrightarrow> opened w' = opened w"
  using assms unfolding ep_contract_def by (elim conjE, metis)+

section \<open>A simulated library\<close>

text \<open>
  Requests are numbered by a counter, a new endpoint gets a number above those that are
  open. An operation completes as soon as its
  queue is polled, in the order of posting, with all its bytes.
\<close>

record sim =
  sim_env :: "string \<Rightarrow> string option"
  sim_files :: "string \<Rightarrow> string option"
  sim_links :: "string \<Rightarrow> string option"
  sim_fds :: "int \<Rightarrow> string option"
  sim_next :: nat
  sim_eps :: "addr list"
  sim_posted :: "(addr \<times> addr \<times> req_ptr \<times> 32 word) list"

definition sim0 :: sim where
  "sim0 = \<lparr>sim_env = Map.empty, sim_files = Map.empty, sim_links = Map.empty,
    sim_fds = Map.empty, sim_next = 1, sim_eps = [], sim_posted = []\<rparr>"

definition sim_post :: "addr \<Rightarrow> req_ptr \<Rightarrow> 32 word \<Rightarrow> sim \<Rightarrow> int \<times> addr \<times> sim" where
  "sim_post q c l w = (0, sim_next w,
     w\<lparr>sim_next := Suc (sim_next w),
       sim_posted := sim_posted w @ [(sim_next w, q, c, l)]\<rparr>)"

definition sim_fresh :: "sim \<Rightarrow> addr" where
  "sim_fresh w = Suc (foldr max (sim_eps w) 0)"

fun sim_find :: "addr \<Rightarrow> (addr \<times> addr \<times> req_ptr \<times> 32 word) list \<Rightarrow> addr option" where
  "sim_find q [] = None"
| "sim_find q ((h, q', c, l) # xs) = (if q' = q then Some h else sim_find q xs)"

fun sim_take ::
  "addr \<Rightarrow> (addr \<times> addr \<times> req_ptr \<times> 32 word) list \<Rightarrow>
    ((req_ptr \<times> 32 word) \<times> (addr \<times> addr \<times> req_ptr \<times> 32 word) list) option" where
  "sim_take h [] = None"
| "sim_take h ((h', q, c, l) # xs) =
     (if h' = h then Some ((c, l), xs)
      else map_option (\<lambda>(p, ys). (p, (h', q, c, l) # ys)) (sim_take h xs))"

definition sim_test :: "addr \<Rightarrow> sim \<Rightarrow> int \<times> mq_status \<times> sim" where
  "sim_test h w =
     (case sim_take h (sim_posted w) of
        None \<Rightarrow> (60, \<lparr>s_context = (0, 0), s_nbytes = 0\<rparr>, w)
      | Some ((c, l), ps) \<Rightarrow> (0, \<lparr>s_context = c, s_nbytes = l\<rparr>, w\<lparr>sim_posted := ps\<rparr>))"

definition sim_platform :: "sim platform" where
  "sim_platform = \<lparr>
     ndebug = False,
     alloc_ok = (\<lambda>_. True),
     getenv = (\<lambda>name w. sim_env w name),
     os_open = (\<lambda>path w.
       if sim_files w path = None \<or> sim_fds w (int (sim_next w)) \<noteq> None then (-1, w)
       else (int (sim_next w), w\<lparr>sim_next := Suc (sim_next w),
         sim_fds := (sim_fds w)(int (sim_next w) := sim_files w path)\<rparr>)),
     os_read = (\<lambda>fd len w. case sim_fds w fd of None \<Rightarrow> (-1, [], w)
       | Some bs \<Rightarrow> (int (length (take len bs)), take len bs, w)),
     os_close = (\<lambda>fd w. w\<lparr>sim_fds := (sim_fds w)(fd := None)\<rparr>),
     os_lstat = (\<lambda>path w. (if sim_links w path = None then -1 else 0, w)),
     os_realpath = (\<lambda>path w.
       (Option.bind (sim_links w path) (\<lambda>r. if length r < PATH_MAX then Some r else None), w)),
     PSM2_OK = 0,
     PSM2_MQ_INCOMPLETE = 60,
     PSM2_VERNO_MAJOR = 2,
     PSM2_VERNO_MINOR = 0,
     PSM2_EP_CLOSE_GRACEFUL = 1,
     PSM2_MQ_ORDERMASK_NONE = 0,
     PSM2_MQ_FLAG_GDRCPY_ONLY = 2,
     psm2_init = (\<lambda>ma mi w. (0, w)),
     psm2_info_query = (\<lambda>q a w. (0, 1, w)),
     psm2_ep_open_opts_get_defaults = (\<lambda>w. (0, \<lparr>opt_unit = -1, other_opts = 0\<rparr>, w)),
     psm2_ep_open = (\<lambda>u opts w. (0, sim_fresh w, of_nat (sim_fresh w),
       w\<lparr>sim_eps := sim_fresh w # sim_eps w\<rparr>)),
     psm2_ep_close = (\<lambda>e m t w. (0, w\<lparr>sim_eps := removeAll e (sim_eps w)\<rparr>)),
     psm2_ep_connect = (\<lambda>e i m t w. (0, 0, unat i, w)),
     psm2_mq_init = (\<lambda>e om w. (0, e, w)),
     psm2_mq_finalize = (\<lambda>q w. (0, w)),
     psm2_mq_isend = (\<lambda>q a f t d l c w. sim_post q c l w),
     psm2_mq_irecv = (\<lambda>q t ts f d l c w. sim_post q c l w),
     psm2_mq_ipeek = (\<lambda>q w. case sim_find q (sim_posted w) of
       None \<Rightarrow> (60, 0, w) | Some h \<Rightarrow> (0, h, w)),
     psm2_mq_test = sim_test\<rparr>"

fun sim_pairs ::
  "(addr \<times> addr \<times> req_ptr \<times> 32 word) list \<Rightarrow> (req_ptr \<times> 32 word) multiset" where
  "sim_pairs [] = {#}"
| "sim_pairs ((h, q, p) # xs) = add_mset p (sim_pairs xs)"

definition sim_view :: "sim \<Rightarrow> (req_ptr \<times> 32 word) multiset" where
  "sim_view w = sim_pairs (sim_posted w)"

lemma sim_simps [simp]:
  "ndebug sim_platform = False"
  "alloc_ok sim_platform n = True"
  "getenv sim_platform name w = sim_env w name"
  "os_open sim_platform path w =
     (if sim_files w path = None \<or> sim_fds w (int (sim_next w)) \<noteq> None then (-1, w)
     else (int (sim_next w), w\<lparr>sim_next := Suc (sim_next w),
       sim_fds := (sim_fds w)(int (sim_next w) := sim_files w path)\<rparr>))"
  "os_read sim_platform fd len w = (case sim_fds w fd of None \<Rightarrow> (-1, [], w)
     | Some bs \<Rightarrow> (int (length (take len bs)), take len bs, w))"
  "os_close sim_platform fd w = w\<lparr>sim_fds := (sim_fds w)(fd := None)\<rparr>"
  "os_lstat sim_platform path w = (if sim_links w path = None then -1 else 0, w)"
  "os_realpath sim_platform path w =
     (Option.bind (sim_links w path) (\<lambda>r. if length r < PATH_MAX then Some r else None), w)"
  "PSM2_OK sim_platform = 0"
  "PSM2_MQ_INCOMPLETE sim_platform = 60"
  "PSM2_EP_CLOSE_GRACEFUL sim_platform = 1"
  "psm2_init sim_platform ma mi w = (0, w)"
  "psm2_info_query sim_platform iq ia w = (0, 1, w)"
  "psm2_ep_open_opts_get_defaults sim_platform w = (0, \<lparr>opt_unit = -1, other_opts = 0\<rparr>, w)"
  "psm2_ep_open sim_platform u opts w = (0, sim_fresh w, of_nat (sim_fresh w),
     w\<lparr>sim_eps := sim_fresh w # sim_eps w\<rparr>)"
  "psm2_ep_close sim_platform e m t w = (0, w\<lparr>sim_eps := removeAll e (sim_eps w)\<rparr>)"
  "psm2_ep_connect sim_platform e i m t w = (0, 0, unat i, w)"
  "psm2_mq_init sim_platform e om w = (0, e, w)"
  "psm2_mq_finalize sim_platform q w = (0, w)"
  "psm2_mq_isend sim_platform q a f tg d l c w = sim_post q c l w"
  "psm2_mq_irecv sim_platform q tg ts f d l c w = sim_post q c l w"
  "psm2_mq_ipeek sim_platform q w = (case sim_find q (sim_posted w) of
     None \<Rightarrow> (60, 0, w) | Some h \<Rightarrow> (0, h, w))"
  "psm2_mq_test sim_platform h w = sim_test h w"
  by (simp_all add: sim_platform_def)

lemma sim_fresh_notin: "sim_fresh w \<notin> set (sim_eps w)"
proof -
  have le: "x \<in> set xs \<Longrightarrow> x \<le> foldr max xs 0" for x :: addr and xs
    by (induction xs) auto
  have "sim_fresh w \<in> set (sim_eps w) \<Longrightarrow> sim_fresh w \<le> foldr max (sim_eps w) 0"
    by (rule le)
  then show ?thesis by (auto simp: sim_fresh_def)
qed

lemma sim_fresh_pos: "0 < sim_fresh w"
  by (simp add: sim_fresh_def)

lemma sim_pairs_append: "sim_pairs (xs @ ys) = sim_pairs xs + sim_pairs ys"
  by (induction xs rule: sim_pairs.induct) auto

lemma sim_find_take:
  assumes "sim_find q xs = Some h"
  shows "\<exists>c l ys. sim_take h xs = Some ((c, l), ys) \<and>
    sim_pairs xs = add_mset (c, l) (sim_pairs ys)"
  using assms
proof (induction q xs rule: sim_find.induct)
  case (2 q h' q' c l xs)
  show ?case
  proof (cases "h' = h")
    case True
    then show ?thesis by simp
  next
    case False
    with 2 obtain c2 l2 ys where "sim_take h xs = Some ((c2, l2), ys)"
      and "sim_pairs xs = add_mset (c2, l2) (sim_pairs ys)"
      by (auto split: if_splits)
    with False show ?thesis by auto
  qed
qed simp

lemma sim_quiet:
  "quiet_call sim_platform w w' \<Longrightarrow> sim_eps w' = sim_eps w \<and> sim_posted w' = sim_posted w"
  by (induction rule: quiet_call.induct) (auto elim!: sys_call.cases split: if_splits option.splits)

lemma sim_test_eps: "sim_test h w = (rc, st, w') \<Longrightarrow> sim_eps w' = sim_eps w"
  by (auto simp: sim_test_def split: option.splits)

lemma sim_consts_ok: "consts_ok sim_platform"
  by (simp add: consts_ok_def)

lemma sim_ep_contract: "ep_contract sim_platform (\<lambda>w. set (sim_eps w))"
  unfolding ep_contract_def
  by (auto simp: sim_fresh_notin sim_fresh_pos sim_post_def dest: sim_quiet sim_test_eps
      split: option.splits)

lemma sim_mq_contract: "mq_contract sim_platform sim_view"
  unfolding mq_contract_def sim_view_def
  by (auto simp: sim_post_def sim_test_def sim_pairs_append dest!: sim_find_take dest: sim_quiet
      split: option.splits)

end
