(* ===== verification/Debug_Log.thy ===== *)
theory Debug_Log
  imports Psm2_Contract
begin

text \<open>
  Logging (\<open>psm2_nccl_debug.h\<close>) and its initialisation
  (\<open>psm2_nccl_init_logging\<close> in \<open>psm2_nccl_api.c\<close>).
\<close>

section \<open>Levels and the logging macro\<close>

definition PSM2_NCCL_LOG_LEVEL_WARN :: "32 word" where
  "PSM2_NCCL_LOG_LEVEL_WARN = 0"

definition PSM2_NCCL_LOG_LEVEL_ERROR :: "32 word" where
  "PSM2_NCCL_LOG_LEVEL_ERROR = 0"

definition PSM2_NCCL_LOG_LEVEL_INFO :: "32 word" where
  "PSM2_NCCL_LOG_LEVEL_INFO = 1"

definition PSM2_NCCL_LOG_LEVEL_DBG :: "32 word" where
  "PSM2_NCCL_LOG_LEVEL_DBG = 2"

definition PSM2_NCCL_LOG_LEVEL_VERDBG :: "32 word" where
  "PSM2_NCCL_LOG_LEVEL_VERDBG = 3"

lemmas log_level_defs = PSM2_NCCL_LOG_LEVEL_WARN_def PSM2_NCCL_LOG_LEVEL_ERROR_def
  PSM2_NCCL_LOG_LEVEL_INFO_def PSM2_NCCL_LOG_LEVEL_DBG_def PSM2_NCCL_LOG_LEVEL_VERDBG_def

text \<open>
  What \<open>PSM_LOG_MSG\<close> does with a message of a level: nothing, or a call of
  \<open>pluginLogFunction\<close> with an NCCL level and subsystem. Calling a NULL function
  pointer is undefined.
\<close>

definition PSM_LOG_MSG ::
  "32 word \<Rightarrow> 'w plugin \<Rightarrow> (ncclDebugLogLevel \<times> nat) option outcome" where
  "PSM_LOG_MSG level s =
     (if level \<le> plugin_logLevel s then
        if pluginLogFunction s = 0 then Undef
        else Ret (Some (if level \<le> PSM2_NCCL_LOG_LEVEL_ERROR then NCCL_LOG_WARN
                        else NCCL_LOG_INFO, NCCL_NET))
      else Ret None)"

text \<open>The macros that the code writes, one per level.\<close>

definition PSM_WARN :: "'w plugin \<Rightarrow> (ncclDebugLogLevel \<times> nat) option outcome" where
  "PSM_WARN s = PSM_LOG_MSG PSM2_NCCL_LOG_LEVEL_WARN s"

definition PSM_ERROR :: "'w plugin \<Rightarrow> (ncclDebugLogLevel \<times> nat) option outcome" where
  "PSM_ERROR s = PSM_LOG_MSG PSM2_NCCL_LOG_LEVEL_ERROR s"

definition PSM_INFO :: "'w plugin \<Rightarrow> (ncclDebugLogLevel \<times> nat) option outcome" where
  "PSM_INFO s = PSM_LOG_MSG PSM2_NCCL_LOG_LEVEL_INFO s"

definition PSM_DBG :: "'w plugin \<Rightarrow> (ncclDebugLogLevel \<times> nat) option outcome" where
  "PSM_DBG s = PSM_LOG_MSG PSM2_NCCL_LOG_LEVEL_DBG s"

definition PSM_VERDBG :: "'w plugin \<Rightarrow> (ncclDebugLogLevel \<times> nat) option outcome" where
  "PSM_VERDBG s = PSM_LOG_MSG PSM2_NCCL_LOG_LEVEL_VERDBG s"

lemmas psm_log_defs = PSM_WARN_def PSM_ERROR_def PSM_INFO_def PSM_DBG_def PSM_VERDBG_def

text \<open>
  The debug message about a communicator. The arguments of the macro are evaluated only if
  the message is printed, so only then is the communicator read.
\<close>

definition dump_comm :: "addr \<Rightarrow> 'w plugin \<Rightarrow> (ncclDebugLogLevel \<times> nat) option outcome" where
  "dump_comm comm s =
     (if comm = 0 then PSM_DBG s
      else if PSM2_NCCL_LOG_LEVEL_DBG \<le> plugin_logLevel s
      then obind (load_comm comm s) (\<lambda>_. PSM_DBG s)
      else Ret None)"

section \<open>Initialisation\<close>

definition psm2_nccl_init_logging ::
  "'w platform \<Rightarrow> addr \<Rightarrow> 'w plugin \<Rightarrow> int \<times> 'w plugin" where
  "psm2_nccl_init_logging P logFunction s =
     (case getenv P ''PSM2_NCCL_LOG_LEVEL'' (world s) of
        None \<Rightarrow> (0, s\<lparr>pluginLogFunction := logFunction\<rparr>)
      | Some llvar \<Rightarrow>
          (case strtoul 10 llvar of (loglevel, rest) \<Rightarrow>
             if rest \<noteq> [] then (-1, s)
             else if UINT_MAX < unat loglevel then (-2, s)
             else
               let s1 = s\<lparr>plugin_logLevel := ucast loglevel\<rparr> in
               if PSM2_NCCL_LOG_LEVEL_VERDBG < plugin_logLevel s1
               then (-3, s1\<lparr>plugin_logLevel := 0\<rparr>)
               else (0, s1\<lparr>pluginLogFunction := logFunction\<rparr>)))"

text \<open>What the logger reads is always a level the plugin knows.\<close>

definition log_ok :: "'w plugin \<Rightarrow> bool" where
  "log_ok s \<longleftrightarrow> plugin_logLevel s \<le> PSM2_NCCL_LOG_LEVEL_VERDBG"

lemma init_logging_log_ok:
  "log_ok s \<Longrightarrow> log_ok (snd (psm2_nccl_init_logging P f s))"
  by (auto simp: psm2_nccl_init_logging_def log_ok_def Let_def log_level_defs
      split: option.splits prod.splits)

text \<open>The frame: only the two logging variables change.\<close>

lemma init_logging_frame [frame_simps]:
  "psm2_nccl_init_logging P f s = (rc, s') \<Longrightarrow>
     s' = s\<lparr>plugin_logLevel := plugin_logLevel s', pluginLogFunction := pluginLogFunction s'\<rparr>"
  by (auto simp: psm2_nccl_init_logging_def Let_def split: option.splits prod.splits if_splits)

lemma init_logging_0:
  "psm2_nccl_init_logging P f s = (rc, s') \<Longrightarrow> 0 \<le> rc \<Longrightarrow> rc = 0 \<and> pluginLogFunction s' = f"
  by (auto simp: psm2_nccl_init_logging_def Let_def split: option.splits prod.splits if_splits)

text \<open>A decimal number too large for the type saturates.\<close>

lemma strtoul_show_nat_big:
  "ULONG_MAX < n \<Longrightarrow> strtoul 10 (show_nat n) = (of_nat ULONG_MAX, [])"
  by (simp add: strtoul_def skip_to_digit [OF show_nat_starts] show_nat_starts scan_show_nat)

text \<open>C39: every decimal number that the user can write is answered by its size.\<close>

lemma init_logging_decimal:
  "getenv P ''PSM2_NCCL_LOG_LEVEL'' (world s) = Some (show_nat n) \<Longrightarrow>
   psm2_nccl_init_logging P f s =
     (if n \<le> 3 then (0, s\<lparr>plugin_logLevel := of_nat n, pluginLogFunction := f\<rparr>)
      else if n \<le> UINT_MAX then (-3, s\<lparr>plugin_logLevel := 0\<rparr>)
      else (-2, s))"
proof (cases "n \<le> ULONG_MAX")
  case True
  assume env: "getenv P ''PSM2_NCCL_LOG_LEVEL'' (world s) = Some (show_nat n)"
  have u: "unat (of_nat n :: 64 word) = n"
    using True by (simp add: unat_of_nat ULONG_MAX_def)
  show ?thesis
  proof (cases "n \<le> UINT_MAX")
    case ints: True
    then have c: "ucast (of_nat n :: 64 word) = (of_nat n :: 32 word)"
      and n: "unat (of_nat n :: 32 word) = n"
      by (simp_all add: unsigned_of_nat take_bit_nat_eq_self UINT_MAX_def)
    then have "(3 :: 32 word) < of_nat n \<longleftrightarrow> 3 < n"
      by (simp add: word_less_nat_alt)
    then show ?thesis
      using env True u ints c
      by (simp add: psm2_nccl_init_logging_def strtoul_show_nat Let_def log_level_defs)
  next
    case False
    then show ?thesis
      using env True u
      by (simp add: psm2_nccl_init_logging_def strtoul_show_nat UINT_MAX_def)
  qed
next
  case False
  assume env: "getenv P ''PSM2_NCCL_LOG_LEVEL'' (world s) = Some (show_nat n)"
  then show ?thesis
    using False
    by (simp add: psm2_nccl_init_logging_def strtoul_show_nat_big limit_simps)
qed

text \<open>The level 2 is accepted, and a number that no \<open>unsigned long\<close> holds is refused.\<close>

lemma init_logging_decimal_witness:
  "psm2_nccl_init_logging sim_platform 7
     (initial_plugin (sim0\<lparr>sim_env := [''PSM2_NCCL_LOG_LEVEL'' \<mapsto> show_nat 2]\<rparr>)) =
     (0, (initial_plugin (sim0\<lparr>sim_env := [''PSM2_NCCL_LOG_LEVEL'' \<mapsto> show_nat 2]\<rparr>))
        \<lparr>plugin_logLevel := 2, pluginLogFunction := 7\<rparr>) \<and>
   fst (psm2_nccl_init_logging sim_platform 7
     (initial_plugin (sim0\<lparr>sim_env := [''PSM2_NCCL_LOG_LEVEL'' \<mapsto> show_nat (2 ^ 64)]\<rparr>))) = -2"
proof -
  let ?s = "\<lambda>n. initial_plugin (sim0\<lparr>sim_env := [''PSM2_NCCL_LOG_LEVEL'' \<mapsto> show_nat n]\<rparr>)"
  have e: "getenv sim_platform ''PSM2_NCCL_LOG_LEVEL'' (world (?s n)) = Some (show_nat n)" for n
    by (simp add: initial_plugin_def)
  show ?thesis
    using init_logging_decimal [OF e, of 7 2] init_logging_decimal [OF e, of 7 "2 ^ 64"]
    by (simp add: UINT_MAX_def)
qed

end
