(* ===== verification/Config.thy ===== *)
theory Config
  imports Debug_Log
begin

text \<open>
  \<open>psm2_nccl_init\<close>: the environment variables that configure the plugin and the
  initialisation of libpsm2.
\<close>

section \<open>Reading the environment\<close>

text \<open>
  The check that four of the variables share (\<open>*end\<close> not NUL or \<open>val > 1\<close> is an
  error) and that \<open>PSM2_NCCL_SHARED_EP\<close> writes as \<open>envval != 0 && envval != 1\<close>.
\<close>

definition env_bit :: "string \<Rightarrow> int option" where
  "env_bit v =
     (case strtoul 2 v of (val, rest) \<Rightarrow>
        if rest \<noteq> [] \<or> 1 < val then None else Some (uint val))"

text \<open>A variable that is not set keeps the current value.\<close>

definition read_flag :: "'w platform \<Rightarrow> string \<Rightarrow> int \<Rightarrow> 'w \<Rightarrow> int option" where
  "read_flag P name cur w =
     (case getenv P name w of None \<Rightarrow> Some cur | Some v \<Rightarrow> env_bit v)"

definition multi_policy :: "string \<Rightarrow> int option" where
  "multi_policy v =
     (if strncasecmp v ''error'' (length v) = 0 then Some SHARED_EP_MULTI_ERROR
      else if strncasecmp v ''warn'' (length v) = 0 then Some SHARED_EP_MULTI_WARN
      else None)"

definition read_multi_policy :: "'w platform \<Rightarrow> int \<Rightarrow> 'w \<Rightarrow> int option" where
  "read_multi_policy P cur w =
     (case getenv P ''PSM2_NCCL_SHARED_EP_MULTI'' w of
        None \<Rightarrow> Some cur
      | Some v \<Rightarrow> multi_policy v)"

section \<open>psm2_nccl_init\<close>

text \<open>
  The last part: GPUDirect is switched off unless PSM2 has CUDA and GPUDirect on, and
  libpsm2 is initialised.
\<close>

definition init_finish ::
  "'w platform \<Rightarrow> int \<Rightarrow> int \<Rightarrow> 'w plugin \<Rightarrow> ncclResult \<times> 'w plugin" where
  "init_finish P psm_cuda psm_gpudirect s =
     (let s1 = (if use_gpudirect s \<noteq> 0 \<and> (psm_cuda = 0 \<or> psm_gpudirect = 0)
                then s\<lparr>use_gpudirect := 0\<rparr> else s) in
      case psm2_init P (PSM2_VERNO_MAJOR P) (PSM2_VERNO_MINOR P) (world s1) of
        (rc, w') \<Rightarrow>
          (if rc = PSM2_OK P then ncclSuccess else ncclInternalError, s1\<lparr>world := w'\<rparr>))"

definition init_gpudirect :: "'w platform \<Rightarrow> 'w plugin \<Rightarrow> ncclResult \<times> 'w plugin" where
  "init_gpudirect P s =
     (case read_flag P ''PSM2_NCCL_USE_GPUDIRECT'' (use_gpudirect s) (world s) of
        None \<Rightarrow> (ncclInternalError, s)
      | Some gdr \<Rightarrow>
          (let s1 = s\<lparr>use_gpudirect := gdr\<rparr> in
           case read_flag P ''PSM2_CUDA'' 0 (world s1) of
             None \<Rightarrow> (ncclInternalError, s1)
           | Some psm_cuda \<Rightarrow>
               (case read_flag P ''PSM2_GPUDIRECT'' 0 (world s1) of
                  None \<Rightarrow> (ncclInternalError, s1)
                | Some psm_gpudirect \<Rightarrow> init_finish P psm_cuda psm_gpudirect s1)))"

text \<open>\<open>HFI_UNIT\<close> only decides whether a warning is logged, so it is not read here.\<close>

definition psm2_nccl_init :: "'w platform \<Rightarrow> addr \<Rightarrow> 'w plugin \<Rightarrow> ncclResult \<times> 'w plugin" where
  "psm2_nccl_init P logFunction s =
     (case psm2_nccl_init_logging P logFunction s of (lrc, s1) \<Rightarrow>
        if lrc < 0 then (ncclInternalError, s1)
        else
          let s2 = s1\<lparr>jobkey := replicate 16 0\<rparr> in
          case read_flag P ''PSM2_NCCL_USE_NCCL_DEV'' (use_nccl_dev_num s2) (world s2) of
            None \<Rightarrow> (ncclInternalError, s2)
          | Some dev \<Rightarrow>
              (let s3 = s2\<lparr>use_nccl_dev_num := dev\<rparr> in
               case read_flag P ''PSM2_NCCL_SHARED_EP'' (use_shared_ep s3) (world s3) of
                 None \<Rightarrow> (ncclInternalError, s3)
               | Some shep \<Rightarrow>
                   (let s4 = s3\<lparr>use_shared_ep := shep\<rparr> in
                    case read_multi_policy P (shared_ep_multi_policy s4) (world s4) of
                      None \<Rightarrow> (ncclInternalError, s4)
                    | Some pol \<Rightarrow>
                        init_gpudirect P (s4\<lparr>shared_ep_multi_policy := pol\<rparr>))))"

section \<open>The configuration invariant\<close>

text \<open>
  The flags are 0 or 1 and the policy is one of the two that \<open>psm2comm_init_ep\<close> handles
  (its \<open>default\<close> branch asserts false).
\<close>

definition is_bit :: "int \<Rightarrow> bool" where
  "is_bit v \<longleftrightarrow> v = 0 \<or> v = 1"

definition config_ok :: "'w plugin \<Rightarrow> bool" where
  "config_ok s \<longleftrightarrow>
     is_bit (use_shared_ep s) \<and> is_bit (use_gpudirect s) \<and> is_bit (use_nccl_dev_num s) \<and>
     use_gdr_dmabuf s = 0 \<and> log_ok s \<and>
     (shared_ep_multi_policy s = SHARED_EP_MULTI_ERROR \<or>
      shared_ep_multi_policy s = SHARED_EP_MULTI_WARN)"

lemma env_bit_is_bit: "env_bit v = Some b \<Longrightarrow> is_bit b"
proof -
  have "\<not> 1 < val \<Longrightarrow> uint val = 0 \<or> uint val = 1" for val :: "64 word"
  proof -
    assume "\<not> 1 < val"
    then have "uint val \<le> 1" by (simp add: word_less_def)
    moreover have "0 \<le> uint val" by simp
    ultimately show ?thesis by linarith
  qed
  then show "env_bit v = Some b \<Longrightarrow> is_bit b"
    by (auto simp: env_bit_def is_bit_def split: prod.splits if_splits)
qed

lemma read_flag_is_bit: "read_flag P n cur w = Some b \<Longrightarrow> is_bit cur \<Longrightarrow> is_bit b"
  by (auto simp: read_flag_def env_bit_is_bit split: option.splits)

lemma multi_policy_range:
  "multi_policy v = Some p \<Longrightarrow> p = SHARED_EP_MULTI_ERROR \<or> p = SHARED_EP_MULTI_WARN"
  by (auto simp: multi_policy_def split: if_splits)

lemma read_multi_policy_range:
  "read_multi_policy P cur w = Some p \<Longrightarrow>
     p = cur \<or> p = SHARED_EP_MULTI_ERROR \<or> p = SHARED_EP_MULTI_WARN"
  by (auto simp: read_multi_policy_def dest: multi_policy_range split: option.splits)

text \<open>Single assignments of the configuration that keep the invariant.\<close>

lemma config_ok_upd [intro]:
  "config_ok s \<Longrightarrow> is_bit v \<Longrightarrow> config_ok (s\<lparr>use_shared_ep := v\<rparr>)"
  "config_ok s \<Longrightarrow> is_bit v \<Longrightarrow> config_ok (s\<lparr>use_gpudirect := v\<rparr>)"
  "config_ok s \<Longrightarrow> is_bit v \<Longrightarrow> config_ok (s\<lparr>use_nccl_dev_num := v\<rparr>)"
  "config_ok s \<Longrightarrow> v = SHARED_EP_MULTI_ERROR \<or> v = SHARED_EP_MULTI_WARN \<Longrightarrow>
     config_ok (s\<lparr>shared_ep_multi_policy := v\<rparr>)"
  "config_ok s \<Longrightarrow> config_ok (s\<lparr>jobkey := k\<rparr>)"
  "config_ok s \<Longrightarrow> config_ok (s\<lparr>world := w\<rparr>)"
  by (auto simp: config_ok_def log_ok_def)

lemma config_okD [dest]:
  assumes "config_ok s"
  shows "is_bit (use_shared_ep s)" and "is_bit (use_gpudirect s)"
    and "is_bit (use_nccl_dev_num s)" and "use_gdr_dmabuf s = 0"
    and "shared_ep_multi_policy s = SHARED_EP_MULTI_ERROR \<or>
      shared_ep_multi_policy s = SHARED_EP_MULTI_WARN"
  using assms by (auto simp: config_ok_def)

lemma is_bit_0 [simp]: "is_bit 0"
  by (simp add: is_bit_def)

lemma is_bit_1 [simp]: "is_bit 1"
  by (simp add: is_bit_def)

lemma read_flags_config_ok:
  assumes "config_ok s"
  shows "read_flag P n (use_shared_ep s) w = Some b \<Longrightarrow> is_bit b"
    and "read_flag P n (use_gpudirect s) w = Some b \<Longrightarrow> is_bit b"
    and "read_flag P n (use_nccl_dev_num s) w = Some b \<Longrightarrow> is_bit b"
    and "read_multi_policy P (shared_ep_multi_policy s) w = Some p \<Longrightarrow>
      p = SHARED_EP_MULTI_ERROR \<or> p = SHARED_EP_MULTI_WARN"
  using config_okD [OF assms] by (blast dest: read_flag_is_bit read_multi_policy_range)+

lemma init_finish_config_ok:
  "config_ok s \<Longrightarrow> config_ok (snd (init_finish P c g s))"
  by (auto simp: init_finish_def Let_def config_ok_upd split: prod.splits)

lemma init_gpudirect_config_ok:
  assumes "config_ok s"
  shows "config_ok (snd (init_gpudirect P s))"
proof (cases "read_flag P ''PSM2_NCCL_USE_GPUDIRECT'' (use_gpudirect s) (world s)")
  case None
  with assms show ?thesis by (simp add: init_gpudirect_def)
next
  case (Some gdr)
  with assms have "config_ok (s\<lparr>use_gpudirect := gdr\<rparr>)"
    by (auto intro: read_flags_config_ok)
  with Some show ?thesis
    by (simp add: init_gpudirect_def Let_def init_finish_config_ok split: option.split)
qed

lemma init_logging_config_ok:
  assumes "psm2_nccl_init_logging P f s = (rc, s')" and "config_ok s"
  shows "config_ok s'"
proof -
  obtain l p where "s' = s\<lparr>plugin_logLevel := l, pluginLogFunction := p\<rparr>"
    using init_logging_frame [OF assms(1)] by blast
  moreover have "log_ok s'"
    using assms init_logging_log_ok [of s P f] by (simp add: config_ok_def)
  ultimately show ?thesis
    using assms(2) by (simp add: config_ok_def)
qed

text \<open>\<open>psm2_nccl_init\<close> keeps the configuration invariant, also when it fails.\<close>

lemma psm2_nccl_init_config_ok:
  assumes "config_ok s"
  shows "config_ok (snd (psm2_nccl_init P f s))"
proof -
  obtain lrc s1 where l: "psm2_nccl_init_logging P f s = (lrc, s1)" by fastforce
  with assms have "config_ok s1" by (blast intro: init_logging_config_ok)
  with l show ?thesis
    by (auto simp: psm2_nccl_init_def Let_def config_ok_upd intro!: init_gpudirect_config_ok
        dest: read_flags_config_ok [OF \<open>config_ok s1\<close>] split: option.splits)
qed

section \<open>What a successful initialisation says\<close>

definition flag_parses :: "'w platform \<Rightarrow> string \<Rightarrow> 'w \<Rightarrow> bool" where
  "flag_parses P name w \<longleftrightarrow> (\<forall>v. getenv P name w = Some v \<longrightarrow> env_bit v \<noteq> None)"

definition policy_parses :: "'w platform \<Rightarrow> 'w \<Rightarrow> bool" where
  "policy_parses P w \<longleftrightarrow>
     (\<forall>v. getenv P ''PSM2_NCCL_SHARED_EP_MULTI'' w = Some v \<longrightarrow> multi_policy v \<noteq> None)"

lemma read_flag_None [simp]: "read_flag P n c w = None \<longleftrightarrow> \<not> flag_parses P n w"
  by (auto simp: read_flag_def flag_parses_def split: option.splits)

lemma read_multi_policy_None [simp]: "read_multi_policy P c w = None \<longleftrightarrow> \<not> policy_parses P w"
  by (auto simp: read_multi_policy_def policy_parses_def split: option.splits)

lemma read_flag_Some: "flag_parses P n w \<longleftrightarrow> (\<exists>v. read_flag P n c w = Some v)"
  using read_flag_None [of P n c w] by (auto simp del: read_flag_None)

lemma read_multi_policy_Some: "policy_parses P w \<longleftrightarrow> (\<exists>v. read_multi_policy P c w = Some v)"
  using read_multi_policy_None [of P c w] by (auto simp del: read_multi_policy_None)

lemma init_logging_world [frame_simps]:
  "psm2_nccl_init_logging P f s = (rc, s') \<Longrightarrow> world s' = world s"
  by (auto simp: psm2_nccl_init_logging_def Let_def split: option.splits prod.splits if_splits)

lemma init_finish_success:
  "fst (init_finish P c g s) = ncclSuccess \<longleftrightarrow>
     fst (psm2_init P (PSM2_VERNO_MAJOR P) (PSM2_VERNO_MINOR P) (world s)) = PSM2_OK P"
  by (auto simp: init_finish_def Let_def split: prod.splits)

lemma init_gpudirect_success:
  "fst (init_gpudirect P s) = ncclSuccess \<longleftrightarrow>
     flag_parses P ''PSM2_NCCL_USE_GPUDIRECT'' (world s) \<and>
     flag_parses P ''PSM2_CUDA'' (world s) \<and> flag_parses P ''PSM2_GPUDIRECT'' (world s) \<and>
     fst (psm2_init P (PSM2_VERNO_MAJOR P) (PSM2_VERNO_MINOR P) (world s)) = PSM2_OK P"
  unfolding read_flag_Some [of P "''PSM2_NCCL_USE_GPUDIRECT''" _ "use_gpudirect s"]
    read_flag_Some [of P "''PSM2_CUDA''" _ 0] read_flag_Some [of P "''PSM2_GPUDIRECT''" _ 0]
  by (auto simp: init_gpudirect_def Let_def init_finish_success split: option.split
      simp del: read_flag_None)

text \<open>
  C30: \<open>psm2_nccl_init\<close> succeeds exactly when every variable that is set can be parsed and
  libpsm2 initialises; in particular no setting is silently ignored.
\<close>

theorem psm2_nccl_init_success:
  "fst (psm2_nccl_init P f s) = ncclSuccess \<longleftrightarrow>
     0 \<le> fst (psm2_nccl_init_logging P f s) \<and>
     list_all (\<lambda>name. flag_parses P name (world s))
       [''PSM2_NCCL_USE_NCCL_DEV'', ''PSM2_NCCL_SHARED_EP'', ''PSM2_NCCL_USE_GPUDIRECT'',
        ''PSM2_CUDA'', ''PSM2_GPUDIRECT''] \<and>
     policy_parses P (world s) \<and>
     fst (psm2_init P (PSM2_VERNO_MAJOR P) (PSM2_VERNO_MINOR P) (world s)) = PSM2_OK P"
proof -
  obtain lrc s1 where l: "psm2_nccl_init_logging P f s = (lrc, s1)" by fastforce
  then have "world s1 = world s" by (rule init_logging_world)
  with l show ?thesis
    unfolding read_flag_Some [of P "''PSM2_NCCL_USE_NCCL_DEV''" _ "use_nccl_dev_num s1"]
      read_flag_Some [of P "''PSM2_NCCL_SHARED_EP''" _ "use_shared_ep s1"]
      read_multi_policy_Some [of P _ "shared_ep_multi_policy s1"] list.pred_inject
    by (auto simp: psm2_nccl_init_def Let_def init_gpudirect_success split: option.split
        simp del: read_flag_None read_multi_policy_None)
qed

lemma init_finish_gpudirect:
  "use_gpudirect (snd (init_finish P c g s)) \<noteq> 0 \<Longrightarrow> c \<noteq> 0 \<and> g \<noteq> 0"
  by (auto simp: init_finish_def Let_def split: prod.splits if_splits)

lemma init_gpudirect_sound:
  assumes "fst (init_gpudirect P s) = ncclSuccess"
    and "use_gpudirect (snd (init_gpudirect P s)) \<noteq> 0"
  shows "read_flag P ''PSM2_CUDA'' 0 (world s) = Some 1 \<and>
    read_flag P ''PSM2_GPUDIRECT'' 0 (world s) = Some 1"
proof -
  have "read_flag P n 0 w = Some v \<Longrightarrow> v \<noteq> 0 \<Longrightarrow> v = 1" for n v w
    using read_flag_is_bit [of P n 0 w v] by (auto simp: is_bit_def)
  with assms show ?thesis
    by (auto simp: init_gpudirect_def Let_def dest!: init_finish_gpudirect split: option.splits)
qed

text \<open>
  After a successful initialisation the plugin offers GPUDirect only if the environment
  says that both PSM2 CUDA support and PSM2 GPUDirect are on.
\<close>

lemma psm2_nccl_init_gpudirect_sound:
  assumes "fst (psm2_nccl_init P f s) = ncclSuccess"
    and "use_gpudirect (snd (psm2_nccl_init P f s)) \<noteq> 0"
  shows "read_flag P ''PSM2_CUDA'' 0 (world s) = Some 1 \<and>
    read_flag P ''PSM2_GPUDIRECT'' 0 (world s) = Some 1"
proof -
  obtain lrc s1 where l: "psm2_nccl_init_logging P f s = (lrc, s1)" by fastforce
  then have "world s1 = world s" by (rule init_logging_world)
  with assms l show ?thesis
    by (auto simp: psm2_nccl_init_def Let_def dest!: init_gpudirect_sound
        split: option.splits if_splits)
qed

definition gdr_sim :: sim where
  "gdr_sim = sim0\<lparr>sim_env := [''PSM2_CUDA'' \<mapsto> ''1'', ''PSM2_GPUDIRECT'' \<mapsto> ''1'']\<rparr>"

lemma gdr_sim_init:
  "psm2_nccl_init sim_platform 7 (initial_plugin gdr_sim) =
     (ncclSuccess, (initial_plugin gdr_sim)\<lparr>pluginLogFunction := 7\<rparr>)"
  by (simp add: psm2_nccl_init_def psm2_nccl_init_logging_def read_flag_def
      read_multi_policy_def init_gpudirect_def init_finish_def initial_plugin_def gdr_sim_def
      sim0_def env_bit_def strtoul_def starts_with_digit_def digit_of_def code_of_def
      isspace_def ULONG_MAX_def Let_def)

section \<open>The frame of initialisation\<close>

lemma init_finish_frame [frame_simps]:
  "comms (snd (init_finish P c g s)) = comms s"
  "strs (snd (init_finish P c g s)) = strs s"
  "allocs (snd (init_finish P c g s)) = allocs s"
  "next_tag (snd (init_finish P c g s)) = next_tag s"
  "shared_ep (snd (init_finish P c g s)) = shared_ep s"
  by (simp_all add: init_finish_def Let_def split: prod.splits)

lemma init_gpudirect_frame [frame_simps]:
  "comms (snd (init_gpudirect P s)) = comms s"
  "strs (snd (init_gpudirect P s)) = strs s"
  "allocs (snd (init_gpudirect P s)) = allocs s"
  "next_tag (snd (init_gpudirect P s)) = next_tag s"
  "shared_ep (snd (init_gpudirect P s)) = shared_ep s"
  by (simp_all add: init_gpudirect_def Let_def frame_simps split: option.splits)

lemma init_logging_frame_fields [frame_simps]:
  assumes "psm2_nccl_init_logging P f s = (rc, s')"
  shows "comms s' = comms s" and "strs s' = strs s" and "allocs s' = allocs s"
    and "next_tag s' = next_tag s" and "shared_ep s' = shared_ep s"
  by (subst init_logging_frame [OF assms], simp)+

text \<open>
  Initialisation, repeated or not, successful or not, leaves the communicators, their
  memory, the shared endpoint and the tag counter as they are.
\<close>

lemma psm2_nccl_init_frame:
  "comms (snd (psm2_nccl_init P f s)) = comms s \<and>
   strs (snd (psm2_nccl_init P f s)) = strs s \<and>
   allocs (snd (psm2_nccl_init P f s)) = allocs s \<and>
   next_tag (snd (psm2_nccl_init P f s)) = next_tag s \<and>
   shared_ep (snd (psm2_nccl_init P f s)) = shared_ep s"
proof -
  obtain lrc s1 where "psm2_nccl_init_logging P f s = (lrc, s1)" by fastforce
  then show ?thesis
    by (simp add: psm2_nccl_init_def Let_def frame_simps split: option.split)
qed

section \<open>Which strings a flag variable accepts\<close>

definition digits_value :: "nat \<Rightarrow> nat \<Rightarrow> string \<Rightarrow> nat" where
  "digits_value b acc ds = foldl (\<lambda>a c. a * b + the (digit_of b c)) acc ds"

lemma scan_digits_all:
  "snd (scan_digits b acc s) = [] \<longleftrightarrow> (\<forall>c \<in> set s. digit_of b c \<noteq> None)"
  by (induction b acc s rule: scan_digits.induct) (auto split: option.splits)

lemma scan_digits_value:
  "\<forall>c \<in> set s. digit_of b c \<noteq> None \<Longrightarrow> scan_digits b acc s = (digits_value b acc s, [])"
  by (induction b acc s rule: scan_digits.induct) (auto simp: digits_value_def)

text \<open>
  The digits of a string that \<open>strtoul\<close> reads to its end, and the value it returns
  for them.
\<close>

definition strtoul_value :: "bool \<Rightarrow> nat \<Rightarrow> 64 word" where
  "strtoul_value neg n =
     (if ULONG_MAX < n then of_nat ULONG_MAX else if neg then - of_nat n else of_nat n)"

lemma strtoul_complete:
  "strtoul b v = (val, []) \<longleftrightarrow>
     (v = [] \<and> val = 0) \<or>
     (\<exists>neg ds. scan_sign (dropWhile isspace v) = (neg, ds) \<and> ds \<noteq> [] \<and>
        (\<forall>c \<in> set ds. digit_of b c \<noteq> None) \<and>
        val = strtoul_value neg (digits_value b 0 ds))"
proof -
  obtain neg ds where sg: "scan_sign (dropWhile isspace v) = (neg, ds)" by fastforce
  have value_eq: "scan_digits b 0 ds = (digits_value b 0 ds, [])"
    if "\<forall>c \<in> set ds. digit_of b c \<noteq> None"
    using that by (rule scan_digits_value)
  show ?thesis
  proof (cases "starts_with_digit b ds")
    case True
    then have "ds \<noteq> []" and "v \<noteq> []" using sg by (auto simp: starts_with_digit_def)
    obtain n rest where sc: "scan_digits b 0 ds = (n, rest)" by fastforce
    then have "strtoul b v = (strtoul_value neg n, rest)"
      using True sg by (simp add: strtoul_def strtoul_value_def)
    moreover have "rest = [] \<longleftrightarrow> (\<forall>c \<in> set ds. digit_of b c \<noteq> None)"
      using scan_digits_all [of b 0 ds] sc by simp
    ultimately show ?thesis
      using sg sc value_eq \<open>ds \<noteq> []\<close> \<open>v \<noteq> []\<close> by auto
  next
    case False
    then have "strtoul b v = (0, v)" using sg by (simp add: strtoul_def)
    moreover have "\<not> (ds \<noteq> [] \<and> (\<forall>c \<in> set ds. digit_of b c \<noteq> None))"
      using False by (auto simp: starts_with_digit_def split: list.splits)
    ultimately show ?thesis using sg by auto
  qed
qed

lemma digit_of_binary: "(\<exists>d. digit_of 2 c = Some d) \<longleftrightarrow> c = CHR ''0'' \<or> c = CHR ''1''"
proof -
  have "(\<exists>d. digit_of 2 c = Some d) \<longleftrightarrow> code_of c = 48 \<or> code_of c = 49"
    by (auto simp: digit_of_def Let_def)
  also have "code_of c = 48 \<longleftrightarrow> c = CHR ''0''"
    using of_char_eq_iff [of c "CHR ''0''", where 'a = nat] by (simp add: code_of_def)
  also have "code_of c = 49 \<longleftrightarrow> c = CHR ''1''"
    using of_char_eq_iff [of c "CHR ''1''", where 'a = nat] by (simp add: code_of_def)
  finally show ?thesis .
qed

text \<open>
  C37: a flag variable is accepted exactly when it is empty (and then means 0), or consists
  of white space, an optional sign and binary digits whose value is 0 or 1.
\<close>

lemma env_bit_accepts:
  "env_bit v = Some b \<longleftrightarrow>
     (v = [] \<and> b = 0) \<or>
     (\<exists>neg ds. scan_sign (dropWhile isspace v) = (neg, ds) \<and> ds \<noteq> [] \<and>
        set ds \<subseteq> {CHR ''0'', CHR ''1''} \<and>
        b = uint (strtoul_value neg (digits_value 2 0 ds)) \<and> is_bit b)"
  (is "_ \<longleftrightarrow> ?R")
proof -
  have le1: "\<not> 1 < val \<longleftrightarrow> is_bit (uint val)" for val :: "64 word"
  proof -
    have "0 \<le> uint val" by simp
    then have "\<not> 1 < uint val \<longleftrightarrow> uint val = 0 \<or> uint val = 1" by linarith
    then show ?thesis by (simp add: word_less_def is_bit_def)
  qed
  have "env_bit v = Some b \<longleftrightarrow>
      (\<exists>val. strtoul 2 v = (val, []) \<and> is_bit (uint val) \<and> b = uint val)"
    using le1 by (auto simp: env_bit_def split: prod.splits)
  also have "\<dots> \<longleftrightarrow> ?R"
    by (auto simp: strtoul_complete digit_of_binary subset_iff is_bit_def)
  finally show ?thesis .
qed

section \<open>The policy variable\<close>

definition abbreviates :: "string \<Rightarrow> string \<Rightarrow> bool" where
  "abbreviates v word \<longleftrightarrow>
     length v \<le> length word \<and> map tolower v = map tolower (take (length v) word)"

text \<open>
  C38: the policy variable is matched as a prefix, in any letter case: it selects the error
  policy when it abbreviates "error" (the empty string included), the warn policy when it
  is a non-empty abbreviation of "warn", and is refused otherwise.
\<close>

theorem multi_policy_abbreviation:
  assumes "NUL \<notin> set v"
  shows "multi_policy v =
    (if abbreviates v ''error'' then Some SHARED_EP_MULTI_ERROR
     else if abbreviates v ''warn'' then Some SHARED_EP_MULTI_WARN
     else None)"
  using assms by (simp add: multi_policy_def abbreviates_def strncasecmp_prefix NUL_def)

theorem multi_policy_abbreviation_witness:
  "multi_policy ''Wa'' = Some SHARED_EP_MULTI_WARN \<and>
   multi_policy '''' = Some SHARED_EP_MULTI_ERROR"
  using multi_policy_abbreviation [of "''Wa''"] multi_policy_abbreviation [of "''''"]
  by (simp add: abbreviates_def NUL_def tolower_def code_of_def)

section \<open>Initialising again\<close>

lemma init_logging_again:
  assumes "psm2_nccl_init_logging P f s = (0, s1)"
    and "plugin_logLevel u = plugin_logLevel s1" and "pluginLogFunction u = f"
    and "\<And>n. getenv P n (world u) = getenv P n (world s)"
  shows "psm2_nccl_init_logging P f u = (0, u)"
  using assms
  by (auto simp: psm2_nccl_init_logging_def Let_def split: option.splits prod.splits if_splits)

text \<open>What a successful initialisation stores.\<close>

lemma init_finish_result:
  assumes "init_finish P c g (s\<lparr>use_gpudirect := d\<rparr>) = (ncclSuccess, s1)"
  shows "\<exists>w. s1 = s\<lparr>use_gpudirect := (if c = 0 \<or> g = 0 then 0 else d), world := w\<rparr>"
  using assms by (auto simp: init_finish_def Let_def split: prod.splits if_splits)

lemma init_gpudirect_result:
  assumes "init_gpudirect P s = (ncclSuccess, s1)"
  obtains gdr c g w where "read_flag P ''PSM2_NCCL_USE_GPUDIRECT'' (use_gpudirect s) (world s) = Some gdr"
    and "read_flag P ''PSM2_CUDA'' 0 (world s) = Some c"
    and "read_flag P ''PSM2_GPUDIRECT'' 0 (world s) = Some g"
    and "s1 = s\<lparr>use_gpudirect := (if c = 0 \<or> g = 0 then 0 else gdr), world := w\<rparr>"
  using assms
  by (auto simp: init_gpudirect_def Let_def dest!: init_finish_result split: option.splits)

lemma init_result:
  assumes "psm2_nccl_init P f s = (ncclSuccess, s1)"
  obtains sl dev shep pol where "psm2_nccl_init_logging P f s = (0, sl)"
    and "read_flag P ''PSM2_NCCL_USE_NCCL_DEV'' (use_nccl_dev_num s) (world s) = Some dev"
    and "read_flag P ''PSM2_NCCL_SHARED_EP'' (use_shared_ep s) (world s) = Some shep"
    and "read_multi_policy P (shared_ep_multi_policy s) (world s) = Some pol"
    and "init_gpudirect P (sl\<lparr>jobkey := replicate 16 0, use_nccl_dev_num := dev, use_shared_ep := shep,
      shared_ep_multi_policy := pol\<rparr>) = (ncclSuccess, s1)"
proof -
  obtain lrc sl where l: "psm2_nccl_init_logging P f s = (lrc, sl)" by fastforce
  have "0 \<le> lrc" using assms l by (auto simp: psm2_nccl_init_def split: if_splits)
  then have z: "lrc = 0" using init_logging_0 [OF l] by simp
  have sl: "sl = s\<lparr>plugin_logLevel := plugin_logLevel sl, pluginLogFunction := pluginLogFunction sl\<rparr>"
    by (rule init_logging_frame [OF l])
  have fr: "use_nccl_dev_num sl = use_nccl_dev_num s" "use_shared_ep sl = use_shared_ep s"
    "shared_ep_multi_policy sl = shared_ep_multi_policy s" "world sl = world s"
    by (subst sl, simp)+
  show thesis
    using assms l z fr that by (auto simp: psm2_nccl_init_def Let_def split: option.splits)
qed

text \<open>A setting that has been read is the same when it is read again, also as its own default.\<close>

lemma read_flag_again:
  "read_flag P n d w = Some v \<Longrightarrow> getenv P n w' = getenv P n w \<Longrightarrow> read_flag P n v w' = Some v"
  "read_flag P n d w = Some v \<Longrightarrow> getenv P n w' = getenv P n w \<Longrightarrow> read_flag P n d w' = Some v"
  by (auto simp: read_flag_def split: option.splits)

lemma read_multi_policy_again:
  "read_multi_policy P d w = Some v \<Longrightarrow>
     getenv P ''PSM2_NCCL_SHARED_EP_MULTI'' w' = getenv P ''PSM2_NCCL_SHARED_EP_MULTI'' w \<Longrightarrow>
     read_multi_policy P v w' = Some v"
  by (auto simp: read_multi_policy_def split: option.splits)

text \<open>The variables that initialisation sets.\<close>

definition same_conf :: "'w plugin \<Rightarrow> 'w plugin \<Rightarrow> bool" where
  "same_conf s s' \<longleftrightarrow>
     use_shared_ep s' = use_shared_ep s \<and> use_nccl_dev_num s' = use_nccl_dev_num s \<and>
     shared_ep_multi_policy s' = shared_ep_multi_policy s \<and> use_gpudirect s' = use_gpudirect s \<and>
     jobkey s' = jobkey s \<and> plugin_logLevel s' = plugin_logLevel s \<and>
     pluginLogFunction s' = pluginLogFunction s"

lemma same_conf_refl [simp]: "same_conf s s" "same_conf s (s\<lparr>world := w\<rparr>)"
  by (simp_all add: same_conf_def)

lemma same_conf_sym: "same_conf s s' \<Longrightarrow> same_conf s' s"
  by (simp add: same_conf_def)

lemma same_conf_trans: "same_conf s s1 \<Longrightarrow> same_conf s1 s2 \<Longrightarrow> same_conf s s2"
  by (simp add: same_conf_def)

definition code_of_rc :: "'w platform \<Rightarrow> int \<Rightarrow> ncclResult" where
  "code_of_rc P rc = (if rc = PSM2_OK P then ncclSuccess else ncclInternalError)"

lemma init_gpudirect_again:
  assumes "init_gpudirect P s = (ncclSuccess, s1)" and "use_gpudirect u = use_gpudirect s1"
    and "\<And>n. getenv P n (world u) = getenv P n (world s)"
    and "psm2_init P (PSM2_VERNO_MAJOR P) (PSM2_VERNO_MINOR P) (world u) = (rc, w)"
  shows "init_gpudirect P u = (code_of_rc P rc, u\<lparr>world := w\<rparr>)"
proof -
  from assms(1) obtain gdr c g w1
    where gdr: "read_flag P ''PSM2_NCCL_USE_GPUDIRECT'' (use_gpudirect s) (world s) = Some gdr"
      and c: "read_flag P ''PSM2_CUDA'' 0 (world s) = Some c"
      and g: "read_flag P ''PSM2_GPUDIRECT'' 0 (world s) = Some g"
      and s1: "s1 = s\<lparr>use_gpudirect := (if c = 0 \<or> g = 0 then 0 else gdr), world := w1\<rparr>"
    by (rule init_gpudirect_result)
  have c1: "read_flag P ''PSM2_CUDA'' 0 (world u) = Some c"
    and g1: "read_flag P ''PSM2_GPUDIRECT'' 0 (world u) = Some g"
    using read_flag_again(2) [OF c assms(3)] read_flag_again(2) [OF g assms(3)] .
  obtain gdr1 where "read_flag P ''PSM2_NCCL_USE_GPUDIRECT'' (use_gpudirect u) (world u) = Some gdr1"
    and u: "(if c = 0 \<or> g = 0 then 0 else gdr1) = use_gpudirect u"
    using gdr assms(3) [of "''PSM2_NCCL_USE_GPUDIRECT''"] s1 assms(2)
    by (cases "getenv P ''PSM2_NCCL_USE_GPUDIRECT'' (world s)")
      (auto simp: read_flag_def split: if_splits)
  then have "init_gpudirect P u = init_finish P c g (u\<lparr>use_gpudirect := gdr1\<rparr>)"
    using c1 g1 by (simp add: init_gpudirect_def Let_def)
  also have "\<dots> = (code_of_rc P rc, u\<lparr>world := w\<rparr>)"
    using assms(4) u by (auto simp: init_finish_def code_of_rc_def Let_def split: if_splits)
  finally show ?thesis .
qed

lemma init_again:
  assumes "psm2_nccl_init P f s = (ncclSuccess, s1)" and "same_conf s1 u"
    and "\<And>n. getenv P n (world u) = getenv P n (world s)"
    and "psm2_init P (PSM2_VERNO_MAJOR P) (PSM2_VERNO_MINOR P) (world u) = (rc, w)"
  shows "psm2_nccl_init P f u = (code_of_rc P rc, u\<lparr>world := w\<rparr>)"
proof -
  from assms(1) obtain sl dev shep pol where l: "psm2_nccl_init_logging P f s = (0, sl)"
    and dev: "read_flag P ''PSM2_NCCL_USE_NCCL_DEV'' (use_nccl_dev_num s) (world s) = Some dev"
    and shep: "read_flag P ''PSM2_NCCL_SHARED_EP'' (use_shared_ep s) (world s) = Some shep"
    and pol: "read_multi_policy P (shared_ep_multi_policy s) (world s) = Some pol"
    and g: "init_gpudirect P (sl\<lparr>jobkey := replicate 16 0, use_nccl_dev_num := dev,
      use_shared_ep := shep, shared_ep_multi_policy := pol\<rparr>) = (ncclSuccess, s1)"
      (is "init_gpudirect P ?s4 = _")
    by (rule init_result)
  have w: "world ?s4 = world s" using init_logging_world [OF l] by simp
  obtain gd w1 where s1: "s1 = ?s4\<lparr>use_gpudirect := gd, world := w1\<rparr>"
    using g by (rule init_gpudirect_result)
  have u: "use_nccl_dev_num u = dev" "use_shared_ep u = shep" "shared_ep_multi_policy u = pol"
    "jobkey u = replicate 16 0" "use_gpudirect u = use_gpudirect s1"
    "plugin_logLevel u = plugin_logLevel sl" "pluginLogFunction u = f"
    using assms(2) init_logging_0 [OF l] unfolding s1 by (simp_all add: same_conf_def)
  have l1: "psm2_nccl_init_logging P f u = (0, u)"
    by (rule init_logging_again [OF l u(6,7) assms(3)])
  have same: "u\<lparr>jobkey := replicate 16 0, use_nccl_dev_num := dev, use_shared_ep := shep,
      shared_ep_multi_policy := pol\<rparr> = u"
    using u by simp
  have "read_flag P ''PSM2_NCCL_USE_NCCL_DEV'' (use_nccl_dev_num u) (world u) = Some dev"
    and "read_flag P ''PSM2_NCCL_SHARED_EP'' (use_shared_ep u) (world u) = Some shep"
    and "read_multi_policy P (shared_ep_multi_policy u) (world u) = Some pol"
    using read_flag_again(1) [OF dev assms(3)] read_flag_again(1) [OF shep assms(3)]
      read_multi_policy_again [OF pol assms(3)] u by simp_all
  moreover have "init_gpudirect P u = (code_of_rc P rc, u\<lparr>world := w\<rparr>)"
    using init_gpudirect_again [OF g u(5) _ assms(4)] assms(3) w by simp
  ultimately show ?thesis
    using l1 same by (simp add: psm2_nccl_init_def Let_def)
qed

text \<open>
  C32: initialising again changes nothing. NCCL may initialise the plugin more than once; in the
  same environment a further initialisation, in any state with the configuration that the
  first one set and whatever communicators are open, leaves every variable of the plugin as it
  is, and its result is decided by \<open>psm2_init\<close> alone.
\<close>

theorem psm2_nccl_init_again:
  assumes "psm2_nccl_init P f s = (ncclSuccess, s1)" and "same_conf s1 u"
    and "\<And>n. getenv P n (world u) = getenv P n (world s)"
    and "psm2_init P (PSM2_VERNO_MAJOR P) (PSM2_VERNO_MINOR P) (world u) = (rc, w)"
  shows "psm2_nccl_init P f u =
    (if rc = PSM2_OK P then ncclSuccess else ncclInternalError, u\<lparr>world := w\<rparr>)"
  using init_again [OF assms] by (simp add: code_of_rc_def)

theorem psm2_nccl_init_again_witness:
  "\<exists>s1. psm2_nccl_init sim_platform 7 (initial_plugin gdr_sim) = (ncclSuccess, s1) \<and>
     psm2_nccl_init sim_platform 7 (s1\<lparr>next_tag := 5\<rparr>) = (ncclSuccess, s1\<lparr>next_tag := 5\<rparr>)"
proof -
  let ?s1 = "(initial_plugin gdr_sim)\<lparr>pluginLogFunction := 7\<rparr>"
  let ?u = "?s1\<lparr>next_tag := 5\<rparr>"
  have w: "world ?u = gdr_sim" "world (initial_plugin gdr_sim) = gdr_sim"
    by (simp_all add: initial_plugin_def)
  have "same_conf ?s1 ?u" by (simp add: same_conf_def)
  from psm2_nccl_init_again [OF gdr_sim_init this, of 0 gdr_sim] w
  have "psm2_nccl_init sim_platform 7 ?u = (ncclSuccess, ?u\<lparr>world := gdr_sim\<rparr>)" by simp
  moreover have "?u\<lparr>world := gdr_sim\<rparr> = ?u" by (simp add: initial_plugin_def)
  ultimately show ?thesis using gdr_sim_init by auto
qed

end
