(* ===== verification/Hfi_Sysclass.thy ===== *)
theory Hfi_Sysclass
  imports Psm2_Contract
begin

text \<open>
  \<open>hfi_sysclass.c\<close>: reading the attributes of an HFI from
  \<open>/sys/class/infiniband/hfi1_<dev>\<close>, and the conversion of its GUID
  (\<open>guid_str_to_u64\<close> in \<open>psm2_nccl_api.c\<close>). A buffer filled by a call is returned as
  the list of the bytes stored in it; what an error leaves in it is not specified.
\<close>

definition UEVENT_MAX :: nat where
  "UEVENT_MAX = 256"

definition hfi_sysclass_path :: "int \<Rightarrow> string" where
  "hfi_sysclass_path dev = ''/sys/class/infiniband/hfi1_'' @ show_int dev"

section \<open>hfi_sysclass_rd\<close>

definition hfi_sysclass_rd ::
  "'w platform \<Rightarrow> int \<Rightarrow> string \<Rightarrow> nat \<Rightarrow> 'w \<Rightarrow> int \<times> char list \<times> 'w" where
  "hfi_sysclass_rd P dev attr len w =
     (let path = hfi_sysclass_path dev @ ''/'' @ attr in
      if PATH_MAX \<le> length path then (-1, [], w)
      else case os_open P path w of (fd, w1) \<Rightarrow>
        if fd < 0 then (-2, [], w1)
        else case os_read P fd len w1 of (rdct, bs, w2) \<Rightarrow>
          if rdct < 0 \<or> int len \<le> rdct then (-3, bs, os_close P fd w2)
          else (rdct, take (nat rdct) bs @ [NUL], os_close P fd w2))"

section \<open>hfi_sysclass_get_devname\<close>

text \<open>The result code, the value of \<open>*name\<close> and the new state.\<close>

definition hfi_sysclass_get_devname ::
  "'w platform \<Rightarrow> int \<Rightarrow> 'w plugin \<Rightarrow> (int \<times> addr \<times> 'w plugin) outcome" where
  "hfi_sysclass_get_devname P dev s =
     (case hfi_sysclass_rd P dev ''uevent'' UEVENT_MAX (world s) of (rc, tmpname, w1) \<Rightarrow>
        let s1 = s\<lparr>world := w1\<rparr> in
        if rc < 0 then Ret (-1, 0, s1)
        else
          let newlen = strnlen tmpname UEVENT_MAX in
          if newlen < 5 \<or> strncmp (c_str tmpname) ''NAME='' 5 \<noteq> 0 then Ret (-2, 0, s1)
          else case malloc_str P (newlen + 1) s1 of (name, s2) \<Rightarrow>
            if name = 0 then Ret (-3, 0, s2)
            else obind (store_str name (strncpy (drop 5 tmpname) newlen) s2)
              (\<lambda>s3. Ret (1, name, s3)))"

section \<open>hfi_sysclass_get_pciPath\<close>

definition hfi_sysclass_get_pciPath ::
  "'w platform \<Rightarrow> int \<Rightarrow> 'w plugin \<Rightarrow> (int \<times> addr \<times> 'w plugin) outcome" where
  "hfi_sysclass_get_pciPath P dev s =
     (let devpath = hfi_sysclass_path dev @ ''/device'' in
      if PATH_MAX \<le> length devpath then Ret (-1, 0, s)
      else case os_lstat P devpath (world s) of (lrc, w1) \<Rightarrow>
        if lrc = -1 then Ret (-2, 0, s\<lparr>world := w1\<rparr>)
        else case malloc_str P PATH_MAX (s\<lparr>world := w1\<rparr>) of (path, s2) \<Rightarrow>
          if path = 0 then Ret (-3, 0, s2)
          else case os_realpath P devpath (world s2) of (resolved, w3) \<Rightarrow>
            let s3 = s2\<lparr>world := w3\<rparr> in
            case resolved of
              None \<Rightarrow> obind (free_str path s3) (\<lambda>s4. Ret (-4, 0, s4))
            | Some r \<Rightarrow> obind (store_str path (r @ [NUL]) s3) (\<lambda>s4. Ret (1, path, s4)))"

section \<open>guid_str_to_u64\<close>

text \<open>
  \<open>sscanf(guid, "%hx:%hx:%hx:%hx", ...)\<close> has to match four words. The result is the
  GUID, or \<open>None\<close> when the C function returns 1.
\<close>

definition guid_str_to_u64 :: "string \<Rightarrow> 64 word option" where
  "guid_str_to_u64 guid =
     Option.bind (scan_hx guid) (\<lambda>(g0, r0).
     Option.bind (scan_lit CHR '':'' r0) (\<lambda>r1.
     Option.bind (scan_hx r1) (\<lambda>(g1, r2).
     Option.bind (scan_lit CHR '':'' r2) (\<lambda>r3.
     Option.bind (scan_hx r3) (\<lambda>(g2, r4).
     Option.bind (scan_lit CHR '':'' r4) (\<lambda>r5.
     Option.bind (scan_hx r5) (\<lambda>(g3, r6).
       Some (or (push_bit 48 (ucast g0)) (or (push_bit 32 (ucast g1))
         (or (push_bit 16 (ucast g2)) (ucast g3)))))))))))"

section \<open>Results of the readers\<close>

text \<open>The documented result of \<open>read\<close>: at most \<open>len\<close> bytes, or a negative number.\<close>

definition read_contract :: "'w platform \<Rightarrow> bool" where
  "read_contract P \<longleftrightarrow>
     (\<forall>fd len w n bs w'. os_read P fd len w = (n, bs, w') \<longrightarrow>
        n < 0 \<or> n = int (length bs) \<and> length bs \<le> len)"

text \<open>
  What descriptors are open, and what the calls do to them: \<open>open\<close> gives a new one or fails,
  \<open>read\<close> opens and closes none, \<open>close\<close> closes the one it is given.
\<close>

definition fd_contract :: "'w platform \<Rightarrow> ('w \<Rightarrow> int set) \<Rightarrow> bool" where
  "fd_contract P fds \<longleftrightarrow>
     (\<forall>path w fd w'. os_open P path w = (fd, w') \<longrightarrow>
        (if fd < 0 then fds w' = fds w else fd \<notin> fds w \<and> fds w' = insert fd (fds w))) \<and>
     (\<forall>fd len w n bs w'. os_read P fd len w = (n, bs, w') \<longrightarrow> fds w' = fds w) \<and>
     (\<forall>fd w. fds (os_close P fd w) = fds w - {fd})"

text \<open>
  C35: reading an attribute. Whatever happens, no descriptor is left open. The result is -1, -2
  or -3, or a number of bytes that is less than the size of the buffer; then the buffer holds
  that many bytes and a NUL after them.
\<close>

theorem hfi_sysclass_rd_safe:
  assumes "read_contract P" and "fd_contract P fds"
    and "hfi_sysclass_rd P dev attr len w = (rc, out, w')"
  shows "fds w' = fds w \<and> (rc \<in> {-1, -2, -3} \<or>
    0 \<le> rc \<and> rc < int len \<and> length out = Suc (nat rc) \<and> length out \<le> len \<and> last out = NUL)"
proof -
  let ?path = "hfi_sysclass_path dev @ ''/'' @ attr"
  obtain fd w1 where o: "os_open P ?path w = (fd, w1)" by fastforce
  obtain n bs w2 where r: "os_read P fd len w1 = (n, bs, w2)" by (metis surj_pair)
  have f1: "if fd < 0 then fds w1 = fds w else fd \<notin> fds w \<and> fds w1 = insert fd (fds w)"
    and f2: "fds w2 = fds w1" and f3: "fds (os_close P fd w2) = fds w2 - {fd}"
    using assms(2) o r unfolding fd_contract_def by blast+
  have "n < 0 \<or> n = int (length bs) \<and> length bs \<le> len"
    using assms(1) r unfolding read_contract_def by blast
  then show ?thesis
    using assms(3) o r f1 f2 f3
    by (auto simp: hfi_sysclass_rd_def Let_def split: if_splits)
qed

definition sim_open_fds :: "sim \<Rightarrow> int set" where
  "sim_open_fds w = dom (sim_fds w)"

lemma sim_fd_contract: "fd_contract sim_platform sim_open_fds"
  by (auto simp: fd_contract_def sim_open_fds_def split: option.splits if_splits)

lemma sim_read_contract: "read_contract sim_platform"
  by (auto simp: read_contract_def split: option.splits)

theorem hfi_sysclass_rd_safe_witness:
  "sim_open_fds (snd (snd (hfi_sysclass_rd sim_platform 0 ''uevent'' UEVENT_MAX sim0))) =
     sim_open_fds sim0 \<and>
   fst (hfi_sysclass_rd sim_platform 0 ''uevent'' UEVENT_MAX sim0) < 256"
proof -
  obtain rc out w where r: "hfi_sysclass_rd sim_platform 0 ''uevent'' UEVENT_MAX sim0 = (rc, out, w)"
    by (metis surj_pair)
  from hfi_sysclass_rd_safe [OF sim_read_contract sim_fd_contract r] show ?thesis
    using r by (auto simp: UEVENT_MAX_def)
qed

section \<open>What the readers allocate\<close>

text \<open>
  A device attribute reader either fails with a negative code, a NULL result and the same
  string heap, or returns 1 and one new block that holds a NUL-terminated string.
\<close>

definition new_string :: "'w plugin \<Rightarrow> addr \<Rightarrow> 'w plugin \<Rightarrow> bool" where
  "new_string s p s' \<longleftrightarrow>
     p = Suc (allocs s) \<and> allocs s' = Suc (allocs s) \<and>
     (\<exists>b. strs s' = (strs s)(p \<mapsto> b) \<and> NUL \<in> set (block_bytes b) \<and>
        length (block_bytes b) \<le> block_size b)"

text \<open>\<open>realpath\<close> stores at most \<open>PATH_MAX\<close> bytes, the NUL included.\<close>

definition realpath_contract :: "'w platform \<Rightarrow> bool" where
  "realpath_contract P \<longleftrightarrow>
     (\<forall>path w r w'. os_realpath P path w = (Some r, w') \<longrightarrow> length r < PATH_MAX)"

lemma sim_realpath_contract: "realpath_contract sim_platform"
  by (auto simp: realpath_contract_def split: bind_splits if_splits)

text \<open>The heap grows by fresh addresses only.\<close>

definition heap_ok :: "'w plugin \<Rightarrow> bool" where
  "heap_ok s \<longleftrightarrow> (\<forall>a. allocs s < a \<or> a = 0 \<longrightarrow> strs s a = None \<and> comms s a = None)"

lemma heap_ok_fresh:
  "heap_ok s \<Longrightarrow> strs s (Suc (allocs s)) = None \<and> comms s (Suc (allocs s)) = None"
  by (simp add: heap_ok_def)

text \<open>The variables and communicators that string handling does not touch.\<close>

definition same_plugin :: "'w plugin \<Rightarrow> 'w plugin \<Rightarrow> bool" where
  "same_plugin s s' \<longleftrightarrow>
     use_shared_ep s' = use_shared_ep s \<and>
     shared_ep_multi_policy s' = shared_ep_multi_policy s \<and>
     use_gpudirect s' = use_gpudirect s \<and> use_gdr_dmabuf s' = use_gdr_dmabuf s \<and>
     use_nccl_dev_num s' = use_nccl_dev_num s \<and> next_tag s' = next_tag s \<and>
     jobkey s' = jobkey s \<and> shared_ep s' = shared_ep s \<and>
     plugin_logLevel s' = plugin_logLevel s \<and>
     pluginLogFunction s' = pluginLogFunction s \<and> comms s' = comms s"

lemma same_plugin_refl [simp]: "same_plugin s s"
  by (simp add: same_plugin_def)

text \<open>
  What a reader did, as one predicate: it is what both of them satisfy, and what
  \<open>psm2_nccl_getProperties\<close> needs to know about them.
\<close>

definition reader_result :: "'w plugin \<Rightarrow> int \<times> addr \<times> 'w plugin \<Rightarrow> bool" where
  "reader_result s = (\<lambda>(rc, p, s').
     same_plugin s s' \<and>
     (if rc = 1 then new_string s p s'
      else rc < 0 \<and> p = 0 \<and> strs s' = strs s \<and>
        (allocs s' = allocs s \<or> allocs s' = Suc (allocs s))))"

text \<open>
  The buffer of a successful read ends in NUL and fits, so the bounded length is the
  length of the string in it, and dropping a prefix of the buffer drops it from the string.
\<close>

lemma strnlen_terminated:
  assumes "NUL \<in> set (take n tmp)"
  shows "strnlen tmp n = length (c_str tmp)"
proof -
  obtain c where "c \<in> set (take n tmp)" and "\<not> c \<noteq> NUL"
    using assms by blast
  then have "takeWhile (\<lambda>c. c \<noteq> NUL) (take n tmp @ drop n tmp) = takeWhile (\<lambda>c. c \<noteq> NUL) (take n tmp)"
    by (rule takeWhile_append1)
  then show ?thesis by (simp add: strnlen_def c_str_def)
qed

lemma c_str_drop: "k \<le> length (c_str bs) \<Longrightarrow> c_str (drop k bs) = drop k (c_str bs)"
proof (induction k arbitrary: bs)
  case (Suc k)
  then show ?case by (cases bs) (auto simp: c_str_def split: if_splits)
qed simp

lemma hfi_sysclass_rd_out:
  assumes "hfi_sysclass_rd P dev attr len w = (rc, out, w')" and "0 \<le> rc"
  shows "NUL \<in> set (take len out)"
  using assms by (auto simp: hfi_sysclass_rd_def Let_def split: prod.splits if_splits)

lemma strncpy_tail:
  assumes "5 \<le> length (c_str tmp)"
  shows "c_str (strncpy (drop 5 tmp) (length (c_str tmp))) = drop 5 (c_str tmp)"
    and "NUL \<in> set (strncpy (drop 5 tmp) (length (c_str tmp)))"
proof -
  have d: "c_str (drop 5 tmp) = drop 5 (c_str tmp)" using assms by (rule c_str_drop)
  then have l: "length (c_str (drop 5 tmp)) < length (c_str tmp)" using assms by simp
  then show "c_str (strncpy (drop 5 tmp) (length (c_str tmp))) = drop 5 (c_str tmp)"
    by (simp add: c_str_strncpy d)
  show "NUL \<in> set (strncpy (drop 5 tmp) (length (c_str tmp)))"
  proof (rule ccontr)
    assume "NUL \<notin> set (strncpy (drop 5 tmp) (length (c_str tmp)))"
    then have "c_str (strncpy (drop 5 tmp) (length (c_str tmp))) =
        strncpy (drop 5 tmp) (length (c_str tmp))" by simp
    then have "length (c_str (drop 5 tmp)) = length (c_str tmp)"
      using c_str_strncpy [OF l] strncpy_length by metis
    with l show False by simp
  qed
qed

text \<open>
  The device name is what follows \<open>NAME=\<close> in the attribute, up to its end: the later
  lines of the file, and the line break before them, are part of it.
\<close>

definition devname_spec :: "string \<Rightarrow> string option" where
  "devname_spec u = (if take 5 u = ''NAME='' then Some (drop 5 u) else None)"

lemma strncmp_NAME: "strncmp (c_str tmp) ''NAME='' 5 = 0 \<longleftrightarrow> take 5 (c_str tmp) = ''NAME=''"
  using strncmp_eq_0 [OF NUL_notin_c_str, of "''NAME=''" tmp 5] by (simp add: NUL_def)

lemma take_5_NAME: "take 5 u = ''NAME='' \<Longrightarrow> 5 \<le> length u"
  by (cases "5 \<le> length u") auto

lemma hfi_sysclass_get_devname_result:
  assumes "heap_ok s"
  shows "returns (hfi_sysclass_get_devname P dev s) (reader_result s)"
proof -
  obtain rc tmp w1 where rd: "hfi_sysclass_rd P dev ''uevent'' UEVENT_MAX (world s) = (rc, tmp, w1)"
    by (metis prod_cases3)
  have t: "strnlen tmp UEVENT_MAX = length (c_str tmp)" if "0 \<le> rc"
    using hfi_sysclass_rd_out [OF rd that] by (rule strnlen_terminated)
  show ?thesis
    using rd t strncpy_tail [of tmp] heap_ok_fresh [OF assms]
    by (auto simp: hfi_sysclass_get_devname_def malloc_str_def store_str_def Let_def
        reader_result_def same_plugin_def new_string_def)
qed

lemma hfi_sysclass_get_pciPath_result:
  assumes "heap_ok s" and "realpath_contract P"
  shows "returns (hfi_sysclass_get_pciPath P dev s) (reader_result s)"
proof -
  obtain lrc w1 where ls: "os_lstat P (hfi_sysclass_path dev @ ''/device'') (world s) = (lrc, w1)"
    by fastforce
  obtain r w3 where rp: "os_realpath P (hfi_sysclass_path dev @ ''/device'') w1 = (r, w3)"
    by fastforce
  have "r = Some p \<Longrightarrow> length p < PATH_MAX" for p
    using assms(2) rp unfolding realpath_contract_def by blast
  then show ?thesis
    using ls rp heap_ok_fresh [OF assms(1)]
    by (auto simp: hfi_sysclass_get_pciPath_def malloc_str_def store_str_def free_str_def
        Let_def reader_result_def same_plugin_def new_string_def fun_upd_idem Suc_le_eq
        split: option.splits)
qed

lemma strncpy_exact:
  assumes "5 \<le> length (c_str tmp)"
  shows "strncpy (drop 5 tmp) (length (c_str tmp)) = drop 5 (c_str tmp) @ replicate 5 NUL"
proof -
  have l: "length (c_str tmp) - (length (c_str tmp) - 5) = 5" and m: "min (length (c_str tmp)) 5 = 5"
    using assms by simp_all
  show ?thesis
    unfolding strncpy_def c_str_drop [OF assms] by (simp add: take_append take_replicate min.commute l m)
qed

lemma devname_spec_no_NUL: "devname_spec (c_str tmp) = Some name \<Longrightarrow> NUL \<notin> set name"
  using NUL_notin_c_str [of tmp] in_set_dropD [of NUL 5 "c_str tmp"]
  by (auto simp: devname_spec_def split: if_splits)

text \<open>Every outcome of reading the name, with the block that it is stored in, byte by byte.\<close>

lemma get_devname_eval:
  assumes "hfi_sysclass_rd P dev ''uevent'' UEVENT_MAX (world s) = (rc, tmp, w1)"
  shows "hfi_sysclass_get_devname P dev s = Ret
    (if rc < 0 then (-1, 0, s\<lparr>world := w1\<rparr>)
     else case devname_spec (c_str tmp) of
         None \<Rightarrow> (-2, 0, s\<lparr>world := w1\<rparr>)
       | Some name \<Rightarrow>
           if \<not> alloc_ok P (allocs s) then (-3, 0, s\<lparr>world := w1, allocs := Suc (allocs s)\<rparr>)
           else (1, Suc (allocs s), s\<lparr>world := w1, allocs := Suc (allocs s), strs := (strs s)
             (Suc (allocs s) \<mapsto> \<lparr>block_size = length name + 6, block_bytes = name @ replicate 5 NUL\<rparr>)\<rparr>))"
proof (cases "rc < 0")
  case True
  then show ?thesis using assms by (simp add: hfi_sysclass_get_devname_def)
next
  case False
  then have "strnlen tmp UEVENT_MAX = length (c_str tmp)"
    using hfi_sysclass_rd_out [OF assms] strnlen_terminated by simp
  then show ?thesis
    using assms False strncpy_exact [of tmp] take_5_NAME [of "c_str tmp"]
    by (auto simp: hfi_sysclass_get_devname_def malloc_str_def store_str_def Let_def
        devname_spec_def strncmp_NAME)
qed

text \<open>
  C34: reading the name of a device, on every path. It is -1 if the attribute cannot be read, -2
  if the attribute does not begin with \<open>NAME=\<close>, and -3 without memory, with NULL and nothing allocated. Otherwise
  the result is a new block with what follows \<open>NAME=\<close>, copied whole, without a NUL inside and
  with five NULs after it, in a buffer with room for one byte more.
\<close>

theorem hfi_sysclass_get_devname_content:
  assumes "hfi_sysclass_rd P dev ''uevent'' UEVENT_MAX (world s) = (rc, tmp, w1)"
  shows "hfi_sysclass_get_devname P dev s = Ret
    (if rc < 0 then (-1, 0, s\<lparr>world := w1\<rparr>)
     else case devname_spec (c_str tmp) of
         None \<Rightarrow> (-2, 0, s\<lparr>world := w1\<rparr>)
       | Some name \<Rightarrow>
           if \<not> alloc_ok P (allocs s) then (-3, 0, s\<lparr>world := w1, allocs := Suc (allocs s)\<rparr>)
           else (1, Suc (allocs s), s\<lparr>world := w1, allocs := Suc (allocs s), strs := (strs s)
             (Suc (allocs s) \<mapsto> \<lparr>block_size = length name + 6, block_bytes = name @ replicate 5 NUL\<rparr>)\<rparr>)) \<and>
    (\<forall>name. devname_spec (c_str tmp) = Some name \<longrightarrow> NUL \<notin> set name)"
  using get_devname_eval [OF assms] devname_spec_no_NUL by blast

definition dev_sim :: sim where
  "dev_sim = sim0\<lparr>
     sim_files := [''/sys/class/infiniband/hfi1_0/uevent'' \<mapsto> ''NAME=hfi1_0'',
       ''/sys/class/infiniband/hfi1_0/node_guid'' \<mapsto> ''0011:7501:0101:2b4f''],
     sim_links := [''/sys/class/infiniband/hfi1_0/device'' \<mapsto> ''/sys/devices/pci0'']\<rparr>"

lemma show_int_0: "show_int 0 = ''0''"
proof -
  have "of_char (char_of (48 :: nat)) = (of_char CHR ''0'' :: nat)" by simp
  then have "char_of (48 :: nat) = CHR ''0''" by (simp only: of_char_eq_iff)
  then show ?thesis by (simp add: show_int_def show_nat.simps)
qed

lemma dev_sim_uevent:
  "hfi_sysclass_rd sim_platform 0 ''uevent'' UEVENT_MAX dev_sim =
     (11, ''NAME=hfi1_0'' @ [NUL], dev_sim\<lparr>sim_next := 2, sim_fds := (sim_fds dev_sim)(1 := None)\<rparr>)"
  by (simp add: hfi_sysclass_rd_def hfi_sysclass_path_def show_int_0 dev_sim_def sim0_def
      PATH_MAX_def UEVENT_MAX_def Let_def)

theorem hfi_sysclass_get_devname_content_witness:
  "\<exists>s'. hfi_sysclass_get_devname sim_platform 0 (initial_plugin dev_sim) = Ret (1, 1, s') \<and>
     strs s' 1 = Some \<lparr>block_size = 12, block_bytes = ''hfi1_0'' @ replicate 5 NUL\<rparr>"
  using hfi_sysclass_get_devname_content [of sim_platform 0 "initial_plugin dev_sim"]
  by (simp add: initial_plugin_def dev_sim_uevent devname_spec_def c_str_def NUL_def)

text \<open>Every outcome of resolving the path.\<close>

lemma get_pciPath_eval:
  assumes "heap_ok s" and "- (2 ^ 31) \<le> dev" and "dev < 2 ^ 31"
    and "os_lstat P (hfi_sysclass_path dev @ ''/device'') (world s) = (lrc, w1)"
    and "os_realpath P (hfi_sysclass_path dev @ ''/device'') w1 = (resolved, w2)"
    and "\<forall>r. resolved = Some r \<longrightarrow> length r < PATH_MAX"
  shows "hfi_sysclass_get_pciPath P dev s = Ret
    (if lrc = -1 then (-2, 0, s\<lparr>world := w1\<rparr>)
     else if \<not> alloc_ok P (allocs s) then (-3, 0, s\<lparr>world := w1, allocs := Suc (allocs s)\<rparr>)
     else case resolved of
         None \<Rightarrow> (-4, 0, s\<lparr>world := w2, allocs := Suc (allocs s)\<rparr>)
       | Some r \<Rightarrow> (1, Suc (allocs s), s\<lparr>world := w2, allocs := Suc (allocs s),
           strs := (strs s)(Suc (allocs s) \<mapsto> \<lparr>block_size = PATH_MAX, block_bytes = r @ [NUL]\<rparr>)\<rparr>))"
proof -
  have "length (hfi_sysclass_path dev @ ''/device'') < PATH_MAX"
    using length_show_int [OF assms(2,3)] by (simp add: hfi_sysclass_path_def PATH_MAX_def)
  then show ?thesis
    using assms(4-6) heap_ok_fresh [OF assms(1)]
    by (auto simp: hfi_sysclass_get_pciPath_def malloc_str_def store_str_def free_str_def Let_def
        fun_upd_idem Suc_le_eq split: option.split)
qed

text \<open>
  C36: resolving the path of a device. For every \<open>int\<close> the path fits its buffer; the call fails
  with -2 if the device does not exist, with -3 without memory, with -4 and nothing left
  allocated if the path cannot be resolved, and otherwise returns a new block of
  \<open>PATH_MAX\<close> bytes with the resolved path, terminated.
\<close>

theorem hfi_sysclass_get_pciPath_content:
  assumes "heap_ok s" and "- (2 ^ 31) \<le> dev" and "dev < 2 ^ 31"
    and "os_lstat P (hfi_sysclass_path dev @ ''/device'') (world s) = (lrc, w1)"
    and "os_realpath P (hfi_sysclass_path dev @ ''/device'') w1 = (resolved, w2)"
    and "\<forall>r. resolved = Some r \<longrightarrow> length r < PATH_MAX"
  shows "hfi_sysclass_get_pciPath P dev s = Ret
    (if lrc = -1 then (-2, 0, s\<lparr>world := w1\<rparr>)
     else if \<not> alloc_ok P (allocs s) then (-3, 0, s\<lparr>world := w1, allocs := Suc (allocs s)\<rparr>)
     else case resolved of
         None \<Rightarrow> (-4, 0, s\<lparr>world := w2, allocs := Suc (allocs s)\<rparr>)
       | Some r \<Rightarrow> (1, Suc (allocs s), s\<lparr>world := w2, allocs := Suc (allocs s),
           strs := (strs s)(Suc (allocs s) \<mapsto> \<lparr>block_size = PATH_MAX, block_bytes = r @ [NUL]\<rparr>)\<rparr>))"
  using assms by (rule get_pciPath_eval)

theorem hfi_sysclass_get_pciPath_content_witness:
  "\<exists>s'. hfi_sysclass_get_pciPath sim_platform 0 (initial_plugin dev_sim) = Ret (1, 1, s') \<and>
     strs s' 1 = Some \<lparr>block_size = PATH_MAX, block_bytes = ''/sys/devices/pci0'' @ [NUL]\<rparr>"
proof -
  have p: "hfi_sysclass_path 0 @ ''/device'' = ''/sys/class/infiniband/hfi1_0/device''"
    by (simp add: hfi_sysclass_path_def show_int_0)
  have l: "sim_links dev_sim ''/sys/class/infiniband/hfi1_0/device'' = Some ''/sys/devices/pci0''"
    by (simp add: dev_sim_def)
  have "heap_ok (initial_plugin dev_sim)" by (simp add: heap_ok_def initial_plugin_def)
  from hfi_sysclass_get_pciPath_content [OF this, of 0 sim_platform 0 dev_sim
      "Some ''/sys/devices/pci0''" dev_sim]
  show ?thesis unfolding p using l by (simp add: PATH_MAX_def initial_plugin_def)
qed

section \<open>The GUID\<close>

definition hex_digit :: "nat \<Rightarrow> char" where
  "hex_digit n = char_of (if n < 10 then 48 + n else 87 + n)"

text \<open>The form of \<open>node_guid\<close>: four groups of four hexadecimal digits.\<close>

definition show_hex4 :: "16 word \<Rightarrow> string" where
  "show_hex4 w = (let n = unat w in
     [hex_digit (n div 4096), hex_digit (n div 256 mod 16), hex_digit (n div 16 mod 16),
      hex_digit (n mod 16)])"

definition show_guid :: "64 word \<Rightarrow> string" where
  "show_guid g =
     show_hex4 (ucast (drop_bit 48 g)) @ '':'' @ show_hex4 (ucast (drop_bit 32 g)) @ '':'' @
     show_hex4 (ucast (drop_bit 16 g)) @ '':'' @ show_hex4 (ucast g)"

lemma digit_of_hex: "n < 16 \<Longrightarrow> digit_of 16 (hex_digit n) = Some n"
  by (auto simp: hex_digit_def digit_of_def Let_def)

lemma scan_digits_stop: "\<not> starts_with_digit b rest \<Longrightarrow> scan_digits b acc rest = (acc, rest)"
  by (cases rest) (auto simp: starts_with_digit_def split: option.splits)

lemma skip_0x_digits:
  assumes "digit_of 16 c2 = Some d"
  shows "skip_0x (c1 # c2 # cs) = c1 # c2 # cs"
  using assms by (auto simp: skip_0x_def digit_of_def code_of_def Let_def)

lemma unat16_less: "unat (w :: 16 word) < 65536"
  using unsigned_less [of w] by simp

lemma hex_groups:
  "((n div 4096 * 16 + n div 256 mod 16) * 16 + n div 16 mod 16) * 16 + n mod 16 = (n :: nat)"
proof -
  have "n div 16 = n div 256 * 16 + n div 16 mod 16" and "n div 256 = n div 4096 * 16 + n div 256 mod 16"
    using div_mult_mod_eq [of "n div 16" 16] div_mult_mod_eq [of "n div 256" 16]
    by (simp_all flip: div_mult2_eq)
  then show ?thesis using div_mult_mod_eq [of n 16] by presburger
qed

lemma scan_hx_show_hex4:
  assumes "\<not> starts_with_digit 16 rest"
  shows "scan_hx (show_hex4 w @ rest) = Some (w, rest)"
proof -
  let ?n = "unat w"
  have d: "?n div 4096 < 16" "?n div 256 mod 16 < 16" "?n div 16 mod 16 < 16" "?n mod 16 < 16"
    using unat16_less [of w] by (simp_all add: less_mult_imp_div_less)
  have st: "starts_with_digit 16 (show_hex4 w @ rest)"
    using d by (simp add: show_hex4_def Let_def starts_with_digit_def digit_of_hex)
  have sk: "skip_0x (show_hex4 w @ rest) = show_hex4 w @ rest"
    using d by (simp add: show_hex4_def Let_def skip_0x_digits [OF digit_of_hex])
  have "scan_digits 16 0 (show_hex4 w @ rest) =
      (((?n div 4096 * 16 + ?n div 256 mod 16) * 16 + ?n div 16 mod 16) * 16 + ?n mod 16, rest)"
    using d assms by (simp add: show_hex4_def Let_def digit_of_hex scan_digits_stop)
  then have "scan_digits 16 0 (show_hex4 w @ rest) = (?n, rest)"
    by (simp only: hex_groups)
  moreover have "?n \<le> ULONG_MAX" using unat16_less [of w] by (simp add: ULONG_MAX_def)
  ultimately show ?thesis
    by (simp add: scan_hx_def skip_to_digit [OF st] sk st)
qed

lemma join_words:
  fixes g :: "64 word"
  shows "or (push_bit 48 (ucast (ucast (drop_bit 48 g) :: 16 word)))
     (or (push_bit 32 (ucast (ucast (drop_bit 32 g) :: 16 word)))
     (or (push_bit 16 (ucast (ucast (drop_bit 16 g) :: 16 word)))
         (ucast (ucast g :: 16 word)))) = g"
  (is "?joined = g")
proof (rule bit_word_eqI)
  fix n assume "n < LENGTH(64)"
  then consider "n < 16" | "16 \<le> n \<and> n < 32" | "32 \<le> n \<and> n < 48" | "48 \<le> n \<and> n < 64"
    by fastforce
  then show "bit ?joined n = bit g n"
    by cases (auto simp: bit_simps)
qed

lemma guid_str_to_u64_show_guid_aux:
  assumes "\<not> starts_with_digit 16 rest"
  shows "guid_str_to_u64 (show_guid g @ rest) = Some g"
proof -
  have colon: "\<not> starts_with_digit 16 (CHR '':'' # cs)" for cs
    by (simp add: starts_with_digit_def digit_of_def code_of_def)
  show ?thesis
    using assms colon
    by (simp add: guid_str_to_u64_def show_guid_def scan_hx_show_hex4 join_words)
qed

text \<open>
  C33: a GUID in the form the kernel prints it is read back exactly, whatever follows it in
  the file (a line break in practice), as long as that is not another digit.
\<close>

theorem guid_str_to_u64_show_guid:
  assumes "\<not> starts_with_digit 16 rest"
  shows "guid_str_to_u64 (show_guid g @ rest) = Some g"
  using assms by (rule guid_str_to_u64_show_guid_aux)

theorem guid_str_to_u64_show_guid_witness:
  "guid_str_to_u64 (show_guid 0x1175010101F2B4 @ ''
'') = Some 0x1175010101F2B4"
  by (rule guid_str_to_u64_show_guid) (simp add: starts_with_digit_def digit_of_def code_of_def)

end
