(* ===== verification/Device_Props.thy ===== *)
theory Device_Props
  imports Hfi_Sysclass Config
begin

text \<open>
  The queries on devices of \<open>psm2_nccl_api.c\<close>: their number, their path, the kinds of
  memory they support, and the property structures of each interface version.
\<close>

definition MAX_DEV :: int where
  "MAX_DEV = 3"

definition GUID_LEN :: nat where
  "GUID_LEN = 32"

section \<open>psm2_nccl_devices, psm2_nccl_pciPath_v2, psm2_nccl_ptrSupport_v2\<close>

text \<open>The value stored in \<open>*ndev\<close>, if any, is the second component.\<close>

definition psm2_nccl_devices :: "'w platform \<Rightarrow> 'w plugin \<Rightarrow> ncclResult \<times> int option \<times> 'w plugin" where
  "psm2_nccl_devices P s =
     (case psm2_info_query P PSM2_INFO_QUERY_NUM_UNITS None (world s) of (rc, devcount, w') \<Rightarrow>
        let s' = s\<lparr>world := w'\<rparr> in
        if rc \<noteq> PSM2_OK P \<or> INT_MAX < uint devcount then (ncclInternalError, None, s')
        else (ncclSuccess, Some (u32_to_int devcount), s'))"

definition psm2_nccl_pciPath_v2 ::
  "'w platform \<Rightarrow> int \<Rightarrow> 'w plugin \<Rightarrow> (ncclResult \<times> addr \<times> 'w plugin) outcome" where
  "psm2_nccl_pciPath_v2 P dev s =
     obind (hfi_sysclass_get_pciPath P dev s) (\<lambda>(rc, path, s1).
       if rc \<le> 0 then Ret (ncclInternalError, path, s1) else Ret (ncclSuccess, path, s1))"

definition psm2_nccl_ptrSupport_v2 :: "int \<Rightarrow> 'w plugin \<Rightarrow> ncclResult \<times> 32 word" where
  "psm2_nccl_ptrSupport_v2 dev s =
     (let t0 = NCCL_PTR_HOST;
          t1 = (if use_gpudirect s \<noteq> 0 then or t0 NCCL_PTR_CUDA else t0);
          t2 = (if use_gdr_dmabuf s \<noteq> 0 then or t1 NCCL_PTR_DMABUF else t1)
      in (ncclSuccess, t2))"

section \<open>psm2_nccl_getProperties\<close>

text \<open>\<open>props\<close> is the structure as the caller passes it; the second component of the result
  is what it holds afterwards.\<close>

type_synonym 'w props_result = "(ncclResult \<times> psm2_ncclNetProperties \<times> 'w plugin) outcome"

definition props_bail :: "psm2_ncclNetProperties \<Rightarrow> 'w plugin \<Rightarrow> 'w props_result" where
  "props_bail props s =
     obind (if v8_name props \<noteq> 0
            then obind (free_str (v8_name props) s) (\<lambda>s1. Ret (props\<lparr>v8_name := 0\<rparr>, s1))
            else Ret (props, s)) (\<lambda>(props1, s1).
     obind (if v8_pciPath props1 \<noteq> 0
            then obind (free_str (v8_pciPath props1) s1) (\<lambda>s2. Ret (props1\<lparr>v8_pciPath := 0\<rparr>, s2))
            else Ret (props1, s1)) (\<lambda>(props2, s2).
     Ret (ncclInternalError, props2, s2)))"

text \<open>Steps 4 to 12 of the function, once name, path and GUID are known.\<close>

definition props_fill ::
  "'w platform \<Rightarrow> int \<Rightarrow> psm2_ncclNetProperties \<Rightarrow> 'w plugin \<Rightarrow> 'w props_result" where
  "props_fill P dev props s =
     (let props1 = props\<lparr>v8_ptrSupport := snd (psm2_nccl_ptrSupport_v2 dev s),
            v8_speed := 100000, v8_latency := 0\<rparr> in
      case psm2_info_query P PSM2_INFO_QUERY_NUM_PORTS None (world s) of (prc, ports, w1) \<Rightarrow>
        let props2 = props1\<lparr>v8_port := 1\<rparr> in
        case psm2_info_query P PSM2_INFO_QUERY_NUM_FREE_CONTEXTS (Some dev) w1 of
          (rc, numctxts, w2) \<Rightarrow>
            let s2 = s\<lparr>world := w2\<rparr> in
            if rc \<noteq> PSM2_OK P then props_bail props2 s2
            else Ret (ncclSuccess,
              props2\<lparr>v8_maxComms := u32_to_int numctxts,
                v8_maxRecvs := NCCL_NET_PSM2_MAX_RECVS,
                v8_regIsGlobal := 0,
                v8_netDeviceType := NCCL_NET_DEVICE_HOST,
                v8_netDeviceVersion := NCCL_NET_DEVICE_INVALID_VERSION\<rparr>, s2))"

definition psm2_nccl_getProperties ::
  "'w platform \<Rightarrow> int \<Rightarrow> psm2_ncclNetProperties \<Rightarrow> 'w plugin \<Rightarrow> 'w props_result" where
  "psm2_nccl_getProperties P dev props s =
     (if dev < 0 \<or> MAX_DEV < dev then Ret (ncclInvalidArgument, props, s)
      else obind (hfi_sysclass_get_devname P dev s) (\<lambda>(rc, name, s1).
        let props1 = props\<lparr>v8_name := name\<rparr> in
        if rc \<le> 0 then props_bail props1 s1
        else obind (psm2_nccl_pciPath_v2 P dev s1) (\<lambda>(ret, path, s2).
          let props2 = props1\<lparr>v8_pciPath := path\<rparr> in
          if ret \<noteq> ncclSuccess then props_bail props2 s2
          else case hfi_sysclass_rd P dev ''node_guid'' GUID_LEN (world s2) of (rc, guid, w3) \<Rightarrow>
            let s3 = s2\<lparr>world := w3\<rparr> in
            if rc \<le> 0 then props_bail props2 s3
            else case guid_str_to_u64 (c_str guid) of
                None \<Rightarrow> props_bail props2 s3
              | Some g \<Rightarrow> props_fill P dev (props2\<lparr>v8_guid := g\<rparr>) s3)))"

section \<open>The wrappers for older interface versions\<close>

text \<open>
  They pass a local structure that is not initialised: \<open>stk\<close> is what the stack holds.
  The caller's structure is filled on success only.
\<close>

definition v4_of_v8 :: "psm2_ncclNetProperties \<Rightarrow> ncclNetProperties_v4" where
  "v4_of_v8 p = \<lparr>v4_name = v8_name p, v4_pciPath = v8_pciPath p, v4_guid = v8_guid p,
     v4_ptrSupport = v8_ptrSupport p, v4_speed = v8_speed p, v4_port = v8_port p,
     v4_maxComms = v8_maxComms p\<rparr>"

definition v6_of_v8 :: "psm2_ncclNetProperties \<Rightarrow> ncclNetProperties_v6" where
  "v6_of_v8 p = \<lparr>v6_name = v8_name p, v6_pciPath = v8_pciPath p, v6_guid = v8_guid p,
     v6_ptrSupport = v8_ptrSupport p, v6_speed = v8_speed p, v6_port = v8_port p,
     v6_latency = v8_latency p, v6_maxComms = v8_maxComms p, v6_maxRecvs = v8_maxRecvs p\<rparr>"

definition v7_of_v8 :: "psm2_ncclNetProperties \<Rightarrow> ncclNetProperties_v7" where
  "v7_of_v8 p = \<lparr>v7_name = v8_name p, v7_pciPath = v8_pciPath p, v7_guid = v8_guid p,
     v7_ptrSupport = v8_ptrSupport p, v7_speed = v8_speed p, v7_port = v8_port p,
     v7_latency = v8_latency p, v7_maxComms = v8_maxComms p, v7_maxRecvs = v8_maxRecvs p,
     v7_netDeviceType = v8_netDeviceType p, v7_netDeviceVersion = v8_netDeviceVersion p\<rparr>"

definition psm2_nccl_getProperties_v4 ::
  "'w platform \<Rightarrow> psm2_ncclNetProperties \<Rightarrow> int \<Rightarrow> ncclNetProperties_v4 \<Rightarrow> 'w plugin \<Rightarrow>
    (ncclResult \<times> ncclNetProperties_v4 \<times> 'w plugin) outcome" where
  "psm2_nccl_getProperties_v4 P stk dev props s =
     obind (psm2_nccl_getProperties P dev stk s) (\<lambda>(ret, psm2_props, s').
       if ret \<noteq> ncclSuccess then Ret (ret, props, s')
       else Ret (ncclSuccess, v4_of_v8 psm2_props, s'))"

definition psm2_nccl_getProperties_v6 ::
  "'w platform \<Rightarrow> psm2_ncclNetProperties \<Rightarrow> int \<Rightarrow> ncclNetProperties_v6 \<Rightarrow> 'w plugin \<Rightarrow>
    (ncclResult \<times> ncclNetProperties_v6 \<times> 'w plugin) outcome" where
  "psm2_nccl_getProperties_v6 P stk dev props s =
     obind (psm2_nccl_getProperties P dev stk s) (\<lambda>(ret, psm2_props, s').
       if ret \<noteq> ncclSuccess then Ret (ret, props, s')
       else Ret (ncclSuccess, v6_of_v8 psm2_props, s'))"

definition psm2_nccl_getProperties_v7 ::
  "'w platform \<Rightarrow> psm2_ncclNetProperties \<Rightarrow> int \<Rightarrow> ncclNetProperties_v7 \<Rightarrow> 'w plugin \<Rightarrow>
    (ncclResult \<times> ncclNetProperties_v7 \<times> 'w plugin) outcome" where
  "psm2_nccl_getProperties_v7 P stk dev props s =
     obind (psm2_nccl_getProperties P dev stk s) (\<lambda>(ret, psm2_props, s').
       if ret \<noteq> ncclSuccess then Ret (ret, props, s')
       else Ret (ncclSuccess, v7_of_v8 psm2_props, s'))"

section \<open>Memory\<close>

lemma same_plugin_trans: "same_plugin s t \<Longrightarrow> same_plugin t u \<Longrightarrow> same_plugin s u"
  by (simp add: same_plugin_def)

lemma reader_heap_ok:
  assumes "reader_result s (rc, p, s')" and "heap_ok s"
  shows "heap_ok s'"
  using assms
  by (auto simp: reader_result_def new_string_def heap_ok_def same_plugin_def split: if_splits)

text \<open>Two new blocks with terminated strings on top of a heap.\<close>

definition two_strings ::
  "(addr \<Rightarrow> str_block option) \<Rightarrow> addr \<Rightarrow> addr \<Rightarrow> (addr \<Rightarrow> str_block option) \<Rightarrow> bool" where
  "two_strings h p q h' \<longleftrightarrow>
     p \<noteq> 0 \<and> q \<noteq> 0 \<and> p \<noteq> q \<and> h p = None \<and> h q = None \<and>
     (\<exists>a b. h' = h(p \<mapsto> a, q \<mapsto> b) \<and> NUL \<in> set (block_bytes a) \<and> NUL \<in> set (block_bytes b))"

lemma two_strings_free:
  assumes "two_strings h p q h'"
  shows "(\<exists>a. h' p = Some a) \<and> (\<exists>b. (h'(p := None)) q = Some b) \<and> h'(p := None, q := None) = h"
  using assms by (auto simp: two_strings_def fun_eq_iff)

lemma same_plugin_upd [simp]:
  "same_plugin s (s'\<lparr>strs := h\<rparr>) = same_plugin s s'"
  "same_plugin s (s'\<lparr>allocs := n\<rparr>) = same_plugin s s'"
  "same_plugin s (s'\<lparr>world := w\<rparr>) = same_plugin s s'"
  by (simp_all add: same_plugin_def)

lemma heap_ok_world [simp]: "heap_ok (s\<lparr>world := w\<rparr>) = heap_ok s"
  by (simp add: heap_ok_def)

text \<open>
  What a call of \<open>psm2_nccl_getProperties\<close> leaves behind: on success two new strings that
  the structure points to; on failure the string heap as it was, and NULL pointers.
\<close>

definition props_result :: "'w plugin \<Rightarrow> ncclResult \<times> psm2_ncclNetProperties \<times> 'w plugin \<Rightarrow> bool" where
  "props_result s = (\<lambda>(ret, props, s').
     same_plugin s s' \<and> heap_ok s' \<and>
     (if ret = ncclSuccess then two_strings (strs s) (v8_name props) (v8_pciPath props) (strs s')
      else ret = ncclInternalError \<and> v8_name props = 0 \<and> v8_pciPath props = 0 \<and>
        strs s' = strs s))"

text \<open>The state between the two allocations and a return.\<close>

definition holds_strings :: "'w plugin \<Rightarrow> psm2_ncclNetProperties \<Rightarrow> 'w plugin \<Rightarrow> bool" where
  "holds_strings s props s' \<longleftrightarrow>
     same_plugin s s' \<and> heap_ok s' \<and>
     two_strings (strs s) (v8_name props) (v8_pciPath props) (strs s')"

lemma holds_strings_world [simp]:
  "holds_strings s props (s'\<lparr>world := w\<rparr>) = holds_strings s props s'"
  by (simp add: holds_strings_def)

lemma bail_holds_strings:
  assumes "holds_strings s props s'"
  shows "returns (props_bail props s') (props_result s)"
proof -
  let ?n = "v8_name props" and ?q = "v8_pciPath props"
  from assms have ts: "two_strings (strs s) ?n ?q (strs s')" and h: "heap_ok s'"
    and same: "same_plugin s s'" by (simp_all add: holds_strings_def)
  obtain a b where a: "strs s' ?n = Some a" and b: "((strs s')(?n := None)) ?q = Some b"
    and fr: "(strs s')(?n := None, ?q := None) = strs s"
    using two_strings_free [OF ts] by blast
  have nz: "?n \<noteq> 0" "?q \<noteq> 0" using ts by (auto simp: two_strings_def)
  have "heap_ok (s'\<lparr>strs := strs s\<rparr>)"
    using h by (auto simp: heap_ok_def simp flip: fr)
  then show ?thesis
    using a b fr nz same by (simp add: props_bail_def free_str_def props_result_def)
qed

lemma fill_holds_strings:
  assumes "holds_strings s props s'"
  shows "returns (props_fill P dev props s') (props_result s)"
proof -
  have "props_result s (ncclSuccess, props2, s'\<lparr>world := w\<rparr>)"
    and "holds_strings s props2 (s'\<lparr>world := w\<rparr>)"
    if "v8_name props2 = v8_name props" and "v8_pciPath props2 = v8_pciPath props" for props2 w
    using assms that by (simp_all add: holds_strings_def props_result_def)
  then show ?thesis
    by (auto simp: props_fill_def Let_def split: prod.split intro!: bail_holds_strings)
qed

text \<open>Two reader calls in a row leave two strings.\<close>

lemma readers_two_strings:
  assumes "heap_ok s" and "reader_result s (1, p, s1)" and "reader_result s1 (1, q, s2)"
  shows "same_plugin s s2 \<and> heap_ok s2 \<and> two_strings (strs s) p q (strs s2)"
proof -
  have h1: "heap_ok s1" using assms(2,1) by (rule reader_heap_ok)
  have "heap_ok s2" using assms(3) h1 by (rule reader_heap_ok)
  moreover have "same_plugin s s2"
    using assms(2,3) by (auto simp: reader_result_def intro: same_plugin_trans)
  moreover have "two_strings (strs s) p q (strs s2)"
    using assms(2,3) heap_ok_fresh [OF assms(1)] heap_ok_fresh [OF h1]
    by (auto simp: reader_result_def new_string_def two_strings_def) blast
  ultimately show ?thesis by blast
qed

section \<open>The result of psm2_nccl_getProperties\<close>

text \<open>The reader results, with the plugin's rewording of the path error.\<close>

lemma pciPath_v2_result:
  assumes "heap_ok s" and "realpath_contract P"
  shows "returns (psm2_nccl_pciPath_v2 P dev s) (\<lambda>(ret, q, s').
    ret = ncclSuccess \<and> reader_result s (1, q, s') \<or>
    ret = ncclInternalError \<and> q = 0 \<and> reader_result s (-1, q, s'))"
  using hfi_sysclass_get_pciPath_result [OF assms, of dev]
  by (cases "hfi_sysclass_get_pciPath P dev s")
    (auto simp: psm2_nccl_pciPath_v2_def reader_result_def new_string_def split: if_splits)

lemma bail_after_name:
  assumes "heap_ok s" and "reader_result s (1, p, s1)"
    and "rc < 0" and "reader_result s1 (rc, 0, s2)"
    and "v8_name props = p" and "v8_pciPath props = 0"
  shows "returns (props_bail props s2) (props_result s)"
proof -
  have h2: "heap_ok s2"
    using assms reader_heap_ok by blast
  obtain b where p: "p = Suc (allocs s)" and st: "strs s2 = (strs s)(p \<mapsto> b)"
    using assms(2-4) by (auto simp: reader_result_def new_string_def)
  have fr: "(strs s)(p := None) = strs s"
    using heap_ok_fresh [OF assms(1)] p by (simp add: fun_upd_idem)
  have "same_plugin s s2"
    using assms(2-4) by (auto simp: reader_result_def intro: same_plugin_trans)
  moreover have "heap_ok (s2\<lparr>strs := strs s\<rparr>)"
    using h2 st p by (auto simp: heap_ok_def split: if_splits)
  ultimately show ?thesis
    using assms(5,6) p st fr by (simp add: props_bail_def free_str_def props_result_def)
qed

lemma bail_without_name:
  assumes "heap_ok s" and "rc < 0" and "reader_result s (rc, 0, s1)"
    and "v8_name props = 0" and "v8_pciPath props = 0"
  shows "returns (props_bail props s1) (props_result s)"
  using assms reader_heap_ok [OF assms(3,1)]
  by (auto simp: props_bail_def props_result_def reader_result_def)

lemma getProperties_in_range:
  assumes "heap_ok s" and "realpath_contract P" and "0 \<le> dev" and "dev \<le> MAX_DEV"
    and "v8_pciPath props = 0"
  shows "returns (psm2_nccl_getProperties P dev props s) (props_result s)"
proof -
  obtain rc p s1 where dn: "hfi_sysclass_get_devname P dev s = Ret (rc, p, s1)"
    and r1: "reader_result s (rc, p, s1)"
    using hfi_sysclass_get_devname_result [OF assms(1), of P dev] by (auto elim: returnsE)
  show ?thesis
  proof (cases "rc = 1")
    case False
    then have "rc < 0" and "p = 0" using r1 by (auto simp: reader_result_def)
    then show ?thesis
      using assms dn r1
      by (simp add: psm2_nccl_getProperties_def Let_def bail_without_name)
  next
    case True
    have h1: "heap_ok s1" using r1 assms(1) by (rule reader_heap_ok)
    obtain ret q s2 where pp: "psm2_nccl_pciPath_v2 P dev s1 = Ret (ret, q, s2)"
      and r2: "ret = ncclSuccess \<and> reader_result s1 (1, q, s2) \<or>
        ret = ncclInternalError \<and> q = 0 \<and> reader_result s1 (-1, q, s2)"
      using pciPath_v2_result [OF h1 assms(2), of dev] by (auto elim: returnsE)
    show ?thesis
    proof (cases "ret = ncclSuccess")
      case ok: True
      then have hs: "holds_strings s (props\<lparr>v8_name := p, v8_pciPath := q\<rparr>) s2"
        using r1 r2 True readers_two_strings [OF assms(1), of p s1 q s2]
        by (auto simp: holds_strings_def)
      then have "holds_strings s (props\<lparr>v8_name := p, v8_pciPath := q, v8_guid := g\<rparr>) s2" for g
        by (simp add: holds_strings_def)
      then show ?thesis
        using hs assms(3,4) dn True pp ok
        by (simp add: psm2_nccl_getProperties_def Let_def bail_holds_strings fill_holds_strings
            split: prod.split option.split)
    next
      case bad: False
      then have "returns (props_bail (props\<lparr>v8_name := p, v8_pciPath := q\<rparr>) s2) (props_result s)"
        using r1 r2 True assms(1,5) by (intro bail_after_name [where rc = "-1"]) auto
      then show ?thesis
        using assms(3,4) dn True pp bad
        by (simp add: psm2_nccl_getProperties_def Let_def)
    qed
  qed
qed

text \<open>A device number outside 0 to 3 is refused before anything is read, allocated or written.\<close>

lemma getProperties_out_of_range:
  assumes "dev \<notin> {0..3}"
  shows "psm2_nccl_getProperties P dev props s = Ret (ncclInvalidArgument, props, s)"
    and "psm2_nccl_getProperties_v7 P props dev p7 s = Ret (ncclInvalidArgument, p7, s)"
    and "psm2_nccl_getProperties_v6 P props dev p6 s = Ret (ncclInvalidArgument, p6, s)"
    and "psm2_nccl_getProperties_v4 P props dev p4 s = Ret (ncclInvalidArgument, p4, s)"
  using assms
  by (auto simp: psm2_nccl_getProperties_def psm2_nccl_getProperties_v7_def
      psm2_nccl_getProperties_v6_def psm2_nccl_getProperties_v4_def MAX_DEV_def)

text \<open>
  C27: a query on a structure whose \<open>pciPath\<close> is NULL always returns. For a device
  in range: on success the structure points to two new NUL-terminated strings; on every
  failure all that was allocated has been freed and both pointers are NULL; through the older
  interface versions the caller's structure points to the two strings, or is left as it was.
  Any other device number is an invalid argument in every version, and nothing changes.
\<close>

theorem psm2_nccl_getProperties_memory:
  assumes "heap_ok s" and "realpath_contract P" and "v8_pciPath props = 0"
  shows "if dev \<in> {0..3} then
      returns (psm2_nccl_getProperties P dev props s) (props_result s) \<and>
      returns (psm2_nccl_getProperties_v7 P props dev p7 s) (\<lambda>(r, p, s').
        if r = ncclSuccess then two_strings (strs s) (v7_name p) (v7_pciPath p) (strs s')
        else p = p7 \<and> strs s' = strs s) \<and>
      returns (psm2_nccl_getProperties_v6 P props dev p6 s) (\<lambda>(r, p, s').
        if r = ncclSuccess then two_strings (strs s) (v6_name p) (v6_pciPath p) (strs s')
        else p = p6 \<and> strs s' = strs s) \<and>
      returns (psm2_nccl_getProperties_v4 P props dev p4 s) (\<lambda>(r, p, s').
        if r = ncclSuccess then two_strings (strs s) (v4_name p) (v4_pciPath p) (strs s')
        else p = p4 \<and> strs s' = strs s)
    else
      psm2_nccl_getProperties P dev props s = Ret (ncclInvalidArgument, props, s) \<and>
      psm2_nccl_getProperties_v7 P props dev p7 s = Ret (ncclInvalidArgument, p7, s) \<and>
      psm2_nccl_getProperties_v6 P props dev p6 s = Ret (ncclInvalidArgument, p6, s) \<and>
      psm2_nccl_getProperties_v4 P props dev p4 s = Ret (ncclInvalidArgument, p4, s)"
proof (cases "dev \<in> {0..3}")
  case True
  then have d: "0 \<le> dev" "dev \<le> MAX_DEV" by (simp_all add: MAX_DEV_def)
  obtain r q s' where q: "psm2_nccl_getProperties P dev props s = Ret (r, q, s')"
    and res: "props_result s (r, q, s')"
    using getProperties_in_range [OF assms(1,2) d assms(3)] by (auto simp: returns_iff)
  then show ?thesis using True
    by (auto simp: psm2_nccl_getProperties_v7_def psm2_nccl_getProperties_v6_def
        psm2_nccl_getProperties_v4_def v7_of_v8_def v6_of_v8_def v4_of_v8_def props_result_def)
next
  case False
  then show ?thesis unfolding if_not_P [OF False] by (simp only: getProperties_out_of_range simp_thms)
qed

text \<open>The simulated device answers every query.\<close>

definition null_props :: psm2_ncclNetProperties where
  "null_props = \<lparr>v8_name = 0, v8_pciPath = 0, v8_guid = 0, v8_ptrSupport = 0,
     v8_regIsGlobal = 0, v8_speed = 0, v8_port = 0, v8_latency = 0, v8_maxComms = 0,
     v8_maxRecvs = 0, v8_netDeviceType = NCCL_NET_DEVICE_HOST, v8_netDeviceVersion = 0\<rparr>"

lemma heap_ok_initial: "heap_ok (initial_plugin w)"
  by (simp add: heap_ok_def initial_plugin_def)

theorem psm2_nccl_getProperties_memory_witness:
  "returns (psm2_nccl_getProperties sim_platform 0 null_props (initial_plugin dev_sim))
     (props_result (initial_plugin dev_sim))"
  using psm2_nccl_getProperties_memory [OF heap_ok_initial sim_realpath_contract,
      where props = null_props and dev = 0]
  by (simp add: null_props_def)

section \<open>Freeing a pointer that was never set\<close>

text \<open>
  C28: the structure is not initialised before the first failure can happen. If the device
  name cannot be read, the bail-out code frees whatever \<open>pciPath\<close> holds: unless that is
  NULL or happens to be the address of a live block, the behaviour is undefined.
\<close>

theorem psm2_nccl_getProperties_wild_free:
  assumes "0 \<le> dev" and "dev \<le> MAX_DEV"
    and "hfi_sysclass_get_devname P dev s = Ret (rc, 0, s1)" and "rc \<le> 0"
    and "v8_pciPath props \<noteq> 0" and "strs s1 (v8_pciPath props) = None"
  shows "psm2_nccl_getProperties P dev props s = Undef"
  using assms by (simp add: psm2_nccl_getProperties_def Let_def props_bail_def free_str_def)

lemma no_device_devname:
  "hfi_sysclass_get_devname sim_platform 0 (initial_plugin sim0) =
     Ret (-1, 0, initial_plugin sim0)"
  by (simp add: hfi_sysclass_get_devname_def hfi_sysclass_rd_def hfi_sysclass_path_def
      show_int_0 initial_plugin_def sim0_def PATH_MAX_def Let_def)

theorem psm2_nccl_getProperties_wild_free_witness:
  "psm2_nccl_getProperties sim_platform 0 (null_props\<lparr>v8_pciPath := 4711\<rparr>)
     (initial_plugin sim0) = Undef"
  by (rule psm2_nccl_getProperties_wild_free [OF _ _ no_device_devname])
    (simp_all add: MAX_DEV_def initial_plugin_def)

section \<open>The values reported\<close>

lemma ptrSupport_bits:
  "snd (psm2_nccl_ptrSupport_v2 dev s) =
     or (or NCCL_PTR_HOST (if use_gpudirect s \<noteq> 0 then NCCL_PTR_CUDA else 0))
        (if use_gdr_dmabuf s \<noteq> 0 then NCCL_PTR_DMABUF else 0)"
  by (simp add: psm2_nccl_ptrSupport_v2_def Let_def)

lemma bail_not_success: "props_bail props s = Ret (ret, props', s') \<Longrightarrow> ret \<noteq> ncclSuccess"
  by (auto simp: props_bail_def outcome_simps split: if_splits)

text \<open>
  What the system and libpsm2 say about a device: the link resolved; and the name, the
  path, the GUID and the number of free contexts, asked in this order, with the world afterwards.
  \<open>None\<close> if one of the answers is missing or malformed.
\<close>

definition device_path :: "'w platform \<Rightarrow> int \<Rightarrow> 'w \<Rightarrow> (string \<times> 'w) option" where
  "device_path P dev w =
     (case os_lstat P (hfi_sysclass_path dev @ ''/device'') w of (rc, w1) \<Rightarrow>
        if rc = -1 then None
        else case os_realpath P (hfi_sysclass_path dev @ ''/device'') w1 of (resolved, w2) \<Rightarrow>
          map_option (\<lambda>r. (r, w2)) resolved)"

definition device_attrs ::
  "'w platform \<Rightarrow> int \<Rightarrow> 'w \<Rightarrow> (string \<times> string \<times> 64 word \<times> 32 word \<times> 'w) option" where
  "device_attrs P dev w =
     (case hfi_sysclass_rd P dev ''uevent'' UEVENT_MAX w of (urc, uevent, w1) \<Rightarrow>
        if urc < 0 then None
        else Option.bind (devname_spec (c_str uevent)) (\<lambda>name.
          Option.bind (device_path P dev w1) (\<lambda>(path, w2).
            case hfi_sysclass_rd P dev ''node_guid'' GUID_LEN w2 of (grc, guid, w3) \<Rightarrow>
              if grc \<le> 0 then None
              else Option.bind (guid_str_to_u64 (c_str guid)) (\<lambda>g.
                case psm2_info_query P PSM2_INFO_QUERY_NUM_PORTS None w3 of (_, _, w4) \<Rightarrow>
                  case psm2_info_query P PSM2_INFO_QUERY_NUM_FREE_CONTEXTS (Some dev) w4 of
                    (rc, ctxts, w5) \<Rightarrow>
                      if rc \<noteq> PSM2_OK P then None else Some (name, path, g, ctxts, w5)))))"

lemma device_attrs_name:
  assumes "device_attrs P dev w = Some (name, rest)"
  shows "NUL \<notin> set name"
proof -
  obtain urc u w1 where u: "hfi_sysclass_rd P dev ''uevent'' UEVENT_MAX w = (urc, u, w1)"
    by (metis prod_cases3)
  obtain n where n: "devname_spec (c_str u) = Some n"
    using assms u by (auto simp: device_attrs_def split: if_splits bind_splits)
  moreover have "n = name"
    using assms u n by (auto simp: device_attrs_def split: if_splits prod.splits bind_splits)
  ultimately show ?thesis using devname_spec_no_NUL by blast
qed

text \<open>The blocks in which the two strings are stored.\<close>

definition name_block :: "string \<Rightarrow> str_block" where
  "name_block name = \<lparr>block_size = length name + 6, block_bytes = name @ replicate 5 NUL\<rparr>"

definition path_block :: "string \<Rightarrow> str_block" where
  "path_block path = \<lparr>block_size = PATH_MAX, block_bytes = path @ [NUL]\<rparr>"

lemma int_dev_fits: "0 \<le> dev \<Longrightarrow> dev \<le> MAX_DEV \<Longrightarrow> - (2 ^ 31) \<le> dev \<and> dev < 2 ^ 31"
  by (simp add: MAX_DEV_def)

lemma pciPath_v2_values:
  assumes "heap_ok s" and "realpath_contract P" and "- (2 ^ 31) \<le> dev" and "dev < 2 ^ 31"
  shows "case (if alloc_ok P (allocs s) then device_path P dev (world s) else None) of
      None \<Rightarrow> \<forall>q s'. psm2_nccl_pciPath_v2 P dev s \<noteq> Ret (ncclSuccess, q, s')
    | Some (path, w) \<Rightarrow> psm2_nccl_pciPath_v2 P dev s = Ret (ncclSuccess, Suc (allocs s),
        s\<lparr>world := w, allocs := Suc (allocs s),
          strs := (strs s)(Suc (allocs s) \<mapsto> path_block path)\<rparr>)"
proof -
  let ?link = "hfi_sysclass_path dev @ ''/device''"
  obtain lrc w1 where ls: "os_lstat P ?link (world s) = (lrc, w1)" by fastforce
  obtain resolved w2 where rp: "os_realpath P ?link w1 = (resolved, w2)" by fastforce
  have "\<forall>r. resolved = Some r \<longrightarrow> length r < PATH_MAX"
    using assms(2) rp unfolding realpath_contract_def by blast
  note e = get_pciPath_eval [OF assms(1,3,4) ls rp this]
  show ?thesis
    unfolding psm2_nccl_pciPath_v2_def e
    using ls rp by (auto simp: device_path_def path_block_def split: option.splits)
qed

text \<open>A query succeeds exactly if the device gives all answers, and then reports them.\<close>

lemma getProperties_values:
  assumes "heap_ok s" and "config_ok s" and "realpath_contract P"
  shows "case (if 0 \<le> dev \<and> dev \<le> MAX_DEV \<and> alloc_ok P (allocs s) \<and> alloc_ok P (Suc (allocs s))
        then device_attrs P dev (world s) else None) of
      None \<Rightarrow> \<forall>p s'. psm2_nccl_getProperties P dev props s \<noteq> Ret (ncclSuccess, p, s')
    | Some (name, path, g, ctxts, w) \<Rightarrow>
        psm2_nccl_getProperties P dev props s = Ret (ncclSuccess,
          \<lparr>v8_name = Suc (allocs s), v8_pciPath = Suc (Suc (allocs s)), v8_guid = g,
            v8_ptrSupport = (if use_gpudirect s = 1 then or NCCL_PTR_HOST NCCL_PTR_CUDA else NCCL_PTR_HOST),
            v8_regIsGlobal = 0, v8_speed = 100000, v8_port = 1, v8_latency = 0,
            v8_maxComms = u32_to_int ctxts, v8_maxRecvs = 1,
            v8_netDeviceType = NCCL_NET_DEVICE_HOST, v8_netDeviceVersion = 0\<rparr>,
          s\<lparr>world := w, allocs := Suc (Suc (allocs s)), strs := (strs s)
            (Suc (allocs s) \<mapsto> name_block name, Suc (Suc (allocs s)) \<mapsto> path_block path)\<rparr>)"
proof (cases "0 \<le> dev \<and> dev \<le> MAX_DEV")
  case False
  then have "psm2_nccl_getProperties P dev props s = Ret (ncclInvalidArgument, props, s)"
    by (auto simp: psm2_nccl_getProperties_def)
  then show ?thesis using False by auto
next
  case True
  note dev = int_dev_fits [OF conjunct1 conjunct2, OF True True]
  obtain urc u w1 where u: "hfi_sysclass_rd P dev ''uevent'' UEVENT_MAX (world s) = (urc, u, w1)"
    by (metis prod_cases3)
  note n = get_devname_eval [OF u]
  show ?thesis
  proof (cases "urc < 0 \<or> devname_spec (c_str u) = None \<or> \<not> alloc_ok P (allocs s)")
    case bad: True
    then obtain rc s1 where "hfi_sysclass_get_devname P dev s = Ret (rc, 0, s1)" and "rc \<le> 0"
      using n by (auto split: if_splits option.splits)
    then have "psm2_nccl_getProperties P dev props s \<noteq> Ret (ncclSuccess, p, s')" for p s'
      using True by (auto simp: psm2_nccl_getProperties_def Let_def dest!: bail_not_success)
    then show ?thesis using bad u by (auto simp: device_attrs_def)
  next
    case False
    then obtain name where name: "devname_spec (c_str u) = Some name" by auto
    let ?s1 = "s\<lparr>world := w1, allocs := Suc (allocs s),
      strs := (strs s)(Suc (allocs s) \<mapsto> name_block name)\<rparr>"
    have dn: "hfi_sysclass_get_devname P dev s = Ret (1, Suc (allocs s), ?s1)"
      using n False name by (simp add: name_block_def)
    have h1: "heap_ok ?s1" using assms(1) by (simp add: heap_ok_def)
    note pp = pciPath_v2_values [OF h1 assms(3) conjunct1 [OF dev] conjunct2 [OF dev], simplified]
    show ?thesis
    proof (cases "if alloc_ok P (Suc (allocs s)) then device_path P dev w1 else None")
      case None
      then have "psm2_nccl_pciPath_v2 P dev ?s1 \<noteq> Ret (ncclSuccess, q, s2)" for q s2
        using pp by (simp split: if_splits)
      then have "psm2_nccl_getProperties P dev props s \<noteq> Ret (ncclSuccess, p, s')" for p s'
        using True dn
        by (auto simp: psm2_nccl_getProperties_def Let_def outcome_simps dest!: bail_not_success split: if_splits)
      then show ?thesis using None u name False by (auto simp: device_attrs_def split: if_splits)
    next
      case (Some pw)
      then obtain path w2 where pw: "alloc_ok P (Suc (allocs s))" "device_path P dev w1 = Some (path, w2)"
        by (cases pw) (auto split: if_splits)
      let ?s2 = "?s1\<lparr>world := w2, allocs := Suc (Suc (allocs s)),
        strs := (strs ?s1)(Suc (Suc (allocs s)) \<mapsto> path_block path)\<rparr>"
      obtain s2 where s2: "s2 = ?s2" by simp
      have q: "psm2_nccl_pciPath_v2 P dev ?s1 = Ret (ncclSuccess, Suc (Suc (allocs s)), s2)"
        using pp pw by (simp add: s2)
      have w2: "world s2 = w2" by (simp add: s2)
      have bits: "snd (psm2_nccl_ptrSupport_v2 dev (s2\<lparr>world := w\<rparr>)) =
          (if use_gpudirect s = 1 then or NCCL_PTR_HOST NCCL_PTR_CUDA else NCCL_PTR_HOST)" for w
        using config_okD [OF assms(2)] by (auto simp: s2 ptrSupport_bits is_bit_def)
      obtain grc gs w3 where g: "hfi_sysclass_rd P dev ''node_guid'' GUID_LEN w2 = (grc, gs, w3)"
        by (metis prod_cases3)
      obtain prc ports w4 where p: "psm2_info_query P PSM2_INFO_QUERY_NUM_PORTS None w3 = (prc, ports, w4)"
        by (metis prod_cases3)
      obtain rc ctxts w5 where c: "psm2_info_query P PSM2_INFO_QUERY_NUM_FREE_CONTEXTS (Some dev) w4 =
          (rc, ctxts, w5)" by (metis prod_cases3)
      let ?pr = "props\<lparr>v8_name := Suc (allocs s), v8_pciPath := Suc (Suc (allocs s))\<rparr>"
      have e: "psm2_nccl_getProperties P dev props s =
          (if grc \<le> 0 then props_bail ?pr (s2\<lparr>world := w3\<rparr>)
           else case guid_str_to_u64 (c_str gs) of
               None \<Rightarrow> props_bail ?pr (s2\<lparr>world := w3\<rparr>)
             | Some g \<Rightarrow> props_fill P dev (?pr\<lparr>v8_guid := g\<rparr>) (s2\<lparr>world := w3\<rparr>))"
        using True dn q g w2 by (simp add: psm2_nccl_getProperties_def Let_def)
      have att: "device_attrs P dev (world s) = (if grc \<le> 0 then None
          else Option.bind (guid_str_to_u64 (c_str gs)) (\<lambda>g.
            if rc \<noteq> PSM2_OK P then None else Some (name, path, g, ctxts, w5)))"
        using u False name pw g p c by (simp add: device_attrs_def)
      show ?thesis
      proof (cases "device_attrs P dev (world s)")
        case None
        then have "psm2_nccl_getProperties P dev props s \<noteq> Ret (ncclSuccess, pr, s')" for pr s'
          using att p c by (auto simp: e props_fill_def Let_def dest!: bail_not_success split: option.splits if_splits)
        then show ?thesis using None by simp
      next
        case (Some x)
        then obtain g where "0 < grc" and "guid_str_to_u64 (c_str gs) = Some g" and "rc = PSM2_OK P"
          and x: "x = (name, path, g, ctxts, w5)"
          using att by (auto simp: bind_eq_Some_conv split: if_splits)
        then have "psm2_nccl_getProperties P dev props s = Ret (ncclSuccess,
          \<lparr>v8_name = Suc (allocs s), v8_pciPath = Suc (Suc (allocs s)), v8_guid = g,
            v8_ptrSupport = (if use_gpudirect s = 1 then or NCCL_PTR_HOST NCCL_PTR_CUDA else NCCL_PTR_HOST),
            v8_regIsGlobal = 0, v8_speed = 100000, v8_port = 1, v8_latency = 0,
            v8_maxComms = u32_to_int ctxts, v8_maxRecvs = 1,
            v8_netDeviceType = NCCL_NET_DEVICE_HOST, v8_netDeviceVersion = 0\<rparr>, s2\<lparr>world := w5\<rparr>)"
          using p c by (simp add: e bits props_fill_def Let_def NCCL_NET_PSM2_MAX_RECVS_def
              NCCL_NET_DEVICE_INVALID_VERSION_def)
        then show ?thesis using Some x True False pw(1) by (simp add: s2)
      qed
    qed
  qed
qed

lemma hex_digit_not_NUL [simp]: "n < 16 \<Longrightarrow> hex_digit n \<noteq> NUL"
  using digit_of_hex [of n] by (auto simp: digit_of_def code_of_def NUL_def split: if_splits)

lemma show_guid_NUL: "NUL \<notin> set (show_guid g)"
proof -
  have "NUL \<notin> set (show_hex4 w)" for w
    using unat16_less [of w]
    by (auto simp: show_hex4_def Let_def less_mult_imp_div_less eq_commute [of NUL])
  then show ?thesis by (simp add: show_guid_def) (simp add: NUL_def)
qed

text \<open>A platform whose attribute files never change.\<close>

definition const_dev :: "sim platform" where
  "const_dev = sim_platform\<lparr>
     os_open := (\<lambda>path w.
       (if path = ''/sys/class/infiniband/hfi1_0/uevent'' then 4 else 3, w)),
     os_read := (\<lambda>fd len w.
       let bs = (if fd = 4 then ''NAME=hfi1_0'' else show_guid 0x1175010101F2B4) in
       (int (length bs), bs, w)),
     os_close := (\<lambda>fd w. w)\<rparr>"

lemma length_show_guid [simp]: "length (show_guid g) = 19"
  by (simp add: show_guid_def show_hex4_def Let_def)

lemma const_dev_uevent:
  "hfi_sysclass_rd const_dev 0 ''uevent'' UEVENT_MAX w = (11, ''NAME=hfi1_0'' @ [NUL], w)"
  by (simp add: const_dev_def hfi_sysclass_rd_def hfi_sysclass_path_def show_int_0
      PATH_MAX_def UEVENT_MAX_def Let_def)

lemma const_dev_node_guid:
  "hfi_sysclass_rd const_dev 0 ''node_guid'' GUID_LEN w =
     (19, show_guid 0x1175010101F2B4 @ [NUL], w)"
  by (simp add: const_dev_def hfi_sysclass_rd_def hfi_sysclass_path_def show_int_0
      PATH_MAX_def GUID_LEN_def Let_def)

lemma const_dev_name: "c_str (''NAME=hfi1_0'' @ [NUL]) = ''NAME=hfi1_0''"
  by (rule c_str_no_NUL) (simp add: NUL_def)

lemma const_dev_simps [simp]:
  "alloc_ok const_dev n = True"
  "os_lstat const_dev path w = (if sim_links w path = None then -1 else 0, w)"
  "os_realpath const_dev path w =
     (Option.bind (sim_links w path) (\<lambda>r. if length r < PATH_MAX then Some r else None), w)"
  "psm2_info_query const_dev iq ia w = (0, 1, w)"
  "PSM2_OK const_dev = 0"
  by (simp_all add: const_dev_def)

lemma dev_sim_link:
  "sim_links dev_sim ''/sys/class/infiniband/hfi1_0/device'' = Some ''/sys/devices/pci0''"
  by (simp add: dev_sim_def)

text \<open>What this platform says about its device.\<close>

lemma const_dev_attrs:
  "device_attrs const_dev 0 dev_sim =
     Some (''hfi1_0'', ''/sys/devices/pci0'', 0x1175010101F2B4, 1, dev_sim)"
proof -
  have "c_str (show_guid 0x1175010101F2B4 @ [NUL]) = show_guid 0x1175010101F2B4"
    by (rule c_str_no_NUL) (rule show_guid_NUL)
  moreover have "guid_str_to_u64 (show_guid 0x1175010101F2B4) = Some 0x1175010101F2B4"
    using guid_str_to_u64_show_guid_aux [of "[]"] by (simp add: starts_with_digit_def)
  moreover have "hfi_sysclass_path 0 @ ''/device'' = ''/sys/class/infiniband/hfi1_0/device''"
    by (simp add: hfi_sysclass_path_def show_int_0)
  then have "device_path const_dev 0 w = map_option (\<lambda>r. (r, w)) (Option.bind
      (sim_links w ''/sys/class/infiniband/hfi1_0/device'') (\<lambda>r. if length r < PATH_MAX then Some r else None))" for w
    unfolding device_path_def by (auto split: bind_splits)
  ultimately show ?thesis
    using const_dev_uevent const_dev_name const_dev_node_guid dev_sim_link
    by (simp add: device_attrs_def devname_spec_def PATH_MAX_def del: append.simps)
qed

section \<open>The number of devices\<close>

text \<open>
  A device count is reported only if libpsm2 gave it without error, and then exactly
  that count, as a non-negative \<open>int\<close>.
\<close>

lemma psm2_nccl_devices_exact:
  assumes "psm2_info_query P PSM2_INFO_QUERY_NUM_UNITS None (world s) = (rc, cnt, w')"
  shows "psm2_nccl_devices P s =
    (if rc = PSM2_OK P \<and> uint cnt \<le> INT_MAX
     then (ncclSuccess, Some (uint cnt), s\<lparr>world := w'\<rparr>)
     else (ncclInternalError, None, s\<lparr>world := w'\<rparr>))"
  using assms by (simp add: psm2_nccl_devices_def Let_def u32_to_int_small)

end
