(* ===== verification/Device_Calls.thy ===== *)
theory Device_Calls
  imports Device_Props
begin

text \<open>
  What the device queries do to the outside world: calls of the system and queries of the
  library, none of which touches an endpoint, a queue or an operation.
\<close>

abbreviation sys_calls :: "'w platform \<Rightarrow> 'w \<Rightarrow> 'w \<Rightarrow> bool" where
  "sys_calls P \<equiv> rtranclp (sys_call P)"

lemmas sys_one = r_into_rtranclp [where r = "sys_call P" for P]
lemmas sys_then = rtranclp.rtrancl_into_rtrancl [where r = "sys_call P" for P]
lemmas sys_trans = rtranclp_trans [where r = "sys_call P" for P]

lemma sys_calls_control: "sys_calls P w w' \<Longrightarrow> control_calls P w w'"
  by (induction rule: rtranclp_induct) (auto intro: cc_quiet q_sys)

lemma sys_calls_opened:
  assumes "ep_contract P opened" and "sys_calls P w w'"
  shows "opened w' = opened w"
  using assms(2)
  by (induction rule: rtranclp_induct) (simp_all add: ep_contract_quiet(1) [OF assms(1) q_sys])

section \<open>The readers\<close>

lemma hfi_sysclass_rd_sys:
  assumes "hfi_sysclass_rd P dev attr len w = (rc, out, w')"
  shows "sys_calls P w w'"
proof -
  let ?path = "hfi_sysclass_path dev @ ''/'' @ attr"
  obtain fd w1 where o: "os_open P ?path w = (fd, w1)" by fastforce
  obtain n bs w2 where r: "os_read P fd len w1 = (n, bs, w2)" by (metis surj_pair)
  note c1 = sys_one [OF s_open [OF o]]
  note c3 = sys_then [OF sys_then [OF c1 s_read [OF r]] s_close [where fd = fd, OF refl]]
  have "w' = w \<or> w' = w1 \<or> w' = os_close P fd w2"
    using assms o r by (auto simp: hfi_sysclass_rd_def Let_def split: if_splits)
  then show ?thesis using c1 c3 by auto
qed

lemma store_str_world: "store_str p bs s = Ret s' \<Longrightarrow> world s' = world s"
  by (auto simp: store_str_def split: option.splits if_splits)

lemma free_str_world: "free_str p s = Ret s' \<Longrightarrow> world s' = world s"
  by (auto simp: free_str_def split: option.splits if_splits)

lemma malloc_str_world: "malloc_str P n s = (p, s') \<Longrightarrow> world s' = world s"
  by (auto simp: malloc_str_def Let_def split: if_splits)

lemma get_devname_sys:
  assumes "hfi_sysclass_get_devname P dev s = Ret (rc, p, s')"
  shows "sys_calls P (world s) (world s')"
proof -
  obtain n tmp w1 where r: "hfi_sysclass_rd P dev ''uevent'' UEVENT_MAX (world s) = (n, tmp, w1)"
    by (metis surj_pair)
  have "world s' = w1"
    using assms r
    by (auto simp: hfi_sysclass_get_devname_def Let_def obind_eq_Ret
        dest!: store_str_world malloc_str_world split: prod.splits if_splits)
  then show ?thesis using hfi_sysclass_rd_sys [OF r] by simp
qed

lemma get_pciPath_sys:
  assumes "hfi_sysclass_get_pciPath P dev s = Ret (rc, p, s')"
  shows "sys_calls P (world s) (world s')"
proof -
  let ?path = "hfi_sysclass_path dev @ ''/device''"
  obtain n w1 where l: "os_lstat P ?path (world s) = (n, w1)" by fastforce
  obtain r w2 where r: "os_realpath P ?path w1 = (r, w2)" by fastforce
  note c1 = sys_one [OF s_lstat [OF l]]
  note c2 = sys_then [OF c1 s_realpath [OF r]]
  have "world s' = world s \<or> world s' = w1 \<or> world s' = w2"
    using assms l r
    by (auto simp: hfi_sysclass_get_pciPath_def Let_def obind_eq_Ret
        dest!: store_str_world free_str_world malloc_str_world
        split: prod.splits if_splits option.splits)
  then show ?thesis using c1 c2 by auto
qed

lemma pciPath_v2_sys:
  assumes "psm2_nccl_pciPath_v2 P dev s = Ret (rc, p, s')"
  shows "sys_calls P (world s) (world s')"
  using assms get_pciPath_sys
  by (fastforce simp: psm2_nccl_pciPath_v2_def obind_eq_Ret split: if_splits)

section \<open>The queries\<close>

lemma devices_sys:
  assumes "psm2_nccl_devices P s = (r, n, s')"
  shows "sys_calls P (world s) (world s')" and "s' = s\<lparr>world := world s'\<rparr>"
proof -
  obtain rc cnt w' where q: "psm2_info_query P PSM2_INFO_QUERY_NUM_UNITS None (world s) = (rc, cnt, w')"
    by (metis surj_pair)
  then have s: "s' = s\<lparr>world := w'\<rparr>"
    using assms by (auto simp: psm2_nccl_devices_def Let_def split: if_splits)
  then show "sys_calls P (world s) (world s')" using sys_one [OF s_info [OF q]] by simp
  show "s' = s\<lparr>world := world s'\<rparr>" unfolding s by simp
qed

lemma props_bail_world: "props_bail props s = Ret (r, props', s') \<Longrightarrow> world s' = world s"
  by (auto simp: props_bail_def obind_eq_Ret dest!: free_str_world split: if_splits)

lemma props_fill_sys:
  assumes "props_fill P dev props s = Ret (r, props', s')"
  shows "sys_calls P (world s) (world s')"
proof -
  obtain a x w1 where q1: "psm2_info_query P PSM2_INFO_QUERY_NUM_PORTS None (world s) = (a, x, w1)"
    by (metis surj_pair)
  obtain b y w2
    where q2: "psm2_info_query P PSM2_INFO_QUERY_NUM_FREE_CONTEXTS (Some dev) w1 = (b, y, w2)"
    by (metis surj_pair)
  have "world s' = w2"
    using assms q1 q2
    by (auto simp: props_fill_def Let_def dest!: props_bail_world split: if_splits)
  then show ?thesis
    using sys_then [OF sys_one [OF s_info [OF q1]] s_info [OF q2]] by simp
qed

lemma getProperties_sys:
  assumes "psm2_nccl_getProperties P dev props s = Ret (r, props', s')"
  shows "sys_calls P (world s) (world s')"
proof (cases "dev < 0 \<or> MAX_DEV < dev")
  case True
  then show ?thesis using assms by (simp add: psm2_nccl_getProperties_def)
next
  case range: False
  then obtain rc name s1 where d: "hfi_sysclass_get_devname P dev s = Ret (rc, name, s1)"
    using assms by (auto simp: psm2_nccl_getProperties_def obind_eq_Ret)
  note c1 = get_devname_sys [OF d]
  show ?thesis
  proof (cases "rc \<le> 0")
    case True
    then show ?thesis
      using assms range d c1 by (auto simp: psm2_nccl_getProperties_def Let_def dest!: props_bail_world)
  next
    case name: False
    then obtain ret path s2 where p: "psm2_nccl_pciPath_v2 P dev s1 = Ret (ret, path, s2)"
      using assms range d by (auto simp: psm2_nccl_getProperties_def Let_def obind_eq_Ret)
    note c2 = sys_trans [OF c1 pciPath_v2_sys [OF p]]
    obtain n guid w3 where g: "hfi_sysclass_rd P dev ''node_guid'' GUID_LEN (world s2) = (n, guid, w3)"
      by (metis surj_pair)
    note c3 = sys_trans [OF c2 hfi_sysclass_rd_sys [OF g]]
    let ?p2 = "props\<lparr>v8_name := name, v8_pciPath := path\<rparr>"
    have e: "psm2_nccl_getProperties P dev props s =
        (if ret \<noteq> ncclSuccess then props_bail ?p2 s2
         else if n \<le> 0 then props_bail ?p2 (s2\<lparr>world := w3\<rparr>)
         else case guid_str_to_u64 (c_str guid) of
             None \<Rightarrow> props_bail ?p2 (s2\<lparr>world := w3\<rparr>)
           | Some u \<Rightarrow> props_fill P dev (?p2\<lparr>v8_guid := u\<rparr>) (s2\<lparr>world := w3\<rparr>))"
      using range d name p g by (simp add: psm2_nccl_getProperties_def Let_def)
    then show ?thesis
      using assms [unfolded e] c2 c3 sys_trans [OF c3]
      by (auto dest!: props_bail_world props_fill_sys split: if_splits option.splits)
  qed
qed

text \<open>A device number out of range is refused before anything is done.\<close>

lemma getProperties_returns:
  assumes "heap_ok s" and "realpath_contract P" and "v8_pciPath props = 0"
  shows "returns (psm2_nccl_getProperties P dev props s) (\<lambda>(r, props', s').
    same_plugin s s' \<and> heap_ok s')"
proof (cases "dev < 0 \<or> MAX_DEV < dev")
  case True
  then show ?thesis using assms(1) by (simp add: psm2_nccl_getProperties_def)
next
  case False
  then have "returns (psm2_nccl_getProperties P dev props s) (props_result s)"
    using getProperties_in_range [OF assms(1,2) _ _ assms(3), of dev] by simp
  then show ?thesis by (rule returns_mono) (auto simp: props_result_def)
qed

end
