(* ===== verification/Requests.thy ===== *)
theory Requests
  imports Psm2_Contract
begin

text \<open>
  The request objects of a communicator: \<open>get_req\<close> and \<open>put_req\<close> of
  \<open>psm2_nccl_api.c\<close>. The interface the data path relies on is the locale
  \<open>slot_pool\<close>; the array of requests implements it.
\<close>

section \<open>The interface\<close>

text \<open>
  A pool of \<open>cap\<close> slots: \<open>taken\<close> is the abstract view, \<open>take_slot\<close> hands out a free
  slot or fails when there is none, \<open>free_slot\<close> gives one back.
\<close>

locale slot_pool =
  fixes cap :: nat
    and invar :: "'p \<Rightarrow> bool"
    and taken :: "'p \<Rightarrow> nat set"
    and take_slot :: "'x \<Rightarrow> 'p \<Rightarrow> (nat \<times> 'p) option"
    and free_slot :: "nat \<Rightarrow> 'p \<Rightarrow> 'p"
  assumes taken_bound: "invar p \<Longrightarrow> taken p \<subseteq> {..<cap}"
    and take_None: "invar p \<Longrightarrow> take_slot x p = None \<longleftrightarrow> taken p = {..<cap}"
    and take_Some: "invar p \<Longrightarrow> take_slot x p = Some (i, p') \<Longrightarrow>
      i \<notin> taken p \<and> taken p' = insert i (taken p) \<and> invar p'"
    and free_taken: "invar p \<Longrightarrow> i \<in> taken p \<Longrightarrow>
      taken (free_slot i p) = taken p - {i} \<and> invar (free_slot i p)"
begin

lemma taken_finite: "invar p \<Longrightarrow> finite (taken p)"
  using taken_bound finite_subset by blast

lemma taken_card: "invar p \<Longrightarrow> card (taken p) \<le> cap"
  using card_mono [OF finite_lessThan taken_bound] by simp

lemma take_fails_iff: "invar p \<Longrightarrow> take_slot x p = None \<longleftrightarrow> card (taken p) = cap"
proof -
  assume inv: "invar p"
  have "taken p = {..<cap} \<longleftrightarrow> card (taken p) = cap"
  proof
    assume "card (taken p) = cap"
    then show "taken p = {..<cap}"
      by (intro card_subset_eq [OF finite_lessThan taken_bound [OF inv]]) simp
  qed simp
  with take_None [OF inv] show ?thesis by simp
qed

lemma take_card: "invar p \<Longrightarrow> take_slot x p = Some (i, p') \<Longrightarrow>
    card (taken p') = Suc (card (taken p))"
  using take_Some taken_finite by fastforce

lemma take_in_range: "invar p \<Longrightarrow> take_slot x p = Some (i, p') \<Longrightarrow> i < cap"
  using take_Some taken_bound by blast

lemma free_card: "invar p \<Longrightarrow> i \<in> taken p \<Longrightarrow> Suc (card (taken (free_slot i p))) = card (taken p)"
  using free_taken taken_finite by (metis card_Suc_Diff1)

lemma take_after_free: "invar p \<Longrightarrow> i \<in> taken p \<Longrightarrow> take_slot x (free_slot i p) \<noteq> None"
  using free_card [of p i] taken_card [of p] take_fails_iff [of "free_slot i p" x] free_taken [of p i]
  by auto

text \<open>Any number of takes, one after the other, with the slots in the order they came.\<close>

fun take_many :: "'x list \<Rightarrow> 'p \<Rightarrow> (nat list \<times> 'p) option" where
  "take_many [] p = Some ([], p)"
| "take_many (x # xs) p =
     (case take_slot x p of
        None \<Rightarrow> None
      | Some (i, p1) \<Rightarrow> map_option (\<lambda>(is, p2). (i # is, p2)) (take_many xs p1))"

lemma take_many_distinct:
  "invar p \<Longrightarrow> take_many xs p = Some (is, p') \<Longrightarrow>
     distinct is \<and> set is \<inter> taken p = {} \<and> taken p' = set is \<union> taken p \<and> invar p'"
proof (induction xs arbitrary: p "is")
  case (Cons x xs)
  then obtain i p1 is' where "take_slot x p = Some (i, p1)" and "take_many xs p1 = Some (is', p')"
    and "is = i # is'" by (auto split: option.splits)
  with Cons show ?case using take_Some [of p x i p1] by fastforce
qed simp

lemma take_many_capacity:
  "invar p \<Longrightarrow> take_many xs p = None \<longleftrightarrow> cap < card (taken p) + length xs"
proof (induction xs arbitrary: p)
  case Nil
  then show ?case using taken_card by (auto simp: not_less)
next
  case (Cons x xs)
  show ?case
  proof (cases "take_slot x p")
    case None
    then show ?thesis using take_fails_iff [OF Cons.prems, of x] by simp
  next
    case (Some ip)
    then obtain i p1 where s: "take_slot x p = Some (i, p1)" by (cases ip) auto
    then have "invar p1" and "card (taken p1) = Suc (card (taken p))"
      using take_Some [OF Cons.prems s] take_card [OF Cons.prems s] by auto
    with s show ?thesis using Cons.IH [of p1] by simp
  qed
qed

end

section \<open>get_req and put_req\<close>

text \<open>The search of the array for the first request that is not in use.\<close>

fun find_unused :: "nat \<Rightarrow> comm_req list \<Rightarrow> nat option" where
  "find_unused i [] = None"
| "find_unused i (r # rs) = (if used r = 0 then Some i else find_unused (Suc i) rs)"

definition new_req :: "addr \<Rightarrow> psm2comm \<Rightarrow> comm_req_type \<Rightarrow> comm_req" where
  "new_req c cm type =
     zero_req\<lparr>r_type := type, used := 1, r_comm := c, r_ep := ep cm, r_mq := mq cm\<rparr>"

definition get_req ::
  "'w platform \<Rightarrow> addr \<Rightarrow> comm_req_type \<Rightarrow> 'w plugin \<Rightarrow> (req_ptr option \<times> 'w plugin) outcome" where
  "get_req P c type s =
     c_assert (ndebug P) (type = ReqSend \<or> type = ReqRecv)
       (obind (load_comm c s) (\<lambda>cm.
          case find_unused 0 (take NUM_REQUESTS (requests cm)) of
            None \<Rightarrow> Ret (None, s)
          | Some i \<Rightarrow> Ret (Some (c, i), store_req (c, i) (new_req c cm type) s)))"

definition put_req :: "req_ptr \<Rightarrow> 'w plugin \<Rightarrow> 'w plugin outcome" where
  "put_req r s = obind (load_req r s) (\<lambda>_. Ret (store_req r zero_req s))"

section \<open>The array implements the pool\<close>

definition req_array_ok :: "comm_req list \<Rightarrow> bool" where
  "req_array_ok rs \<longleftrightarrow> length rs = NUM_REQUESTS"

definition in_use :: "comm_req list \<Rightarrow> nat set" where
  "in_use rs = {i. i < length rs \<and> used (rs ! i) \<noteq> 0}"

definition take_req :: "addr \<times> psm2comm \<times> comm_req_type \<Rightarrow> comm_req list \<Rightarrow> (nat \<times> comm_req list) option"
  where
  "take_req = (\<lambda>(c, cm, type) rs.
     map_option (\<lambda>i. (i, rs[i := new_req c cm type])) (find_unused 0 (take NUM_REQUESTS rs)))"

definition drop_req :: "nat \<Rightarrow> comm_req list \<Rightarrow> comm_req list" where
  "drop_req i rs = rs[i := zero_req]"

lemma find_unused_Some:
  "find_unused k rs = Some i \<Longrightarrow>
     k \<le> i \<and> i - k < length rs \<and> used (rs ! (i - k)) = 0 \<and>
     (\<forall>j < i - k. used (rs ! j) \<noteq> 0)"
proof (induction k rs rule: find_unused.induct)
  case (2 k r rs)
  show ?case
  proof (cases "used r = 0")
    case True
    with 2 show ?thesis by auto
  next
    case False
    with 2 have "Suc k \<le> i" "i - Suc k < length rs" "used (rs ! (i - Suc k)) = 0"
      and "\<forall>j < i - Suc k. used (rs ! j) \<noteq> 0" by auto
    moreover from this have "i - k = Suc (i - Suc k)" by simp
    ultimately show ?thesis using False by (auto simp: nth_Cons split: nat.split)
  qed
qed simp

lemma find_unused_None: "find_unused k rs = None \<longleftrightarrow> (\<forall>r \<in> set rs. used r \<noteq> 0)"
  by (induction k rs rule: find_unused.induct) auto

lemma used_new_req [simp]: "used (new_req c cm type) = 1"
  by (simp add: new_req_def)

lemma zero_req_simps [simp]:
  "used zero_req = 0" "req_done zero_req = 0" "r_type zero_req = ReqNone"
  by (simp_all add: zero_req_def)

lemma in_use_upd:
  assumes "i < length rs"
  shows "in_use (rs[i := r]) = (if used r \<noteq> 0 then insert i (in_use rs) else in_use rs - {i})"
  using assms by (auto simp: in_use_def nth_list_update)

lemma in_use_all: "in_use rs = {..<length rs} \<longleftrightarrow> (\<forall>r \<in> set rs. used r \<noteq> 0)"
  by (auto simp: in_use_def set_conv_nth)

interpretation reqs: slot_pool NUM_REQUESTS req_array_ok in_use take_req drop_req
proof (unfold_locales, goal_cases)
  case (1 p)
  then show ?case by (auto simp: req_array_ok_def in_use_def)
next
  case (2 p x)
  then show ?case
    using in_use_all [of p]
    by (cases x) (simp add: take_req_def find_unused_None req_array_ok_def)
next
  case (3 p x i p')
  then have f: "find_unused 0 (take NUM_REQUESTS p) = Some i" and l: "length p = NUM_REQUESTS"
    and p': "\<exists>c cm type. p' = p[i := new_req c cm type]"
    by (auto simp: take_req_def req_array_ok_def split: prod.splits)
  have "i < length p" and "used (p ! i) = 0"
    using find_unused_Some [OF f] l by auto
  with p' l show ?case by (auto simp: in_use_upd req_array_ok_def) (simp add: in_use_def)
next
  case (4 p i)
  then show ?case
    by (simp add: drop_req_def req_array_ok_def in_use_def nth_list_update) auto
qed

text \<open>\<open>get_req\<close> is a take from the array of its communicator, \<open>put_req\<close> a free.\<close>

lemma get_req_take:
  assumes "comms s c = Some cm" and "type = ReqSend \<or> type = ReqRecv"
  shows "get_req P c type s =
    (case take_req (c, cm, type) (requests cm) of
       None \<Rightarrow> Ret (None, s)
     | Some (i, rs) \<Rightarrow> Ret (Some (c, i), store_comm c (cm\<lparr>requests := rs\<rparr>) s))"
  using assms by (auto simp: get_req_def load_comm_def take_req_def split: option.split)

lemma put_req_free:
  assumes "comms s c = Some cm" and "i < length (requests cm)"
  shows "put_req (c, i) s = Ret (store_comm c (cm\<lparr>requests := drop_req i (requests cm)\<rparr>) s)"
  using assms by (simp add: put_req_def drop_req_def)

section \<open>How many requests there are\<close>

text \<open>Taking requests for a list of operations, one after the other.\<close>

fun get_many ::
  "'w platform \<Rightarrow> addr \<Rightarrow> comm_req_type list \<Rightarrow> 'w plugin \<Rightarrow> (req_ptr option list \<times> 'w plugin) outcome"
  where
  "get_many P c [] s = Ret ([], s)"
| "get_many P c (t # ts) s =
     obind (get_req P c t s) (\<lambda>(ro, s1).
       obind (get_many P c ts s1) (\<lambda>(ros, s2). Ret (ro # ros, s2)))"

lemma new_req_requests [simp]: "new_req c (cm\<lparr>requests := rs\<rparr>) t = new_req c cm t"
  by (simp add: new_req_def)

lemma get_many_take_many:
  assumes "comms s c = Some (cm\<lparr>requests := rs\<rparr>)" and "set ts \<subseteq> {ReqSend, ReqRecv}"
    and "reqs.take_many (map (\<lambda>t. (c, cm, t)) ts) rs = Some (is, rs')"
  shows "get_many P c ts s =
    Ret (map (\<lambda>i. Some (c, i)) is, store_comm c (cm\<lparr>requests := rs'\<rparr>) s)"
  using assms
proof (induction ts arbitrary: s rs "is")
  case Nil
  then have "(comms s)(c \<mapsto> cm\<lparr>requests := rs'\<rparr>) = comms s" by (simp add: fun_upd_idem)
  with Nil show ?case by (simp add: store_comm_def)
next
  case (Cons t ts)
  then obtain i rs1 is' where t: "take_req (c, cm, t) rs = Some (i, rs1)"
    and ts: "reqs.take_many (map (\<lambda>t. (c, cm, t)) ts) rs1 = Some (is', rs')" and "is": "is = i # is'"
    by (auto split: option.splits)
  have t': "t = ReqSend \<or> t = ReqRecv" using Cons.prems(2) by simp
  have "take_req (c, cm\<lparr>requests := rs\<rparr>, t) rs = Some (i, rs1)" using t by (simp add: take_req_def)
  then have g: "get_req P c t s = Ret (Some (c, i), store_comm c (cm\<lparr>requests := rs1\<rparr>) s)"
    using get_req_take [OF Cons.prems(1) t', of P] by simp
  have "comms (store_comm c (cm\<lparr>requests := rs1\<rparr>) s) c = Some (cm\<lparr>requests := rs1\<rparr>)" by simp
  from Cons.IH [OF this _ ts] Cons.prems(2) show ?case by (simp add: g "is" store_comm_def)
qed

text \<open>
  C24: a communicator has 32 requests. As long as they suffice, any sequence of operations gets
  a request each, all different and none of them in use before; when all are in use the next
  one gets none and nothing changes, and giving one back makes a request available again.
\<close>

theorem get_req_capacity:
  assumes "comms s c = Some cm" and "req_array_ok (requests cm)"
    and "set ts \<subseteq> {ReqSend, ReqRecv}" and "card (in_use (requests cm)) + length ts \<le> 32"
    and "t = ReqSend \<or> t = ReqRecv"
  shows "returns (get_many P c ts s) (\<lambda>(ros, s'). \<exists>is cm'.
    ros = map (\<lambda>i. Some (c, i)) is \<and> length is = length ts \<and> distinct is \<and>
    set is \<inter> in_use (requests cm) = {} \<and> comms s' c = Some cm' \<and>
    in_use (requests cm') = set is \<union> in_use (requests cm) \<and>
    (card (in_use (requests cm)) + length ts = 32 \<longrightarrow> get_req P c t s' = Ret (None, s')) \<and>
    (\<forall>i \<in> in_use (requests cm').
       returns (put_req (c, i) s') (\<lambda>s2. returns (get_req P c t s2) (\<lambda>(ro, s3). ro \<noteq> None))))"
proof -
  let ?xs = "map (\<lambda>t. (c, cm, t)) ts"
  have n: "NUM_REQUESTS = 32" by (simp add: NUM_REQUESTS_def NCCL_NET_MAX_REQUESTS_def)
  have "reqs.take_many ?xs (requests cm) \<noteq> None"
    using reqs.take_many_capacity [OF assms(2), of ?xs] assms(4) n by simp
  then obtain "is" rs' where tm: "reqs.take_many ?xs (requests cm) = Some (is, rs')" by auto
  note d = reqs.take_many_distinct [OF assms(2) tm]
  have len: "length is = length ts"
  proof -
    have "reqs.take_many xs p = Some (js, q) \<Longrightarrow> length js = length xs" for xs p js q
      by (induction xs arbitrary: p js) (auto split: option.splits)
    from this [OF tm] show ?thesis by simp
  qed
  let ?cm' = "cm\<lparr>requests := rs'\<rparr>"
  let ?s' = "store_comm c ?cm' s"
  have g: "get_many P c ts s = Ret (map (\<lambda>i. Some (c, i)) is, ?s')"
    using get_many_take_many [where s = s and cm = cm, OF _ assms(3) tm] assms(1) by simp
  have c': "comms ?s' c = Some ?cm'" by simp
  have full: "get_req P c t ?s' = Ret (None, ?s')"
    if f: "card (in_use (requests cm)) + length ts = 32"
  proof -
    have "card (in_use rs') = card (set is) + card (in_use (requests cm))"
      using d card_Un_disjoint [of "set is" "in_use (requests cm)"] reqs.taken_finite [OF assms(2)]
      by simp
    also have "\<dots> = NUM_REQUESTS" using f d len n distinct_card [of "is"] by simp
    finally have "take_req (c, ?cm', t) rs' = None"
      using reqs.take_fails_iff [of rs'] d by blast
    then show ?thesis using get_req_take [OF c' assms(5), of P] by simp
  qed
  have again: "returns (put_req (c, i) ?s') (\<lambda>s2. returns (get_req P c t s2) (\<lambda>(ro, s3). ro \<noteq> None))"
    if i: "i \<in> in_use rs'" for i
  proof -
    have "i < length (requests ?cm')" using i by (simp add: in_use_def)
    from put_req_free [OF c' this]
    have p: "put_req (c, i) ?s' = Ret (store_comm c (?cm'\<lparr>requests := drop_req i rs'\<rparr>) ?s')" by simp
    have l2: "comms (store_comm c (?cm'\<lparr>requests := drop_req i rs'\<rparr>) ?s') c =
        Some (?cm'\<lparr>requests := drop_req i rs'\<rparr>)" by simp
    have "take_req (c, ?cm'\<lparr>requests := drop_req i rs'\<rparr>, t) (drop_req i rs') \<noteq> None"
      using reqs.take_after_free [of rs' i] d i by blast
    then show ?thesis
      unfolding p using get_req_take [OF l2 assms(5), of P] by auto
  qed
  show ?thesis
    using g c' d len full again by auto
qed

lemma get_req_capacity_witness:
  "\<exists>ros s'. get_many sim_platform 1 (replicate 32 ReqRecv)
      ((initial_plugin sim0)\<lparr>comms := [1 \<mapsto> zero_comm]\<rparr>) = Ret (ros, s') \<and>
    get_req sim_platform 1 ReqSend s' = Ret (None, s')"
proof -
  let ?s = "(initial_plugin sim0)\<lparr>comms := [1 \<mapsto> zero_comm]\<rparr>"
  have e: "in_use (requests zero_comm) = {}" by (auto simp: in_use_def zero_comm_def)
  have c: "comms ?s 1 = Some zero_comm" by simp
  have a: "req_array_ok (requests zero_comm)" by (simp add: req_array_ok_def zero_comm_def)
  show ?thesis
    using get_req_capacity [OF c a, of "replicate 32 ReqRecv" ReqSend sim_platform] e
    by (auto simp: returns_iff)
qed

end
