(* ===== verification/Endpoint.thy ===== *)
theory Endpoint
  imports Config Psm2_Contract
begin

text \<open>
  The life of a communicator: \<open>psm2comm_init_ep\<close>, \<open>psm2comm_init\<close> and
  \<open>psm2comm_fini\<close> of \<open>psm2_nccl_api.c\<close>, and the endpoint that communicators share.
\<close>

section \<open>psm2comm_init_ep\<close>

definition COMM_EP_CLOSE_TIMEOUT :: int where
  "COMM_EP_CLOSE_TIMEOUT = 5000000000"

text \<open>
  The check of the NCCL device against the device of the shared endpoint:
  \<open>None\<close> to go on, \<open>Some r\<close> to return \<open>r\<close>.
\<close>

definition check_unit :: "'w platform \<Rightarrow> int \<Rightarrow> 'w plugin \<Rightarrow> ncclResult option outcome" where
  "check_unit P dev s =
     (if use_nccl_dev_num s \<noteq> 0 \<and> use_shared_ep s \<noteq> 0 \<and> refcount (shared_ep s) \<noteq> 0 \<and>
         sh_unit (shared_ep s) \<noteq> dev
      then if shared_ep_multi_policy s = SHARED_EP_MULTI_ERROR then Ret (Some ncclInternalError)
        else if shared_ep_multi_policy s = SHARED_EP_MULTI_WARN then Ret None
        else c_assert (ndebug P) False (Ret (Some ncclInternalError))
      else Ret None)"

text \<open>
  The endpoint for the communicator: a new one, recorded as the shared one if endpoints
  are shared, or the shared one. \<open>None\<close> is an error return.
\<close>

definition obtain_ep ::
  "'w platform \<Rightarrow> int \<Rightarrow> uuid \<Rightarrow> 'w plugin \<Rightarrow> (addr \<times> 64 word) option \<times> 'w plugin" where
  "obtain_ep P dev uuid s =
     (if use_shared_ep s = 0 \<or> refcount (shared_ep s) = 0 then
        case psm2_ep_open_opts_get_defaults P (world s) of (rc, opts, w1) \<Rightarrow>
          if rc \<noteq> PSM2_OK P then (None, s\<lparr>world := w1\<rparr>)
          else
            let opts1 = (if use_nccl_dev_num s \<noteq> 0 then opts\<lparr>opt_unit := dev\<rparr> else opts) in
            case psm2_ep_open P uuid opts1 w1 of (rc2, e, i, w2) \<Rightarrow>
              let s2 = s\<lparr>world := w2\<rparr> in
              if rc2 \<noteq> PSM2_OK P then (None, s2)
              else if use_shared_ep s2 \<noteq> 0 then
                let sh = (shared_ep s2)\<lparr>sh_ep := e, sh_epid := i\<rparr>;
                    sh1 = (if use_nccl_dev_num s2 \<noteq> 0 then sh\<lparr>sh_unit := dev\<rparr> else sh)
                in (Some (e, i), s2\<lparr>shared_ep := sh1\<rparr>)
              else (Some (e, i), s2)
      else (Some (sh_ep (shared_ep s), sh_epid (shared_ep s)), s))"

text \<open>Recording the endpoint in the communicator and counting it.\<close>

definition attach_ep :: "addr \<Rightarrow> psm2comm \<Rightarrow> addr \<Rightarrow> 64 word \<Rightarrow> 'w plugin \<Rightarrow> 'w plugin" where
  "attach_ep c cm e i s =
     (let cm1 = cm\<lparr>ep := e, epid := i\<rparr> in
      if use_shared_ep s \<noteq> 0
      then store_comm c (cm1\<lparr>has_shared_ep := True\<rparr>)
             (s\<lparr>shared_ep := (shared_ep s)\<lparr>refcount := refcount (shared_ep s) + 1\<rparr>\<rparr>)
      else store_comm c cm1 s)"

definition psm2comm_init_ep ::
  "'w platform \<Rightarrow> int \<Rightarrow> uuid \<Rightarrow> addr \<Rightarrow> 'w plugin \<Rightarrow> (ncclResult \<times> 'w plugin) outcome" where
  "psm2comm_init_ep P dev uuid c s =
     obind (check_unit P dev s) (\<lambda>early.
       case early of
         Some r \<Rightarrow> Ret (r, s)
       | None \<Rightarrow>
           (case obtain_ep P dev uuid s of
              (None, s1) \<Rightarrow> Ret (ncclInternalError, s1)
            | (Some (e, i), s1) \<Rightarrow>
                obind (load_comm c s1) (\<lambda>cm. Ret (ncclSuccess, attach_ep c cm e i s1))))"

section \<open>psm2comm_fini\<close>

definition finalize_mq :: "'w platform \<Rightarrow> addr \<Rightarrow> psm2comm \<Rightarrow> 'w plugin \<Rightarrow> int \<times> 'w plugin" where
  "finalize_mq P c cm s =
     (if mq cm \<noteq> 0 then
        case psm2_mq_finalize P (mq cm) (world s) of (mqrc, w') \<Rightarrow>
          (mqrc, store_comm c (cm\<lparr>mq := 0\<rparr>) (s\<lparr>world := w'\<rparr>))
      else (PSM2_OK P, s))"

definition detach_ep :: "psm2comm \<Rightarrow> 'w plugin \<Rightarrow> 'w plugin" where
  "detach_ep cm s =
     (if has_shared_ep cm
      then s\<lparr>shared_ep := (shared_ep s)\<lparr>refcount := refcount (shared_ep s) - 1\<rparr>\<rparr>
      else s)"

definition release_ep :: "'w platform \<Rightarrow> psm2comm \<Rightarrow> 'w plugin \<Rightarrow> int \<times> 'w plugin" where
  "release_ep P cm s =
     (if ep cm \<noteq> 0 \<and> (\<not> has_shared_ep cm \<or> refcount (shared_ep s) = 0) then
        case psm2_ep_close P (ep cm) (PSM2_EP_CLOSE_GRACEFUL P) COMM_EP_CLOSE_TIMEOUT (world s) of
          (eprc, w') \<Rightarrow>
            let s1 = s\<lparr>world := w'\<rparr> in
            (eprc, if has_shared_ep cm then s1\<lparr>shared_ep := zero_shared_ep\<rparr> else s1)
      else (PSM2_OK P, s))"

definition psm2comm_fini ::
  "'w platform \<Rightarrow> addr \<Rightarrow> 'w plugin \<Rightarrow> (ncclResult \<times> 'w plugin) outcome" where
  "psm2comm_fini P c s =
     obind (load_comm c s) (\<lambda>cm.
       case finalize_mq P c cm s of (mqrc, s1) \<Rightarrow>
       case release_ep P cm (detach_ep cm s1) of (eprc, s2) \<Rightarrow>
         obind (free_comm c s2) (\<lambda>s3.
           Ret (if mqrc = PSM2_OK P \<and> eprc = PSM2_OK P then ncclSuccess
                else ncclInternalError, s3)))"

section \<open>psm2comm_init\<close>

text \<open>The value of \<open>*comm\<close> (NULL on failure) is the second component.\<close>

definition psm2comm_bail ::
  "'w platform \<Rightarrow> addr \<Rightarrow> 'w plugin \<Rightarrow> (ncclResult \<times> addr \<times> 'w plugin) outcome" where
  "psm2comm_bail P c s =
     obind (psm2comm_fini P c s) (\<lambda>(_, s1). Ret (ncclInternalError, 0, s1))"

definition init_mq ::
  "'w platform \<Rightarrow> addr \<Rightarrow> 'w plugin \<Rightarrow> (ncclResult \<times> addr \<times> 'w plugin) outcome" where
  "init_mq P c s =
     obind (load_comm c s) (\<lambda>cm.
       case psm2_mq_init P (ep cm) (PSM2_MQ_ORDERMASK_NONE P) (world s) of (rc, q, w') \<Rightarrow>
         let s1 = store_comm c (cm\<lparr>mq := q\<rparr>) (s\<lparr>world := w'\<rparr>) in
         if rc \<noteq> PSM2_OK P then psm2comm_bail P c s1 else Ret (ncclSuccess, c, s1))"

definition psm2comm_init ::
  "'w platform \<Rightarrow> int \<Rightarrow> uuid \<Rightarrow> 'w plugin \<Rightarrow> (ncclResult \<times> addr \<times> 'w plugin) outcome" where
  "psm2comm_init P dev uuid s =
     c_assert (ndebug P) (sizeof_psm2comm_handle \<le> NCCL_NET_HANDLE_MAXSIZE)
       (if NCCL_NET_HANDLE_MAXSIZE < sizeof_psm2comm_handle then Ret (ncclInternalError, 0, s)
        else case calloc_comm P s of (c, s1) \<Rightarrow>
          if c = 0 then Ret (ncclInternalError, 0, s1)
          else obind (psm2comm_init_ep P dev uuid c s1) (\<lambda>(rc, s2).
            if rc \<noteq> ncclSuccess then psm2comm_bail P c s2 else init_mq P c s2))"

section \<open>The invariant\<close>

text \<open>
  The communicators that hold a reference to the shared endpoint, and the invariant: the
  reference count is their number, they all use the recorded endpoint, it is open while
  there is one of them, and a private endpoint belongs to one communicator only and is
  open as well. \<open>opened\<close> is the ghost view of the library's open endpoints.
\<close>

definition sharers :: "(addr \<Rightarrow> psm2comm option) \<Rightarrow> addr set" where
  "sharers cs = {c. \<exists>cm. cs c = Some cm \<and> has_shared_ep cm}"

definition sharing_ok :: "addr set \<Rightarrow> shared_ep_t \<Rightarrow> (addr \<Rightarrow> psm2comm option) \<Rightarrow> bool" where
  "sharing_ok op sh cs \<longleftrightarrow>
     (\<forall>c cm. cs c = Some cm \<longrightarrow> has_shared_ep cm \<longrightarrow>
        ep cm = sh_ep sh \<and> epid cm = sh_epid sh \<and> sh_ep sh \<noteq> 0 \<and> sh_ep sh \<in> op)"

definition private_ok :: "addr set \<Rightarrow> (addr \<Rightarrow> psm2comm option) \<Rightarrow> bool" where
  "private_ok op cs \<longleftrightarrow>
     (\<forall>c cm. cs c = Some cm \<longrightarrow> \<not> has_shared_ep cm \<longrightarrow> ep cm \<noteq> 0 \<longrightarrow>
        ep cm \<in> op \<and> (\<forall>c' cm'. cs c' = Some cm' \<longrightarrow> c' \<noteq> c \<longrightarrow> ep cm' \<noteq> ep cm))"

definition ep_inv :: "addr set \<Rightarrow> 'w plugin \<Rightarrow> bool" where
  "ep_inv op s \<longleftrightarrow>
     finite (dom (comms s)) \<and> card (sharers (comms s)) < 2 ^ 32 \<and>
     refcount (shared_ep s) = of_nat (card (sharers (comms s))) \<and>
     sharing_ok op (shared_ep s) (comms s) \<and> private_ok op (comms s)"

lemma ep_inv_initial: "ep_inv op (initial_plugin w)"
  by (simp add: ep_inv_def sharers_def zero_shared_ep_def sharing_ok_def private_ok_def)

lemma sharers_subset: "sharers cs \<subseteq> dom cs"
  by (auto simp: sharers_def)

lemma sharers_upd:
  "sharers (cs(c \<mapsto> cm)) = (if has_shared_ep cm then insert c (sharers cs) else sharers cs - {c})"
  "sharers (cs(c := None)) = sharers cs - {c}"
  by (auto simp: sharers_def)

lemma ep_inv_finite: "ep_inv op s \<Longrightarrow> finite (sharers (comms s))"
  using finite_subset [OF sharers_subset] by (auto simp: ep_inv_def)

lemma unat_of_nat_u32: "n < 2 ^ 32 \<Longrightarrow> unat (of_nat n :: 32 word) = n"
  by (simp add: unsigned_of_nat take_bit_nat_eq_self)

lemma of_nat_u32_eq_0: "n < 2 ^ 32 \<Longrightarrow> (of_nat n :: 32 word) = 0 \<longleftrightarrow> n = 0"
proof -
  assume "n < 2 ^ 32"
  then have "unat (of_nat n :: 32 word) = n" by (rule unat_of_nat_u32)
  then show ?thesis using unat_eq_0 [of "of_nat n :: 32 word"] by simp
qed

lemma sharing_ok_none: "sharers cs = {} \<Longrightarrow> sharing_ok op sh cs"
  by (auto simp: sharers_def sharing_ok_def)

lemma unat_refcount:
  assumes "ep_inv op s"
  shows "unat (refcount (shared_ep s)) = card (sharers (comms s))"
proof -
  have "card (sharers (comms s)) < 2 ^ 32" and
    "refcount (shared_ep s) = of_nat (card (sharers (comms s)))"
    using assms by (simp_all add: ep_inv_def)
  then show ?thesis by (simp add: unat_of_nat_u32)
qed

lemma refcount_0_iff:
  assumes "ep_inv op s"
  shows "refcount (shared_ep s) = 0 \<longleftrightarrow> sharers (comms s) = {}"
  using unat_refcount [OF assms] ep_inv_finite [OF assms] by (metis card_eq_0_iff unat_eq_0)

text \<open>The parts of the invariant, as rules.\<close>

lemma ep_inv_shared:
  assumes "ep_inv op s" and "comms s c = Some cm" and "has_shared_ep cm"
  shows "ep cm = sh_ep (shared_ep s)" and "epid cm = sh_epid (shared_ep s)"
    and "sh_ep (shared_ep s) \<noteq> 0" and "sh_ep (shared_ep s) \<in> op"
  using assms unfolding ep_inv_def sharing_ok_def private_ok_def by blast+

lemma ep_inv_private:
  assumes "ep_inv op s" and "comms s c = Some cm" and "\<not> has_shared_ep cm" and "ep cm \<noteq> 0"
  shows "ep cm \<in> op" and "comms s c' = Some cm' \<Longrightarrow> c' \<noteq> c \<Longrightarrow> ep cm' \<noteq> ep cm"
  using assms unfolding ep_inv_def sharing_ok_def private_ok_def by blast+

lemma ep_inv_open:
  assumes "ep_inv op s" and "comms s c = Some cm" and "ep cm \<noteq> 0"
  shows "ep cm \<in> op"
proof (cases "has_shared_ep cm")
  case True
  then show ?thesis using ep_inv_shared [OF assms(1,2)] by simp
next
  case False
  then show ?thesis using ep_inv_private(1) [OF assms(1,2)] assms(3) by simp
qed

lemma ep_inv_mono: "ep_inv op s \<Longrightarrow> op \<subseteq> op' \<Longrightarrow> ep_inv op' s"
  unfolding ep_inv_def sharing_ok_def private_ok_def by blast

lemma ep_inv_cong:
  "ep_inv op s \<Longrightarrow> comms s' = comms s \<Longrightarrow> shared_ep s' = shared_ep s \<Longrightarrow> ep_inv op s'"
  by (simp add: ep_inv_def)

text \<open>The invariant only looks at these three members of a communicator.\<close>

definition ep_view :: "psm2comm \<Rightarrow> addr \<times> 64 word \<times> bool" where
  "ep_view cm = (ep cm, epid cm, has_shared_ep cm)"

lemma ep_inv_view:
  assumes "ep_inv op s" and "comms s c = Some cm" and "ep_view cm1 = ep_view cm"
    and "comms s' = (comms s)(c \<mapsto> cm1)" and "shared_ep s' = shared_ep s"
  shows "ep_inv op s'"
proof -
  have v: "ep cm1 = ep cm" "epid cm1 = epid cm" "has_shared_ep cm1 = has_shared_ep cm"
    using assms(3) by (simp_all add: ep_view_def)
  have old: "\<exists>dm0. comms s d = Some dm0 \<and> ep dm0 = ep dm \<and> epid dm0 = epid dm \<and>
      has_shared_ep dm0 = has_shared_ep dm" if "((comms s)(c \<mapsto> cm1)) d = Some dm" for d dm
    using that assms(2) v by (auto split: if_splits)
  have "sharers ((comms s)(c \<mapsto> cm1)) = sharers (comms s)"
    using assms(2) v by (auto simp: sharers_def)
  moreover have "sharing_ok op (shared_ep s) ((comms s)(c \<mapsto> cm1))"
    using assms(1) old unfolding ep_inv_def sharing_ok_def by metis
  moreover have "private_ok op ((comms s)(c \<mapsto> cm1))"
    using assms(1) old unfolding ep_inv_def private_ok_def by metis
  ultimately show ?thesis
    using assms(1,4,5) by (simp add: ep_inv_def)
qed

text \<open>Adding a communicator whose endpoint nobody else owns.\<close>

lemma private_ok_upd:
  assumes "private_ok op cs" and "ep cm1 \<in> op"
    and "\<And>d dm. cs d = Some dm \<Longrightarrow> d \<noteq> c \<Longrightarrow> \<not> has_shared_ep dm \<or> \<not> has_shared_ep cm1 \<Longrightarrow>
      ep dm \<noteq> ep cm1"
  shows "private_ok op (cs(c \<mapsto> cm1))"
  unfolding private_ok_def
proof (intro allI impI)
  fix d dm assume d: "(cs(c \<mapsto> cm1)) d = Some dm" "\<not> has_shared_ep dm" "ep dm \<noteq> 0"
  show "ep dm \<in> op \<and> (\<forall>d' dm'. (cs(c \<mapsto> cm1)) d' = Some dm' \<longrightarrow> d' \<noteq> d \<longrightarrow> ep dm' \<noteq> ep dm)"
  proof (cases "d = c")
    case True
    then show ?thesis using d assms(2,3) by auto
  next
    case False
    then have c: "cs d = Some dm" using d by simp
    then have "ep dm \<in> op \<and> (\<forall>d' dm'. cs d' = Some dm' \<longrightarrow> d' \<noteq> d \<longrightarrow> ep dm' \<noteq> ep dm)"
      using d(2,3) assms(1) unfolding private_ok_def by blast
    then show ?thesis using False d(2) c assms(3) [of d dm] by auto
  qed
qed

section \<open>Obtaining and attaching an endpoint\<close>

text \<open>What is known of an endpoint that is about to be attached.\<close>

definition ep_ready :: "addr \<Rightarrow> 64 word \<Rightarrow> addr set \<Rightarrow> 'w plugin \<Rightarrow> bool" where
  "ep_ready e i op s \<longleftrightarrow> e \<noteq> 0 \<and> e \<in> op \<and>
     (if use_shared_ep s \<noteq> 0
      then sh_ep (shared_ep s) = e \<and> sh_epid (shared_ep s) = i \<and>
        (\<forall>c cm. comms s c = Some cm \<longrightarrow> \<not> has_shared_ep cm \<longrightarrow> ep cm \<noteq> e)
      else (\<forall>c cm. comms s c = Some cm \<longrightarrow> ep cm \<noteq> e))"

lemma new_ep_ready:
  assumes "ep_inv op s" and "e \<noteq> 0" and "e \<notin> op"
  shows "comms s c = Some cm \<Longrightarrow> ep cm \<noteq> e"
  using assms ep_inv_open by blast

lemma obtain_ep_inv:
  assumes "ep_contract P opened" and "ep_inv (opened (world s)) s"
    and "obtain_ep P dev uuid s = (r, s1)"
  shows "comms s1 = comms s \<and> same_globals s s1 \<and> allocs s1 = allocs s \<and>
    control_calls P (world s) (world s1) \<and> ep_inv (opened (world s1)) s1 \<and>
    (\<forall>e i. r = Some (e, i) \<longrightarrow> ep_ready e i (opened (world s1)) s1)"
proof (cases "use_shared_ep s = 0 \<or> refcount (shared_ep s) = 0")
  case False
  then obtain c cm where "comms s c = Some cm" and "has_shared_ep cm"
    using refcount_0_iff [OF assms(2)] by (auto simp: sharers_def)
  note sh = ep_inv_shared [OF assms(2) this]
  have "comms s d = Some dm \<Longrightarrow> \<not> has_shared_ep dm \<Longrightarrow> ep dm \<noteq> sh_ep (shared_ep s)" for d dm
    using ep_inv_private(2) [OF assms(2), of d dm c cm] sh \<open>comms s c = Some cm\<close>
      \<open>has_shared_ep cm\<close> by (cases "d = c") auto
  then show ?thesis
    using False assms(2,3) sh by (auto simp: obtain_ep_def ep_ready_def)
next
  case True
  obtain rc opts w1 where d: "psm2_ep_open_opts_get_defaults P (world s) = (rc, opts, w1)"
    by (metis prod_cases3)
  then have q: "quiet_call P (world s) w1" by (rule q_sys [OF s_opts])
  then have o1: "opened w1 = opened (world s)" by (rule ep_contract_quiet(1) [OF assms(1)])
  have c1: "control_calls P (world s) w1" using q by (blast intro: control_calls.intros)
  let ?opts = "if use_nccl_dev_num s \<noteq> 0 then opts\<lparr>opt_unit := dev\<rparr> else opts"
  obtain rc2 e i w2 where op: "psm2_ep_open P uuid ?opts w1 = (rc2, e, i, w2)"
    by (metis prod_cases4)
  have c2: "control_calls P (world s) w2" using c1 op by (blast intro: control_calls.intros)
  note o2 = ep_contract_open [OF assms(1) op]
  show ?thesis
  proof (cases "rc = PSM2_OK P \<and> rc2 = PSM2_OK P")
    case ok: True
    then have e: "e \<noteq> 0" "e \<notin> opened (world s)" "opened w2 = insert e (opened (world s))"
      using o2 o1 by auto
    have new: "comms s c = Some cm \<Longrightarrow> ep cm \<noteq> e" for c cm
      using assms(2) e by (blast dest: new_ep_ready)
    have inv2: "ep_inv (opened w2) s" using assms(2) e(3) by (blast intro: ep_inv_mono)
    show ?thesis
    proof (cases "use_shared_ep s = 0")
      case True
      then have "ep_ready e i (opened w2) (s\<lparr>world := w2\<rparr>)"
        using e new unfolding ep_ready_def by simp
      then show ?thesis
        using True assms(3) d op ok c2 inv2
        by (auto simp: obtain_ep_def elim!: ep_inv_cong)
    next
      case False
      then have "sharers (comms s) = {}" using True refcount_0_iff [OF assms(2)] by simp
      then have "ep_inv (opened w2) (s\<lparr>world := w2, shared_ep := sh\<rparr>)"
        if "refcount sh = refcount (shared_ep s)" for sh
        using inv2 that by (auto simp: ep_inv_def sharers_def sharing_ok_def)
      moreover have "ep_ready e i (opened w2) (s\<lparr>world := w2, shared_ep := sh\<rparr>)"
        if "sh_ep sh = e" and "sh_epid sh = i" for sh
        using False e new that unfolding ep_ready_def by simp
      ultimately show ?thesis
        using False True assms(3) d op ok c2
        by (auto simp: obtain_ep_def Let_def split: if_splits)
    qed
  next
    case bad: False
    show ?thesis
    proof (cases "rc = PSM2_OK P")
      case True
      then have "opened w2 = opened (world s)" using bad o2 o1 by simp
      then show ?thesis
        using True bad \<open>use_shared_ep s = 0 \<or> refcount (shared_ep s) = 0\<close> assms(2,3) d op c2
        by (auto simp: obtain_ep_def elim!: ep_inv_cong)
    next
      case False
      then show ?thesis
        using \<open>use_shared_ep s = 0 \<or> refcount (shared_ep s) = 0\<close> assms(2,3) d c1 o1
        by (auto simp: obtain_ep_def elim!: ep_inv_cong)
    qed
  qed
qed

text \<open>A communicator that has no endpoint yet.\<close>

definition bare :: "psm2comm \<Rightarrow> bool" where
  "bare cm \<longleftrightarrow> ep cm = 0 \<and> \<not> has_shared_ep cm"

lemma attach_ep_inv:
  assumes "ep_inv op s" and "ep_ready e i op s" and "comms s c = Some cm" and "bare cm"
    and "card (dom (comms s)) < 2 ^ 32"
  shows "ep_inv op (attach_ep c cm e i s)"
proof -
  let ?cm1 = "cm\<lparr>ep := e, epid := i\<rparr>" and ?cm2 = "cm\<lparr>ep := e, epid := i, has_shared_ep := True\<rparr>"
  have fin: "finite (dom (comms s))" and e: "e \<in> op" "e \<noteq> 0"
    and sok: "sharing_ok op (shared_ep s) (comms s)" and pok: "private_ok op (comms s)"
    and rc: "refcount (shared_ep s) = of_nat (card (sharers (comms s)))"
    and cs: "card (sharers (comms s)) < 2 ^ 32"
    using assms(1,2) by (simp_all add: ep_inv_def ep_ready_def)
  show ?thesis
  proof (cases "use_shared_ep s = 0")
    case True
    then have "comms s d = Some dm \<Longrightarrow> ep dm \<noteq> e" for d dm
      using assms(2) by (simp add: ep_ready_def)
    then have "private_ok op ((comms s)(c \<mapsto> ?cm1))"
      using pok e by (intro private_ok_upd) auto
    moreover have "sharers ((comms s)(c \<mapsto> ?cm1)) = sharers (comms s)"
      using assms(3,4) by (auto simp: sharers_def bare_def)
    moreover have "sharing_ok op (shared_ep s) ((comms s)(c \<mapsto> ?cm1))"
      using sok assms(4) by (simp add: sharing_ok_def bare_def)
    ultimately show ?thesis
      using True fin rc cs by (simp add: attach_ep_def ep_inv_def)
  next
    case False
    then have rdy: "sh_ep (shared_ep s) = e" "sh_epid (shared_ep s) = i"
      and new: "comms s d = Some dm \<Longrightarrow> \<not> has_shared_ep dm \<Longrightarrow> ep dm \<noteq> e" for d dm
      using assms(2) by (simp_all add: ep_ready_def)
    have "private_ok op ((comms s)(c \<mapsto> ?cm2))"
      using pok e new by (intro private_ok_upd) auto
    moreover have "sharing_ok op (shared_ep s) ((comms s)(c \<mapsto> ?cm2))"
      using sok e rdy by (simp add: sharing_ok_def)
    moreover have sh: "sharers ((comms s)(c \<mapsto> ?cm2)) = insert c (sharers (comms s))"
      and "c \<notin> sharers (comms s)"
      using assms(3,4) by (auto simp: sharers_def bare_def)
    moreover from this have "card (insert c (sharers (comms s))) = Suc (card (sharers (comms s)))"
      using ep_inv_finite [OF assms(1)] by simp
    moreover have "insert c (sharers (comms s)) \<subseteq> dom (comms s)"
      using assms(3) by (auto simp: sharers_def)
    then have "card (insert c (sharers (comms s))) < 2 ^ 32"
      using card_mono [OF fin] assms(5) by (meson le_less_trans)
    ultimately show ?thesis
      using False fin rc by (simp add: attach_ep_def Let_def ep_inv_def sharing_ok_def)
  qed
qed

section \<open>Closing a communicator\<close>

lemma finalize_mq_inv:
  assumes "ep_contract P opened" and "ep_inv (opened (world s)) s" and "comms s c = Some cm"
    and "finalize_mq P c cm s = (rc, s1)"
  shows "(\<exists>cm1. comms s1 = (comms s)(c \<mapsto> cm1) \<and> ep cm1 = ep cm \<and>
      has_shared_ep cm1 = has_shared_ep cm) \<and> same_globals s s1 \<and> allocs s1 = allocs s \<and>
    shared_ep s1 = shared_ep s \<and> control_calls P (world s) (world s1) \<and>
    opened (world s1) = opened (world s) \<and> ep_inv (opened (world s1)) s1"
proof (cases "mq cm = 0")
  case True
  then have s1: "s1 = s" using assms(4) by (simp add: finalize_mq_def)
  have "comms s = (comms s)(c \<mapsto> cm)" using assms(3) by (rule fun_upd_idem [symmetric])
  then show ?thesis
    using assms(2) same_globals_refl cc_refl unfolding s1 by blast
next
  case False
  obtain mrc w' where m: "psm2_mq_finalize P (mq cm) (world s) = (mrc, w')" by fastforce
  have o: "opened w' = opened (world s)" using ep_contract_quiet(2) [OF assms(1) m] .
  let ?s1 = "store_comm c (cm\<lparr>mq := 0\<rparr>) (s\<lparr>world := w'\<rparr>)"
  have s1: "s1 = ?s1" using False assms(4) m by (simp add: finalize_mq_def)
  have inv: "ep_inv (opened (world s)) ?s1"
    by (rule ep_inv_view [OF assms(2,3)]) (simp_all add: ep_view_def)
  have cc: "control_calls P (world s) w'" by (rule cc_finalize [OF cc_refl m])
  have "\<exists>cm1. comms ?s1 = (comms s)(c \<mapsto> cm1) \<and> ep cm1 = ep cm \<and>
      has_shared_ep cm1 = has_shared_ep cm"
    by (rule exI [of _ "cm\<lparr>mq := 0\<rparr>"]) simp
  then show ?thesis
    using cc o inv unfolding s1 by simp
qed

text \<open>
  The last steps of \<open>psm2comm_fini\<close>: the endpoint is closed exactly when no other live
  communicator uses it.
\<close>

lemma release_last:
  assumes "ep_inv op s" and "comms s c = Some cm" and "has_shared_ep cm"
  shows "refcount (shared_ep s) - 1 = of_nat (card (sharers (comms s) - {c}))"
    and "refcount (shared_ep s) - 1 = 0 \<longleftrightarrow> sharers (comms s) - {c} = {}"
proof -
  have c: "c \<in> sharers (comms s)" using assms(2,3) by (auto simp: sharers_def)
  have fin: "finite (sharers (comms s))" using assms(1) by (rule ep_inv_finite)
  have n: "card (sharers (comms s)) = Suc (card (sharers (comms s) - {c}))"
    using card.remove [OF fin c] .
  have rc: "refcount (shared_ep s) = of_nat (card (sharers (comms s)))"
    and "card (sharers (comms s)) < 2 ^ 32"
    using assms(1) by (simp_all add: ep_inv_def)
  then have b: "card (sharers (comms s) - {c}) < 2 ^ 32" unfolding n by linarith
  show r: "refcount (shared_ep s) - 1 = of_nat (card (sharers (comms s) - {c}))"
    unfolding rc n by simp
  have "card (sharers (comms s) - {c}) = 0 \<longleftrightarrow> sharers (comms s) - {c} = {}"
    using fin by (intro card_0_eq) blast
  then show "refcount (shared_ep s) - 1 = 0 \<longleftrightarrow> sharers (comms s) - {c} = {}"
    unfolding r of_nat_u32_eq_0 [OF b] .
qed

lemma release_ep_inv:
  assumes "ep_contract P opened" and "ep_inv (opened (world s)) s" and "comms s c = Some cm0"
    and "ep cm = ep cm0" and "has_shared_ep cm = has_shared_ep cm0"
    and "release_ep P cm (detach_ep cm s) = (rc, s1)"
  shows "same_globals s s1 \<and> comms s1 = comms s \<and> allocs s1 = allocs s \<and>
    control_calls P (world s) (world s1) \<and>
    ep_inv (opened (world s1)) (s1\<lparr>comms := (comms s)(c := None)\<rparr>)"
proof -
  have inv: "finite (dom (comms s))" "card (sharers (comms s)) < 2 ^ 32"
    "refcount (shared_ep s) = of_nat (card (sharers (comms s)))"
    "sharing_ok (opened (world s)) (shared_ep s) (comms s)" "private_ok (opened (world s)) (comms s)"
    using assms(2) by (simp_all add: ep_inv_def)
  have sh: "sharers ((comms s)(c := None)) = sharers (comms s) - {c}"
    by (rule sharers_upd)
  have cd: "card (sharers (comms s) - {c}) < 2 ^ 32"
    using inv(2) card_mono [OF ep_inv_finite [OF assms(2)], of "sharers (comms s) - {c}"]
    by (meson Diff_subset le_less_trans)
  let ?close = "ep cm \<noteq> 0 \<and> (\<not> has_shared_ep cm \<or> refcount (shared_ep s) - 1 = 0)"
  show ?thesis
  proof (cases ?close)
    case True
    obtain erc w' where cl: "psm2_ep_close P (ep cm) (PSM2_EP_CLOSE_GRACEFUL P)
        COMM_EP_CLOSE_TIMEOUT (world s) = (erc, w')" by fastforce
    have op: "opened (world s) - {ep cm} \<subseteq> opened w'"
      using ep_contract_close [OF assms(1) cl] by blast
    have cc: "control_calls P (world s) w'" using cl by (blast intro: control_calls.intros)
    have others: "ep dm \<noteq> ep cm" if "comms s d = Some dm" and "d \<noteq> c" and
      "\<not> has_shared_ep dm \<and> ep dm \<noteq> 0 \<or> \<not> has_shared_ep cm" for d dm
      using that True assms(3-5) ep_inv_private(2) [OF assms(2)] by metis
    have po: "private_ok (opened w') ((comms s)(c := None))"
      unfolding private_ok_def
    proof (intro allI impI)
      fix d dm assume d: "((comms s)(c := None)) d = Some dm" "\<not> has_shared_ep dm" "ep dm \<noteq> 0"
      then have dc: "comms s d = Some dm" "d \<noteq> c" by (auto split: if_splits)
      then have "ep dm \<in> opened w'"
        using others [OF dc] d(2,3) ep_inv_open [OF assms(2) dc(1) d(3)] op by blast
      moreover have "ep dm' \<noteq> ep dm" if "comms s d' = Some dm'" and "d' \<noteq> d" for d' dm'
        using ep_inv_private(2) [OF assms(2) dc(1) d(2,3) that] .
      ultimately show "ep dm \<in> opened w' \<and> (\<forall>d' dm'. ((comms s)(c := None)) d' = Some dm' \<longrightarrow>
          d' \<noteq> d \<longrightarrow> ep dm' \<noteq> ep dm)"
        by (auto split: if_splits)
    qed
    show ?thesis
    proof (cases "has_shared_ep cm")
      case shared: True
      then have "sharers (comms s) - {c} = {}"
        using True release_last(2) [OF assms(2,3)] assms(5) by simp
      then have "sharers ((comms s)(c := None)) = {}" using sh by simp
      then have "ep_inv (opened w') (s\<lparr>world := w', shared_ep := zero_shared_ep,
          comms := (comms s)(c := None)\<rparr>)"
        using inv(1) po sharing_ok_none by (simp add: ep_inv_def zero_shared_ep_def)
      then show ?thesis
        using shared True assms(6) cl cc by (auto simp: release_ep_def detach_ep_def Let_def)
    next
      case own: False
      have "sharing_ok (opened w') (shared_ep s) ((comms s)(c := None))"
        unfolding sharing_ok_def
      proof (intro allI impI)
        fix d dm assume d: "((comms s)(c := None)) d = Some dm" "has_shared_ep dm"
        then have dc: "comms s d = Some dm" "d \<noteq> c" by (auto split: if_splits)
        note sh = ep_inv_shared [OF assms(2) dc(1) d(2)]
        have "sh_ep (shared_ep s) \<in> opened w'"
          using sh others [OF dc] own op by auto
        then show "ep dm = sh_ep (shared_ep s) \<and> epid dm = sh_epid (shared_ep s) \<and>
            sh_ep (shared_ep s) \<noteq> 0 \<and> sh_ep (shared_ep s) \<in> opened w'"
          using sh by simp
      qed
      moreover have "c \<notin> sharers (comms s)" using own assms(3,5) by (simp add: sharers_def)
      ultimately have "ep_inv (opened w') (s\<lparr>world := w', comms := (comms s)(c := None)\<rparr>)"
        using inv po sh by (simp add: ep_inv_def)
      then show ?thesis
        using own True assms(6) cl cc by (auto simp: release_ep_def detach_ep_def Let_def)
    qed
  next
    case False
    have so: "sharing_ok (opened (world s)) sh ((comms s)(c := None))"
      if "sh_ep sh = sh_ep (shared_ep s)" and "sh_epid sh = sh_epid (shared_ep s)" for sh
      using inv(4) that unfolding sharing_ok_def by (auto split: if_splits)
    have po: "private_ok (opened (world s)) ((comms s)(c := None))"
      using inv(5) unfolding private_ok_def by (auto split: if_splits)
    show ?thesis
    proof (cases "has_shared_ep cm")
      case shared: True
      let ?s1 = "s\<lparr>shared_ep := (shared_ep s)\<lparr>refcount := refcount (shared_ep s) - 1\<rparr>\<rparr>"
      have "ep cm \<noteq> 0" using shared assms(4,5) ep_inv_shared [OF assms(2,3)] by simp
      then have "s1 = ?s1"
        using shared False assms(6) by (simp add: release_ep_def detach_ep_def)
      moreover have "ep_inv (opened (world s)) (?s1\<lparr>comms := (comms s)(c := None)\<rparr>)"
        using inv(1) cd so po sh release_last(1) [OF assms(2,3)] shared assms(5)
        by (simp add: ep_inv_def)
      ultimately show ?thesis by simp
    next
      case own: False
      then have "s1 = s" using False assms(6) by (simp add: release_ep_def detach_ep_def)
      moreover have "c \<notin> sharers (comms s)" using own assms(3,5) by (simp add: sharers_def)
      ultimately show ?thesis using inv so po sh by (simp add: ep_inv_def)
    qed
  qed
qed

end
