(* ===== verification/Comm_Life.thy ===== *)
theory Comm_Life
  imports Endpoint Hfi_Sysclass Requests
begin

text \<open>
  What creating and destroying a communicator does: \<open>psm2comm_init\<close> returns a fresh
  communicator or leaves none behind, \<open>psm2comm_fini\<close> removes exactly the one it is
  given, and both keep the invariant of the endpoints. The interface \<open>lifecycle\<close> states
  this for any kind of object that a call creates and another destroys.
\<close>

section \<open>The interface\<close>

text \<open>
  \<open>create x s k s'\<close>: a call with arguments \<open>x\<close> makes the object \<open>k\<close>;
  \<open>destroy k s s'\<close>: a call destroys it.
\<close>

locale lifecycle =
  fixes invar :: "'s \<Rightarrow> bool"
    and live :: "'s \<Rightarrow> 'k set"
    and create :: "'x \<Rightarrow> 's \<Rightarrow> 'k \<Rightarrow> 's \<Rightarrow> bool"
    and destroy :: "'k \<Rightarrow> 's \<Rightarrow> 's \<Rightarrow> bool"
  assumes live_finite: "invar s \<Longrightarrow> finite (live s)"
    and create_new: "invar s \<Longrightarrow> create x s k s' \<Longrightarrow>
      k \<notin> live s \<and> live s' = insert k (live s) \<and> invar s'"
    and destroy_old: "invar s \<Longrightarrow> k \<in> live s \<Longrightarrow> destroy k s s' \<Longrightarrow>
      live s' = live s - {k} \<and> invar s'"
    and destroy_total: "invar s \<Longrightarrow> k \<in> live s \<Longrightarrow> \<exists>s'. destroy k s s'"
begin

text \<open>Destroying a list of distinct objects, one call after the other.\<close>

inductive destroys :: "'k list \<Rightarrow> 's \<Rightarrow> 's \<Rightarrow> bool" where
  d_nil: "destroys [] s s"
| d_cons: "destroy k s s1 \<Longrightarrow> destroys ks s1 s2 \<Longrightarrow> destroys (k # ks) s s2"

lemma destroys_result:
  "destroys ks s s' \<Longrightarrow> invar s \<Longrightarrow> distinct ks \<Longrightarrow> set ks \<subseteq> live s \<Longrightarrow>
     live s' = live s - set ks \<and> invar s'"
proof (induction rule: destroys.induct)
  case (d_cons k s s1 ks s2)
  have "live s1 = live s - {k}" and "invar s1"
    using destroy_old [of s k s1] d_cons by auto
  with d_cons show ?case by auto
qed simp

lemma destroys_total:
  "invar s \<Longrightarrow> distinct ks \<Longrightarrow> set ks \<subseteq> live s \<Longrightarrow> \<exists>s'. destroys ks s s'"
proof (induction ks arbitrary: s)
  case Nil
  then show ?case by (blast intro: d_nil)
next
  case (Cons k ks)
  then obtain s1 where s1: "destroy k s s1" using destroy_total [of s k] by auto
  then have "live s1 = live s - {k}" and "invar s1"
    using destroy_old [of s k s1] Cons.prems by auto
  then obtain s2 where "destroys ks s1 s2" using Cons.IH [of s1] Cons.prems by auto
  then show ?case using s1 by (blast intro: d_cons)
qed

lemma create_card: "invar s \<Longrightarrow> create x s k s' \<Longrightarrow> card (live s') = Suc (card (live s))"
  using create_new live_finite by fastforce

lemma create_destroy:
  "invar s \<Longrightarrow> create x s k s1 \<Longrightarrow> destroy k s1 s2 \<Longrightarrow> live s2 = live s \<and> invar s2"
  using create_new [of s x k s1] destroy_old [of s1 k s2] by auto

lemma create_twice: "invar s \<Longrightarrow> create x s k s1 \<Longrightarrow> create y s1 j s2 \<Longrightarrow> j \<noteq> k"
  using create_new [of s x k s1] create_new [of s1 y j s2] by auto

text \<open>The objects can all be destroyed, in any order, and then none is left.\<close>

lemma tear_down:
  assumes "invar s" and "distinct ks" and "set ks = live s"
  shows "\<exists>s'. destroys ks s s' \<and> live s' = {} \<and> invar s'"
proof -
  obtain s' where "destroys ks s s'" using destroys_total [OF assms(1,2)] assms(3) by auto
  with destroys_result [OF this assms(1,2)] assms(3) show ?thesis by auto
qed

end

section \<open>psm2comm_fini\<close>

text \<open>No endpoint is open that no communicator refers to.\<close>

definition no_stray_ep :: "addr set \<Rightarrow> (addr \<Rightarrow> psm2comm option) \<Rightarrow> bool" where
  "no_stray_ep op cs \<longleftrightarrow> (\<forall>e\<in>op. e \<noteq> 0 \<longrightarrow> (\<exists>c cm. cs c = Some cm \<and> ep cm = e))"

definition close_never_fails :: "'w platform \<Rightarrow> bool" where
  "close_never_fails P \<longleftrightarrow> (\<forall>e m t w. fst (psm2_ep_close P e m t w) = PSM2_OK P)"

text \<open>What every call that manages communicators does to the state.\<close>

definition comm_step ::
  "'w platform \<Rightarrow> ('w \<Rightarrow> addr set) \<Rightarrow> 'w plugin \<Rightarrow> 'w plugin \<Rightarrow> bool" where
  "comm_step P opened s s' \<longleftrightarrow>
     same_globals s s' \<and> control_calls P (world s) (world s') \<and> ep_inv (opened (world s')) s' \<and>
     (close_never_fails P \<longrightarrow> no_stray_ep (opened (world s)) (comms s) \<longrightarrow>
        no_stray_ep (opened (world s')) (comms s'))"

lemma fini_parts:
  assumes "ep_contract P opened" and "ep_inv (opened (world s)) s" and "comms s c = Some cm"
  obtains mrc s1 cm1 erc s2 where "finalize_mq P c cm s = (mrc, s1)"
    and "release_ep P cm (detach_ep cm s1) = (erc, s2)"
    and "comms s1 = (comms s)(c \<mapsto> cm1)" and "ep cm = ep cm1"
    and "has_shared_ep cm = has_shared_ep cm1" and "same_globals s s1"
    and "allocs s1 = allocs s" and "control_calls P (world s) (world s1)"
    and "opened (world s1) = opened (world s)" and "ep_inv (opened (world s1)) s1"
    and "comms s1 c = Some cm1"
    and "psm2comm_fini P c s =
      Ret (if mrc = PSM2_OK P \<and> erc = PSM2_OK P then ncclSuccess else ncclInternalError,
        s2\<lparr>comms := (comms s)(c := None)\<rparr>)"
proof -
  obtain mrc s1 where f: "finalize_mq P c cm s = (mrc, s1)" by fastforce
  note f1 = finalize_mq_inv [OF assms f]
  then obtain cm1 where c1: "comms s1 = (comms s)(c \<mapsto> cm1)" and e1: "ep cm = ep cm1"
    and h1: "has_shared_ep cm = has_shared_ep cm1" by metis
  have i1: "ep_inv (opened (world s1)) s1" and l1: "comms s1 c = Some cm1"
    using f1 c1 by auto
  obtain erc s2 where r: "release_ep P cm (detach_ep cm s1) = (erc, s2)" by fastforce
  have "comms s2 = (comms s)(c \<mapsto> cm1)"
    using release_ep_inv [OF assms(1) i1 l1 e1 h1 r] c1 by simp
  then have "psm2comm_fini P c s =
      Ret (if mrc = PSM2_OK P \<and> erc = PSM2_OK P then ncclSuccess else ncclInternalError,
        s2\<lparr>comms := (comms s)(c := None)\<rparr>)"
    using assms(3) f r by (simp add: psm2comm_fini_def load_comm_def free_comm_def)
  then show ?thesis
    using that f r c1 e1 h1 f1 i1 l1 by blast
qed

lemma psm2comm_fini_basic:
  assumes "ep_contract P opened" and "ep_inv (opened (world s)) s" and "comms s c = Some cm"
  shows "returns (psm2comm_fini P c s) (\<lambda>(r, s'). same_globals s s' \<and>
    control_calls P (world s) (world s') \<and> ep_inv (opened (world s')) s' \<and>
    comms s' = (comms s)(c := None) \<and> allocs s' = allocs s \<and>
    (r = ncclSuccess \<or> r = ncclInternalError))"
proof (rule fini_parts [OF assms])
  fix mrc s1 cm1 erc s2
  assume r: "release_ep P cm (detach_ep cm s1) = (erc, s2)"
    and c1: "comms s1 = (comms s)(c \<mapsto> cm1)" and e1: "ep cm = ep cm1"
    and h1: "has_shared_ep cm = has_shared_ep cm1" and g1: "same_globals s s1"
    and a1: "allocs s1 = allocs s" and w1: "control_calls P (world s) (world s1)"
    and i1: "ep_inv (opened (world s1)) s1" and l1: "comms s1 c = Some cm1"
    and fini: "psm2comm_fini P c s =
      Ret (if mrc = PSM2_OK P \<and> erc = PSM2_OK P then ncclSuccess else ncclInternalError,
        s2\<lparr>comms := (comms s)(c := None)\<rparr>)"
  note r2 = release_ep_inv [OF assms(1) i1 l1 e1 h1 r]
  have "same_globals s s2" using same_globals_trans [OF g1] r2 by blast
  moreover have "control_calls P (world s) (world s2)"
    using control_calls_trans [OF w1] r2 by blast
  moreover have "allocs s2 = allocs s"
    and "ep_inv (opened (world s2)) (s2\<lparr>comms := (comms s)(c := None)\<rparr>)"
    using r2 c1 a1 by simp_all
  ultimately show ?thesis by (simp add: fini)
qed

text \<open>
  The endpoint is closed with its last communicator. While another communicator uses it,
  \<open>psm2comm_fini\<close> does not close it.
\<close>

definition used_by_other :: "addr \<Rightarrow> addr \<Rightarrow> 'w plugin \<Rightarrow> bool" where
  "used_by_other e c s \<longleftrightarrow> (\<exists>d dm. d \<noteq> c \<and> comms s d = Some dm \<and> ep dm = e)"

lemma used_by_other_sharers:
  assumes "ep_inv op s" and "comms s c = Some cm" and "has_shared_ep cm"
  shows "used_by_other (ep cm) c s \<longleftrightarrow> sharers (comms s) - {c} \<noteq> {}"
proof
  assume "used_by_other (ep cm) c s"
  then obtain d dm where d: "d \<noteq> c" "comms s d = Some dm" "ep dm = ep cm"
    by (auto simp: used_by_other_def)
  have "has_shared_ep dm"
  proof (rule ccontr)
    assume "\<not> has_shared_ep dm"
    then show False
      using ep_inv_private(2) [OF assms(1) d(2) _ _ assms(2)] ep_inv_shared [OF assms] d by metis
  qed
  then show "sharers (comms s) - {c} \<noteq> {}" using d by (auto simp: sharers_def)
next
  assume "sharers (comms s) - {c} \<noteq> {}"
  then obtain d dm where "d \<noteq> c" "comms s d = Some dm" "has_shared_ep dm"
    by (auto simp: sharers_def)
  then show "used_by_other (ep cm) c s"
    using ep_inv_shared(1) [OF assms] ep_inv_shared(1) [OF assms(1)]
    unfolding used_by_other_def by metis
qed

lemma used_by_other_upd:
  "comms s' = (comms s)(c := x) \<Longrightarrow> used_by_other e c s' = used_by_other e c s"
  unfolding used_by_other_def by (simp cong: conj_cong)

lemma used_by_other_own:
  "ep_inv op s \<Longrightarrow> comms s c = Some cm \<Longrightarrow> \<not> has_shared_ep cm \<Longrightarrow> ep cm \<noteq> 0 \<Longrightarrow>
     \<not> used_by_other (ep cm) c s"
  using ep_inv_private(2) unfolding used_by_other_def by blast

lemma release_ep_closes:
  assumes "ep_contract P opened" and "ep_inv (opened (world s)) s" and "comms s c = Some cm"
    and "ep cm' = ep cm" and "has_shared_ep cm' = has_shared_ep cm" and "ep cm \<noteq> 0"
    and "release_ep P cm' (detach_ep cm' s) = (rc, s1)"
  shows "if used_by_other (ep cm) c s then s1 = detach_ep cm' s
    else (rc = PSM2_OK P \<longrightarrow> ep cm \<notin> opened (world s1)) \<and>
      (has_shared_ep cm \<longrightarrow> shared_ep s1 = zero_shared_ep)"
proof -
  obtain erc w' where cl: "psm2_ep_close P (ep cm) (PSM2_EP_CLOSE_GRACEFUL P)
      COMM_EP_CLOSE_TIMEOUT (world s) = (erc, w')" by fastforce
  note op = ep_contract_close [OF assms(1) cl]
  show ?thesis
  proof (cases "has_shared_ep cm")
    case True
    have "refcount (shared_ep s) - 1 = 0 \<longleftrightarrow> \<not> used_by_other (ep cm) c s"
      using release_last(2) [OF assms(2,3) True] used_by_other_sharers [OF assms(2,3) True] by blast
    then show ?thesis
      using True assms(4-7) cl op by (auto simp: release_ep_def detach_ep_def Let_def)
  next
    case False
    then show ?thesis
      using assms(4-7) cl op used_by_other_own [OF assms(2,3) False assms(6)]
      by (auto simp: release_ep_def detach_ep_def Let_def)
  qed
qed

lemma psm2comm_fini_ep:
  assumes "ep_contract P opened" and "ep_inv (opened (world s)) s" and "comms s c = Some cm"
    and "ep cm \<noteq> 0" and "psm2comm_fini P c s = Ret (r, s')"
  shows "r = ncclSuccess \<or> close_never_fails P \<Longrightarrow>
      ep cm \<in> opened (world s') \<longleftrightarrow> used_by_other (ep cm) c s"
    and "has_shared_ep cm \<Longrightarrow> \<not> used_by_other (ep cm) c s \<Longrightarrow> shared_ep s' = zero_shared_ep"
    and "used_by_other (ep cm) c s \<Longrightarrow> ep cm \<in> opened (world s')"
proof -
  show keep: "ep cm \<in> opened (world s')" if "used_by_other (ep cm) c s"
  proof -
    have "ep_inv (opened (world s')) s'" and "comms s' = (comms s)(c := None)"
      using psm2comm_fini_basic [OF assms(1-3)] assms(5) by simp_all
    then show ?thesis
      using that ep_inv_open [of "opened (world s')" s'] assms(4)
      unfolding used_by_other_def by (metis fun_upd_other)
  qed
  have "(r = ncclSuccess \<or> close_never_fails P \<longrightarrow> \<not> used_by_other (ep cm) c s \<longrightarrow>
      ep cm \<notin> opened (world s')) \<and>
    (has_shared_ep cm \<longrightarrow> \<not> used_by_other (ep cm) c s \<longrightarrow> shared_ep s' = zero_shared_ep)"
  proof (rule fini_parts [OF assms(1-3)])
    fix mrc s1 cm1 erc s2
    assume rel: "release_ep P cm (detach_ep cm s1) = (erc, s2)"
      and c1: "comms s1 = (comms s)(c \<mapsto> cm1)" and e1: "ep cm = ep cm1"
      and h1: "has_shared_ep cm = has_shared_ep cm1"
      and i1: "ep_inv (opened (world s1)) s1" and l1: "comms s1 c = Some cm1"
      and fini: "psm2comm_fini P c s =
        Ret (if mrc = PSM2_OK P \<and> erc = PSM2_OK P then ncclSuccess else ncclInternalError,
          s2\<lparr>comms := (comms s)(c := None)\<rparr>)"
    have u: "used_by_other (ep cm1) c s1 = used_by_other (ep cm) c s"
      unfolding used_by_other_def c1 e1 by auto
    note r2 = release_ep_closes [OF assms(1) i1 l1 e1 h1 _ rel, unfolded u]
    have "close_never_fails P \<Longrightarrow> erc = PSM2_OK P"
      using rel by (auto simp: release_ep_def close_never_fails_def split: prod.splits if_splits)
        (metis fst_conv)+
    then show ?thesis
      using r2 assms(4,5) e1 h1 fini by (auto split: if_splits)
  qed
  with keep show "r = ncclSuccess \<or> close_never_fails P \<Longrightarrow>
      ep cm \<in> opened (world s') \<longleftrightarrow> used_by_other (ep cm) c s"
    and "has_shared_ep cm \<Longrightarrow> \<not> used_by_other (ep cm) c s \<Longrightarrow> shared_ep s' = zero_shared_ep"
    by blast+
qed

lemma psm2comm_fini_opened:
  assumes "ep_contract P opened" and "ep_inv (opened (world s)) s" and "comms s c = Some cm"
    and "psm2comm_fini P c s = Ret (r, s')"
  shows "opened (world s') \<subseteq> opened (world s)" and "opened (world s) - {ep cm} \<subseteq> opened (world s')"
proof -
  have "opened (world s') \<subseteq> opened (world s) \<and> opened (world s) - {ep cm} \<subseteq> opened (world s')"
  proof (rule fini_parts [OF assms(1-3)])
  fix mrc s1 cm1 erc s2
  assume rel: "release_ep P cm (detach_ep cm s1) = (erc, s2)"
    and w1: "opened (world s1) = opened (world s)"
    and fini: "psm2comm_fini P c s =
      Ret (if mrc = PSM2_OK P \<and> erc = PSM2_OK P then ncclSuccess else ncclInternalError,
        s2\<lparr>comms := (comms s)(c := None)\<rparr>)"
  obtain erc' w' where cl: "psm2_ep_close P (ep cm) (PSM2_EP_CLOSE_GRACEFUL P)
      COMM_EP_CLOSE_TIMEOUT (world (detach_ep cm s1)) = (erc', w')" by fastforce
  have "world s2 = world (detach_ep cm s1) \<or> world s2 = w'"
    using rel cl by (auto simp: release_ep_def Let_def split: if_splits)
  moreover have d: "world (detach_ep cm s1) = world s1" by (simp add: detach_ep_def)
  ultimately have "opened (world s2) \<subseteq> opened (world s1) \<and>
      opened (world s1) - {ep cm} \<subseteq> opened (world s2)"
    using ep_contract_close [OF assms(1) cl] by (metis Diff_subset order_refl)
  then show ?thesis using w1 fini assms(4) by simp
  qed
  then show "opened (world s') \<subseteq> opened (world s)" and
    "opened (world s) - {ep cm} \<subseteq> opened (world s')" by blast+
qed

lemma psm2comm_fini_returns:
  assumes "ep_contract P opened" and "ep_inv (opened (world s)) s" and "comms s c = Some cm"
  shows "returns (psm2comm_fini P c s) (\<lambda>(r, s'). comm_step P opened s s' \<and>
    comms s' = (comms s)(c := None) \<and> allocs s' = allocs s \<and>
    (r = ncclSuccess \<or> r = ncclInternalError))"
proof -
  obtain r s' where fini: "psm2comm_fini P c s = Ret (r, s')"
    and b: "same_globals s s'" "control_calls P (world s) (world s')" "ep_inv (opened (world s')) s'"
    "allocs s' = allocs s" "r = ncclSuccess \<or> r = ncclInternalError"
    and cs: "comms s' = (comms s)(c := None)"
    using psm2comm_fini_basic [OF assms] by (auto simp: returns_iff)
  have "no_stray_ep (opened (world s')) (comms s')"
    if cf: "close_never_fails P" and ns: "no_stray_ep (opened (world s)) (comms s)"
    unfolding no_stray_ep_def
  proof (intro ballI impI)
    fix e assume e: "e \<in> opened (world s')" "e \<noteq> 0"
    then have "e \<in> opened (world s)"
      using psm2comm_fini_opened(1) [OF assms fini] by blast
    then obtain d dm where d: "comms s d = Some dm" "ep dm = e"
      using ns e(2) unfolding no_stray_ep_def by blast
    show "\<exists>c cm. comms s' c = Some cm \<and> ep cm = e"
    proof (cases "d = c")
      case False
      then show ?thesis using d unfolding cs by (intro exI [of _ d] exI [of _ dm]) simp
    next
      case True
      then have "used_by_other e c s"
        using psm2comm_fini_ep(1) [OF assms _ fini] d e assms(3) cf by auto
      then show ?thesis unfolding cs used_by_other_def by (metis fun_upd_other)
    qed
  qed
  then show ?thesis using fini b cs by (simp add: comm_step_def)
qed

text \<open>
  C15: the life of an endpoint. When the library closes endpoints successfully,
  \<open>psm2comm_fini\<close> leaves the endpoint of its communicator open if and only if another
  live communicator uses it; and when the last
  communicator of the shared endpoint goes, the record of the shared endpoint is cleared,
  so that the next communicator opens a new one.
\<close>

theorem psm2comm_fini_closes:
  assumes "ep_contract P opened" and "ep_inv (opened (world s)) s" and "comms s c = Some cm"
    and "ep cm \<noteq> 0" and "psm2comm_fini P c s = Ret (r, s')"
  shows "(r = ncclSuccess \<or> close_never_fails P \<longrightarrow>
      (ep cm \<in> opened (world s') \<longleftrightarrow> used_by_other (ep cm) c s)) \<and>
    (has_shared_ep cm \<and> \<not> used_by_other (ep cm) c s \<longrightarrow> shared_ep s' = zero_shared_ep)"
  using psm2comm_fini_ep [OF assms] by blast

section \<open>psm2comm_init\<close>

definition policy_ok :: "'w plugin \<Rightarrow> bool" where
  "policy_ok s \<longleftrightarrow> shared_ep_multi_policy s = SHARED_EP_MULTI_ERROR \<or>
     shared_ep_multi_policy s = SHARED_EP_MULTI_WARN"

lemma check_unit_returns:
  "policy_ok s \<Longrightarrow> check_unit P dev s = Ret None \<or> check_unit P dev s = Ret (Some ncclInternalError)"
  by (auto simp: check_unit_def policy_ok_def)

text \<open>The communicator with an endpoint.\<close>

definition with_ep :: "psm2comm \<Rightarrow> addr \<Rightarrow> psm2comm \<Rightarrow> bool \<Rightarrow> bool" where
  "with_ep cm e cm' shared \<longleftrightarrow>
     e \<noteq> 0 \<and> (\<exists>i. cm' = cm\<lparr>ep := e, epid := i, has_shared_ep := shared\<rparr>)"

lemma with_ep_ep: "with_ep cm e cm' shared \<Longrightarrow> ep cm' = e"
  unfolding with_ep_def by (elim conjE exE) simp

lemma comm_step_refl: "ep_inv (opened (world s)) s \<Longrightarrow> comm_step P opened s s"
  by (simp add: comm_step_def)

lemma comm_step_trans:
  "comm_step P opened s t \<Longrightarrow> comm_step P opened t u \<Longrightarrow> comm_step P opened s u"
proof -
  assume st: "comm_step P opened s t" and tu: "comm_step P opened t u"
  have "same_globals s u"
    using st tu unfolding comm_step_def by (elim conjE) (rule same_globals_trans)
  moreover have "control_calls P (world s) (world u)"
    using st tu unfolding comm_step_def by (elim conjE) (rule control_calls_trans)
  moreover have "ep_inv (opened (world u)) u"
    using tu unfolding comm_step_def by (elim conjE)
  moreover have "close_never_fails P \<longrightarrow> no_stray_ep (opened (world s)) (comms s) \<longrightarrow>
      no_stray_ep (opened (world u)) (comms u)"
  proof (intro impI)
    assume cf: "close_never_fails P" and ns: "no_stray_ep (opened (world s)) (comms s)"
    have "no_stray_ep (opened (world t)) (comms t)"
      using st cf ns by (simp only: comm_step_def)
    then show "no_stray_ep (opened (world u)) (comms u)"
      using tu cf by (simp only: comm_step_def)
  qed
  ultimately show "comm_step P opened s u" unfolding comm_step_def by (intro conjI)
qed

lemma no_stray_upd:
  assumes "no_stray_ep op cs" and "op' \<subseteq> insert (ep cm') op"
    and "\<And>cm. cs c = Some cm \<Longrightarrow> ep cm = 0 \<or> ep cm = ep cm'"
  shows "no_stray_ep op' (cs(c \<mapsto> cm'))"
  unfolding no_stray_ep_def
proof (intro ballI impI)
  fix e assume e: "e \<in> op'" "e \<noteq> 0"
  show "\<exists>d dm. (cs(c \<mapsto> cm')) d = Some dm \<and> ep dm = e"
  proof (cases "e = ep cm'")
    case False
    then obtain d dm where "cs d = Some dm" "ep dm = e"
      using assms(1,2) e unfolding no_stray_ep_def by blast
    moreover from this have "d \<noteq> c" using assms(3) e(2) False by metis
    ultimately have "(cs(c \<mapsto> cm')) d = Some dm \<and> ep dm = e" by simp
    then show ?thesis by blast
  qed auto
qed

lemma no_stray_mono: "no_stray_ep op cs \<Longrightarrow> op' \<subseteq> op \<Longrightarrow> no_stray_ep op' cs"
  unfolding no_stray_ep_def by blast

lemma obtain_ep_opened:
  assumes "ep_contract P opened" and "obtain_ep P dev uuid s = (r, s1)"
  shows "opened (world s1) \<subseteq>
    (case r of None \<Rightarrow> opened (world s) | Some (e, i) \<Rightarrow> insert e (opened (world s)))"
proof -
  obtain rc opts w1 where d: "psm2_ep_open_opts_get_defaults P (world s) = (rc, opts, w1)"
    by (metis prod_cases3)
  have o1: "opened w1 = opened (world s)"
    using ep_contract_quiet(1) [OF assms(1) q_sys [OF s_opts [OF d]]] .
  let ?opts = "if use_nccl_dev_num s \<noteq> 0 then opts\<lparr>opt_unit := dev\<rparr> else opts"
  obtain rc2 e i w2 where op: "psm2_ep_open P uuid ?opts w1 = (rc2, e, i, w2)"
    by (metis prod_cases4)
  have o2: "opened w2 = (if rc2 = PSM2_OK P then insert e (opened (world s)) else opened (world s))"
    using ep_contract_open [OF assms(1) op] o1 by simp
  let ?new = "use_shared_ep s = 0 \<or> refcount (shared_ep s) = 0"
  consider (old) "\<not> ?new" | (bad) "?new" "rc \<noteq> PSM2_OK P" |
    (bad2) "?new" "rc = PSM2_OK P" "rc2 \<noteq> PSM2_OK P" | (ok) "?new" "rc = PSM2_OK P" "rc2 = PSM2_OK P"
    by blast
  then show ?thesis
  proof cases
    case old
    then show ?thesis using assms(2) by (auto simp: obtain_ep_def)
  next
    case bad
    then have "r = None" and "world s1 = w1" using assms(2) d by (auto simp: obtain_ep_def)
    then show ?thesis using o1 by simp
  next
    case bad2
    then have "r = None" and "world s1 = w2"
      using assms(2) d op by (auto simp: obtain_ep_def Let_def)
    then show ?thesis using o2 bad2 by simp
  next
    case ok
    then have "r = Some (e, i)" and "world s1 = w2"
      using assms(2) d op by (auto simp: obtain_ep_def Let_def split: if_splits)
    then show ?thesis using o2 by auto
  qed
qed

lemma attach_ep_effect:
  assumes "comms s c = Some cm" and "bare cm" and "e \<noteq> 0"
  shows "world (attach_ep c cm e i s) = world s" and "allocs (attach_ep c cm e i s) = allocs s"
    and "same_globals s' (attach_ep c cm e i s) = same_globals s' s"
    and "\<exists>cm'. comms (attach_ep c cm e i s) = (comms s)(c \<mapsto> cm') \<and>
      with_ep cm e cm' (use_shared_ep s \<noteq> 0)"
proof -
  have "cm\<lparr>ep := e, epid := i\<rparr> = cm\<lparr>ep := e, epid := i, has_shared_ep := False\<rparr>"
    using assms(2) by (simp add: bare_def)
  then have F: "with_ep cm e (cm\<lparr>ep := e, epid := i\<rparr>) False"
    unfolding with_ep_def using assms(3) by blast
  have T: "with_ep cm e (cm\<lparr>ep := e, epid := i, has_shared_ep := True\<rparr>) True"
    unfolding with_ep_def using assms(3) by blast
  show "\<exists>cm'. comms (attach_ep c cm e i s) = (comms s)(c \<mapsto> cm') \<and>
      with_ep cm e cm' (use_shared_ep s \<noteq> 0)"
  proof (cases "use_shared_ep s = 0")
    case True
    then show ?thesis using F by (intro exI [of _ "cm\<lparr>ep := e, epid := i\<rparr>"]) (simp add: attach_ep_def)
  next
    case False
    then show ?thesis using T
      by (intro exI [of _ "cm\<lparr>ep := e, epid := i, has_shared_ep := True\<rparr>"])
        (simp add: attach_ep_def)
  qed
qed (simp_all add: attach_ep_def Let_def)

lemma psm2comm_init_ep_returns:
  assumes "ep_contract P opened" and "policy_ok s" and "ep_inv (opened (world s)) s"
    and "comms s c = Some cm" and "bare cm" and "card (dom (comms s)) < 2 ^ 32"
  shows "returns (psm2comm_init_ep P dev uuid c s) (\<lambda>(r, s'). comm_step P opened s s' \<and>
    allocs s' = allocs s \<and>
    (if r = ncclSuccess
     then \<exists>e cm'. comms s' = (comms s)(c \<mapsto> cm') \<and> with_ep cm e cm' (use_shared_ep s \<noteq> 0)
     else r = ncclInternalError \<and> comms s' = comms s))"
proof (cases "check_unit P dev s = Ret None")
  case False
  then have "check_unit P dev s = Ret (Some ncclInternalError)"
    using check_unit_returns [OF assms(2)] by blast
  then show ?thesis
    using comm_step_refl assms(3) by (simp add: psm2comm_init_ep_def)
next
  case True
  obtain r s1 where o: "obtain_ep P dev uuid s = (r, s1)" by fastforce
  note o1 = obtain_ep_inv [OF assms(1,3) o]
  have cs1: "comms s1 = comms s" using o1 by blast
  note op1 = obtain_ep_opened [OF assms(1) o]
  show ?thesis
  proof (cases r)
    case None
    have "no_stray_ep (opened (world s)) (comms s) \<longrightarrow> no_stray_ep (opened (world s1)) (comms s1)"
      using no_stray_mono op1 None cs1 by simp
    then have "comm_step P opened s s1" using o1 by (simp add: comm_step_def)
    then show ?thesis using None True o o1 by (simp add: psm2comm_init_ep_def)
  next
    case (Some ei)
    then obtain e i where ei: "r = Some (e, i)" by (cases ei) auto
    then have rdy: "ep_ready e i (opened (world s1)) s1" using o1 by blast
    then have e0: "e \<noteq> 0" by (simp add: ep_ready_def)
    have i1: "ep_inv (opened (world s1)) s1" using o1 by blast
    have l1: "comms s1 c = Some cm" using cs1 assms(4) by simp
    have d1: "card (dom (comms s1)) < 2 ^ 32" using cs1 assms(6) by simp
    note at = attach_ep_effect [OF l1 assms(5) e0]
    obtain cm' where cm': "comms (attach_ep c cm e i s1) = (comms s1)(c \<mapsto> cm')"
      and we: "with_ep cm e cm' (use_shared_ep s1 \<noteq> 0)" using at(4) by blast
    have "no_stray_ep (opened (world s1)) ((comms s1)(c \<mapsto> cm'))"
      if "no_stray_ep (opened (world s)) (comms s)"
      by (rule no_stray_upd) (use that op1 ei with_ep_ep [OF we] cs1 assms(4,5) in
        \<open>simp_all add: bare_def\<close>)
    then have "comm_step P opened s (attach_ep c cm e i s1)"
      using attach_ep_inv [OF i1 rdy l1 assms(5) d1] o1 cm' by (simp add: comm_step_def at(1,3))
    moreover have "use_shared_ep s1 = use_shared_ep s" using o1 by (simp add: same_globals_def)
    ultimately show ?thesis
      using True o ei l1 at(2) cm' we o1 cs1 by (auto simp: psm2comm_init_ep_def load_comm_def)
  qed
qed

lemma ep_inv_add_bare:
  assumes "ep_inv op s" and "comms s c = None" and "bare cm"
    and "comms s' = (comms s)(c \<mapsto> cm)" and "shared_ep s' = shared_ep s"
  shows "ep_inv op s'"
proof -
  have "sharers (comms s') = sharers (comms s)"
    using assms(2-4) by (auto simp: sharers_def bare_def)
  moreover have "sharing_ok op (shared_ep s) (comms s')"
    using assms(1,3,4) by (simp add: ep_inv_def sharing_ok_def bare_def)
  moreover have "private_ok op (comms s')"
    using assms(1,3,4) by (simp add: ep_inv_def private_ok_def bare_def)
  ultimately show ?thesis using assms(1,4,5) by (simp add: ep_inv_def)
qed

text \<open>\<open>psm2comm_init\<close> after the allocation, and its error exit.\<close>

lemma psm2comm_bail_returns:
  assumes "ep_contract P opened" and "comm_step P opened s s1"
    and "comms s1 = cs(c \<mapsto> cm)" and "cs c = None"
  shows "returns (psm2comm_bail P c s1) (\<lambda>(r, c', s'). r = ncclInternalError \<and> c' = 0 \<and>
    comm_step P opened s s' \<and> comms s' = cs \<and> allocs s' = allocs s1)"
proof -
  have i1: "ep_inv (opened (world s1)) s1" and c1: "comms s1 c = Some cm"
    using assms(2,3) by (simp_all add: comm_step_def)
  have cs: "(comms s1)(c := None) = cs" using assms(3,4) by (simp add: fun_upd_idem)
  show ?thesis
    using psm2comm_fini_returns [OF assms(1) i1 c1] comm_step_trans [OF assms(2)]
    by (auto simp: psm2comm_bail_def returns_iff cs)
qed

definition made_comm :: "bool \<Rightarrow> psm2comm \<Rightarrow> bool" where
  "made_comm shared cm \<longleftrightarrow>
     (\<exists>e i q. e \<noteq> 0 \<and>
        cm = zero_comm\<lparr>ep := e, epid := i, mq := q, has_shared_ep := shared\<rparr>)"

lemma init_mq_returns:
  assumes "ep_contract P opened" and "comm_step P opened s s1"
    and "comms s1 = cs(c \<mapsto> cm)" and "cs c = None" and "with_ep zero_comm e cm shared"
  shows "returns (init_mq P c s1) (\<lambda>(r, c', s'). comm_step P opened s s' \<and> allocs s' = allocs s1 \<and>
    (if r = ncclSuccess
     then c' = c \<and> (\<exists>cm'. comms s' = cs(c \<mapsto> cm') \<and> made_comm shared cm')
     else r = ncclInternalError \<and> c' = 0 \<and> comms s' = cs))"
proof -
  obtain rc q w' where m: "psm2_mq_init P (ep cm) (PSM2_MQ_ORDERMASK_NONE P) (world s1) = (rc, q, w')"
    by (metis prod_cases3)
  let ?s2 = "store_comm c (cm\<lparr>mq := q\<rparr>) (s1\<lparr>world := w'\<rparr>)"
  have l1: "comms s1 c = Some cm" and i1: "ep_inv (opened (world s1)) s1"
    using assms(2,3) by (simp_all add: comm_step_def)
  have w: "opened w' = opened (world s1)" and cc: "control_calls P (world s1) w'"
    using ep_contract_quiet(1) [OF assms(1) q_mq_init [OF m]] cc_quiet [OF cc_refl q_mq_init [OF m]]
    by simp_all
  have "ep_inv (opened (world s1)) ?s2"
    by (rule ep_inv_view [OF i1 l1, of "cm\<lparr>mq := q\<rparr>"]) (simp_all add: ep_view_def)
  moreover have "no_stray_ep (opened w') ((comms s1)(c \<mapsto> cm\<lparr>mq := q\<rparr>))"
    if "no_stray_ep (opened (world s1)) (comms s1)"
    by (rule no_stray_upd [OF that]) (use w l1 in auto)
  ultimately have "comm_step P opened s1 ?s2" using w cc by (simp add: comm_step_def)
  then have st: "comm_step P opened s ?s2" using comm_step_trans [OF assms(2)] by blast
  have cs2: "comms ?s2 = cs(c \<mapsto> cm\<lparr>mq := q\<rparr>)" using assms(3) by simp
  have made: "made_comm shared (cm\<lparr>mq := q\<rparr>)"
  proof -
    obtain i where "e \<noteq> 0" "cm = zero_comm\<lparr>ep := e, epid := i, has_shared_ep := shared\<rparr>"
      using assms(5) unfolding with_ep_def by blast
    then show ?thesis
      unfolding made_comm_def by (intro exI [of _ e] exI [of _ i] exI [of _ q]) simp
  qed
  show ?thesis
  proof (cases "rc = PSM2_OK P")
    case True
    then show ?thesis using m l1 st cs2 made by (auto simp: init_mq_def load_comm_def Let_def)
  next
    case False
    then show ?thesis
      using m l1 psm2comm_bail_returns [OF assms(1) st cs2 assms(4)]
      by (auto simp: init_mq_def load_comm_def Let_def returns_iff)
  qed
qed

lemma card_dom_upd_bound: "card (dom (cs(c \<mapsto> x))) \<le> Suc (card (dom cs))"
  by (simp add: card_insert_le_m1 card_insert_le)

lemma psm2comm_init_returns:
  assumes "ep_contract P opened" and "policy_ok s" and "ep_inv (opened (world s)) s"
    and "heap_ok s" and "Suc (card (dom (comms s))) < 2 ^ 32"
  shows "returns (psm2comm_init P dev uuid s) (\<lambda>(r, c, s'). comm_step P opened s s' \<and>
    allocs s' = Suc (allocs s) \<and>
    (if r = ncclSuccess
     then c = Suc (allocs s) \<and> (\<exists>cm. comms s' = (comms s)(c \<mapsto> cm) \<and>
       made_comm (use_shared_ep s \<noteq> 0) cm)
     else r = ncclInternalError \<and> c = 0 \<and> comms s' = comms s))"
proof (cases "alloc_ok P (allocs s)")
  case False
  have "comm_step P opened s (s\<lparr>allocs := Suc (allocs s)\<rparr>)"
    using assms(3) by (auto simp: comm_step_def elim: ep_inv_cong)
  then show ?thesis
    using False
    by (simp add: psm2comm_init_def calloc_comm_def sizeof_psm2comm_handle_def
        NCCL_NET_HANDLE_MAXSIZE_def)
next
  case True
  let ?c = "Suc (allocs s)"
  let ?s1 = "s\<lparr>allocs := Suc (allocs s), comms := (comms s)(?c \<mapsto> zero_comm)\<rparr>"
  have new: "comms s ?c = None" using heap_ok_fresh [OF assms(4)] by simp
  have bare: "bare zero_comm" by (simp add: bare_def zero_comm_def)
  have i1: "ep_inv (opened (world ?s1)) ?s1"
    using ep_inv_add_bare [OF assms(3) new bare, of ?s1] by simp
  moreover have "no_stray_ep (opened (world s)) ((comms s)(?c \<mapsto> zero_comm))"
    if "no_stray_ep (opened (world s)) (comms s)"
    by (rule no_stray_upd [OF that]) (use new in auto)
  ultimately have st1: "comm_step P opened s ?s1" by (simp add: comm_step_def)
  have l1: "comms ?s1 ?c = Some zero_comm" by simp
  have "card (dom (comms ?s1)) \<le> Suc (card (dom (comms s)))" using card_dom_upd_bound by simp
  then have d1: "card (dom (comms ?s1)) < 2 ^ 32" using assms(5) by linarith
  have p1: "policy_ok ?s1" using assms(2) by (simp add: policy_ok_def)
  from psm2comm_init_ep_returns [OF assms(1) p1 i1 l1 bare d1, of dev uuid] obtain r s2
    where ie: "psm2comm_init_ep P dev uuid ?c ?s1 = Ret (r, s2)"
      and st2: "comm_step P opened ?s1 s2" and a2: "allocs s2 = ?c"
      and r: "if r = ncclSuccess
        then \<exists>e cm'. comms s2 = (comms ?s1)(?c \<mapsto> cm') \<and>
          with_ep zero_comm e cm' (use_shared_ep ?s1 \<noteq> 0)
        else r = ncclInternalError \<and> comms s2 = comms ?s1"
    by (auto simp: returns_iff)
  have st: "comm_step P opened s s2" using comm_step_trans [OF st1 st2] .
  have init: "psm2comm_init P dev uuid s =
      (if r \<noteq> ncclSuccess then psm2comm_bail P ?c s2 else init_mq P ?c s2)"
    using True ie
    by (simp add: psm2comm_init_def calloc_comm_def sizeof_psm2comm_handle_def
        NCCL_NET_HANDLE_MAXSIZE_def Let_def)
  show ?thesis
  proof (cases "r = ncclSuccess")
    case True
    then obtain e cm' where c2: "comms s2 = (comms s)(?c \<mapsto> cm')"
      and "with_ep zero_comm e cm' (use_shared_ep s \<noteq> 0)" using r by auto
    note m = init_mq_returns [OF assms(1) st c2 new this(2), unfolded a2]
    have "init_mq P ?c s2 = psm2comm_init P dev uuid s" using init True by simp
    from m [unfolded this] show ?thesis by (rule returns_mono) (auto split: if_splits)
  next
    case False
    then have c2: "comms s2 = (comms s)(?c \<mapsto> zero_comm)" using r by simp
    from psm2comm_bail_returns [OF assms(1) st c2 new] show ?thesis
      unfolding init using False a2 by (auto simp: returns_iff)
  qed
qed

section \<open>Communicators as objects that are created and destroyed\<close>

definition comms_ok :: "'w platform \<Rightarrow> ('w \<Rightarrow> addr set) \<Rightarrow> 'w plugin \<Rightarrow> bool" where
  "comms_ok P opened s \<longleftrightarrow>
     ep_contract P opened \<and> policy_ok s \<and> ep_inv (opened (world s)) s \<and> heap_ok s \<and>
     (close_never_fails P \<longrightarrow> no_stray_ep (opened (world s)) (comms s))"

definition live_comms :: "'w plugin \<Rightarrow> addr set" where
  "live_comms s = dom (comms s)"

definition room :: "'w plugin \<Rightarrow> bool" where
  "room s \<longleftrightarrow> Suc (card (dom (comms s))) < 2 ^ 32"

definition creates :: "'w platform \<Rightarrow> int \<times> uuid \<Rightarrow> 'w plugin \<Rightarrow> addr \<Rightarrow> 'w plugin \<Rightarrow> bool" where
  "creates P x s c s' \<longleftrightarrow>
     room s \<and> psm2comm_init P (fst x) (snd x) s = Ret (ncclSuccess, c, s')"

definition finis :: "'w platform \<Rightarrow> addr \<Rightarrow> 'w plugin \<Rightarrow> 'w plugin \<Rightarrow> bool" where
  "finis P c s s' \<longleftrightarrow> (\<exists>r. psm2comm_fini P c s = Ret (r, s'))"

lemma comm_step_keeps:
  assumes "comm_step P opened s s'" and "policy_ok s"
  shows "policy_ok s'" and "ep_inv (opened (world s')) s'"
  using assms by (simp_all add: comm_step_def same_globals_def policy_ok_def)

lemma comm_step_stray:
  assumes "comm_step P opened s s'"
    and "close_never_fails P \<longrightarrow> no_stray_ep (opened (world s)) (comms s)"
  shows "close_never_fails P \<longrightarrow> no_stray_ep (opened (world s')) (comms s')"
  using assms unfolding comm_step_def by (elim conjE) simp

lemma comm_step_heap:
  assumes "comm_step P opened s s'" and "heap_ok s" and "allocs s \<le> allocs s'"
    and "\<And>a. a \<notin> dom (comms s) \<Longrightarrow> a = 0 \<or> allocs s' < a \<Longrightarrow> comms s' a = None"
  shows "heap_ok s'"
  unfolding heap_ok_def
proof (intro allI impI)
  fix a assume a: "allocs s' < a \<or> a = 0"
  then have old: "strs s a = None" "comms s a = None"
    using assms(2,3) by (auto simp: heap_ok_def)
  have "strs s' = strs s" using assms(1) by (simp add: comm_step_def same_globals_def)
  then show "strs s' a = None \<and> comms s' a = None" using old a assms(4) [of a] by auto
qed

lemma psm2comm_init_ok:
  assumes "comms_ok P opened s" and "room s" and "psm2comm_init P dev uuid s = Ret (r, c, s')"
  shows "comms_ok P opened s'" and "comm_step P opened s s'"
    and "r = ncclSuccess \<Longrightarrow> c = Suc (allocs s) \<and> comms s c = None \<and>
      (\<exists>cm. comms s' = (comms s)(c \<mapsto> cm) \<and> made_comm (use_shared_ep s \<noteq> 0) cm)"
    and "r \<noteq> ncclSuccess \<Longrightarrow> r = ncclInternalError \<and> c = 0 \<and> comms s' = comms s"
    and "allocs s' = Suc (allocs s)"
proof -
  have a: "ep_contract P opened" "policy_ok s" "ep_inv (opened (world s)) s" "heap_ok s"
    "Suc (card (dom (comms s))) < 2 ^ 32"
    using assms(1,2) by (simp_all add: comms_ok_def room_def)
  note i = psm2comm_init_returns [OF a, of dev uuid, unfolded assms(3) returns.simps prod.case]
  note st = conjunct1 [OF i] and al = conjunct1 [OF conjunct2 [OF i]]
    and r = conjunct2 [OF conjunct2 [OF i]]
  show "comm_step P opened s s'" by (rule st)
  show "allocs s' = Suc (allocs s)" by (rule al)
  show "r = ncclSuccess \<Longrightarrow> c = Suc (allocs s) \<and> comms s c = None \<and>
      (\<exists>cm. comms s' = (comms s)(c \<mapsto> cm) \<and> made_comm (use_shared_ep s \<noteq> 0) cm)"
    using r heap_ok_fresh [OF a(4)] by auto
  show "r \<noteq> ncclSuccess \<Longrightarrow> r = ncclInternalError \<and> c = 0 \<and> comms s' = comms s"
    using r by simp
  have "heap_ok s'"
  proof (rule comm_step_heap [OF st a(4)])
    show "comms s' a = None" if "a \<notin> dom (comms s)" and "a = 0 \<or> allocs s' < a" for a
      using r al that by (auto split: if_splits)
  qed (use al in simp)
  moreover have "close_never_fails P \<longrightarrow> no_stray_ep (opened (world s')) (comms s')"
    by (rule comm_step_stray [OF st]) (use assms(1) in \<open>simp add: comms_ok_def\<close>)
  ultimately show "comms_ok P opened s'"
    using comm_step_keeps [OF st a(2)] a(1) unfolding comms_ok_def by (intro conjI)
qed

lemma psm2comm_fini_ok:
  assumes "comms_ok P opened s" and "comms s c = Some cm" and "psm2comm_fini P c s = Ret (r, s')"
  shows "comms_ok P opened s'" and "comm_step P opened s s'"
    and "comms s' = (comms s)(c := None)" and "allocs s' = allocs s"
    and "r = ncclSuccess \<or> r = ncclInternalError"
proof -
  have a: "ep_contract P opened" "policy_ok s" "ep_inv (opened (world s)) s" "heap_ok s"
    using assms(1) by (simp_all add: comms_ok_def)
  show st: "comm_step P opened s s'" and cs: "comms s' = (comms s)(c := None)"
    and al: "allocs s' = allocs s" and "r = ncclSuccess \<or> r = ncclInternalError"
    using psm2comm_fini_returns [OF a(1,3) assms(2)] assms(3) by simp_all
  have "heap_ok s'"
    by (rule comm_step_heap [OF st a(4)]) (use al cs in auto)
  moreover have "close_never_fails P \<longrightarrow> no_stray_ep (opened (world s')) (comms s')"
    by (rule comm_step_stray [OF st]) (use assms(1) in \<open>simp add: comms_ok_def\<close>)
  ultimately show "comms_ok P opened s'"
    using comm_step_keeps [OF st a(2)] a(1) unfolding comms_ok_def by (intro conjI)
qed

interpretation comm: lifecycle "comms_ok P opened" live_comms "creates P" "finis P" for P opened
proof (unfold_locales, goal_cases)
  case (1 s)
  then show ?case by (simp add: comms_ok_def ep_inv_def live_comms_def)
next
  case (2 s x k s')
  then have i: "psm2comm_init P (fst x) (snd x) s = Ret (ncclSuccess, k, s')" and "room s"
    by (simp_all add: creates_def)
  from psm2comm_init_ok [OF 2(1) this(2,1)] show ?case
    by (auto simp: live_comms_def)
next
  case (3 s k s')
  then obtain cm r where "comms s k = Some cm" and "psm2comm_fini P k s = Ret (r, s')"
    by (auto simp: live_comms_def finis_def)
  from psm2comm_fini_ok [OF 3(1) this] show ?case by (auto simp: live_comms_def)
next
  case (4 s k)
  then obtain cm where cm: "comms s k = Some cm" by (auto simp: live_comms_def)
  have "ep_contract P opened" "ep_inv (opened (world s)) s"
    using 4(1) by (simp_all add: comms_ok_def)
  from psm2comm_fini_returns [OF this cm] show ?case
    by (auto simp: returns_iff finis_def)
qed

section \<open>Properties\<close>

text \<open>Closing communicators one after the other.\<close>

fun fini_all :: "'w platform \<Rightarrow> addr list \<Rightarrow> 'w plugin \<Rightarrow> 'w plugin outcome" where
  "fini_all P [] s = Ret s"
| "fini_all P (c # cs) s = obind (psm2comm_fini P c s) (\<lambda>(_, s1). fini_all P cs s1)"

lemma destroys_fini_all: "comm.destroys P cs s s' \<Longrightarrow> fini_all P cs s = Ret s'"
  by (induction rule: comm.destroys.induct) (auto simp: finis_def)

text \<open>
  C13: the communicators that exist can be closed in any order, without an assertion
  failing or memory being misused. Then no communicator is left, the reference count of the
  shared endpoint is 0, and no endpoint is left open if the library closes what it is told to.
\<close>

theorem comms_tear_down:
  assumes "comms_ok P opened s" and "distinct cs" and "set cs = dom (comms s)"
  shows "returns (fini_all P cs s) (\<lambda>s'. comms s' = Map.empty \<and>
    refcount (shared_ep s') = 0 \<and> (close_never_fails P \<longrightarrow> opened (world s') \<subseteq> {0}))"
proof -
  obtain s' where "comm.destroys P cs s s'" and l: "live_comms s' = {}" and ok: "comms_ok P opened s'"
    using comm.tear_down [OF assms(1,2)] assms(3) by (auto simp: live_comms_def)
  then have "fini_all P cs s = Ret s'" by (blast intro: destroys_fini_all)
  moreover have e: "comms s' = Map.empty" using l by (simp add: live_comms_def)
  moreover have "ep_inv (opened (world s')) s'" and
    "close_never_fails P \<longrightarrow> no_stray_ep (opened (world s')) (comms s')"
    using ok by (simp_all add: comms_ok_def)
  note i = this
  have "refcount (shared_ep s') = 0"
    using e refcount_0_iff [OF i(1)] by (simp add: sharers_def)
  moreover have "close_never_fails P \<longrightarrow> opened (world s') \<subseteq> {0}"
    using e i(2) by (auto simp: no_stray_ep_def)
  ultimately show ?thesis by simp
qed

text \<open>Two communicators on a shared endpoint.\<close>

definition shared_comm :: psm2comm where
  "shared_comm = zero_comm\<lparr>ep := 1, epid := 1, mq := 1, has_shared_ep := True\<rparr>"

definition two_comms :: "sim plugin" where
  "two_comms = (initial_plugin (sim0\<lparr>sim_eps := [1]\<rparr>))
     \<lparr>comms := [1 \<mapsto> shared_comm, 2 \<mapsto> shared_comm], allocs := 2,
      shared_ep := \<lparr>sh_ep = 1, sh_epid = 1, sh_unit = 0, refcount = 2\<rparr>\<rparr>"

lemma two_comms_simps [simp]:
  "world two_comms = sim0\<lparr>sim_eps := [1]\<rparr>"
  "comms two_comms = [1 \<mapsto> shared_comm, 2 \<mapsto> shared_comm]"
  "allocs two_comms = 2"
  "strs two_comms = Map.empty"
  "use_shared_ep two_comms = 1"
  "use_nccl_dev_num two_comms = 1"
  "shared_ep_multi_policy two_comms = SHARED_EP_MULTI_WARN"
  "shared_ep two_comms = \<lparr>sh_ep = 1, sh_epid = 1, sh_unit = 0, refcount = 2\<rparr>"
  by (simp_all add: two_comms_def)

lemma shared_comm_simps [simp]:
  "ep shared_comm = 1" "epid shared_comm = 1" "mq shared_comm = 1" "has_shared_ep shared_comm"
  by (simp_all add: shared_comm_def)

lemma two_comms_sharers: "sharers (comms two_comms) = {1, 2}"
  by (auto simp: sharers_def split: if_splits)

lemma two_comms_inv: "ep_inv {1} two_comms"
  unfolding ep_inv_def two_comms_sharers
  by (auto simp: sharing_ok_def private_ok_def split: if_splits)

lemma sim_close_never_fails: "close_never_fails sim_platform"
  by (simp add: close_never_fails_def)

lemma two_comms_ok: "comms_ok sim_platform (\<lambda>w. set (sim_eps w)) two_comms"
  unfolding comms_ok_def
  using two_comms_inv sim_ep_contract
  by (auto simp: policy_ok_def heap_ok_def no_stray_ep_def split: if_splits)

lemma comms_tear_down_witness:
  "returns (fini_all sim_platform [2, 1] two_comms) (\<lambda>s'. comms s' = Map.empty \<and>
     refcount (shared_ep s') = 0 \<and> set (sim_eps (world s')) \<subseteq> {0})"
  using comms_tear_down [OF two_comms_ok, of "[2, 1]"] sim_close_never_fails by auto

text \<open>The first of the two leaves the endpoint open, the second closes it.\<close>

lemma psm2comm_fini_closes_witness:
  "\<exists>s'. psm2comm_fini sim_platform 1 two_comms = Ret (ncclSuccess, s') \<and> 1 \<in> set (sim_eps (world s'))"
proof -
  obtain s' where f: "psm2comm_fini sim_platform 1 two_comms = Ret (ncclSuccess, s')"
    by (simp add: psm2comm_fini_def load_comm_def finalize_mq_def detach_ep_def release_ep_def
        free_comm_def Let_def)
  have "used_by_other (ep shared_comm) 1 two_comms"
    unfolding used_by_other_def by (intro exI [of _ 2] exI [of _ shared_comm]) simp
  moreover have "comms two_comms 1 = Some shared_comm" by simp
  moreover have "ep_inv (set (sim_eps (world two_comms))) two_comms" using two_comms_inv by simp
  ultimately show ?thesis
    using psm2comm_fini_closes [OF sim_ep_contract _ _ _ f, of shared_comm] f by simp
qed

text \<open>
  What happens when endpoints are shared and the shared one is in use already.
\<close>

lemma psm2comm_bail_zero:
  assumes "comms s c = Some zero_comm"
  shows "psm2comm_bail P c s = Ret (ncclInternalError, 0, s\<lparr>comms := (comms s)(c := None)\<rparr>)"
  using assms
  by (simp add: psm2comm_bail_def psm2comm_fini_def load_comm_def finalize_mq_def zero_comm_def
      detach_ep_def release_ep_def free_comm_def)

lemma init_mq_shared:
  assumes "ep_contract P opened" and "ep_inv (opened (world s)) s" and "comms s c = Some cm"
    and "has_shared_ep cm" and "used_by_other (ep cm) c s" and "init_mq P c s = Ret (r, c', s')"
  shows "opened (world s') = opened (world s) \<and>
    (r = ncclSuccess \<longrightarrow> c' = c \<and> (\<exists>cm'. comms s' c = Some cm' \<and> ep cm' = ep cm))"
proof -
  obtain rc q w' where m: "psm2_mq_init P (ep cm) (PSM2_MQ_ORDERMASK_NONE P) (world s) = (rc, q, w')"
    by (metis prod_cases3)
  let ?s1 = "store_comm c (cm\<lparr>mq := q\<rparr>) (s\<lparr>world := w'\<rparr>)"
  have w: "opened w' = opened (world s)"
    using ep_contract_quiet(1) [OF assms(1) q_mq_init [OF m]] .
  have i1: "ep_inv (opened (world ?s1)) ?s1"
    by (rule ep_inv_view [OF _ assms(3), of _ "cm\<lparr>mq := q\<rparr>"])
      (use assms(2) w in \<open>simp_all add: ep_view_def\<close>)
  have l1: "comms ?s1 c = Some (cm\<lparr>mq := q\<rparr>)" by simp
  have e0: "ep (cm\<lparr>mq := q\<rparr>) \<noteq> 0" using ep_inv_shared [OF assms(2-4)] by simp
  have cs1: "comms ?s1 = (comms s)(c := Some (cm\<lparr>mq := q\<rparr>))" by simp
  have "used_by_other (ep cm) c ?s1"
    unfolding used_by_other_upd [OF cs1] by (rule assms(5))
  then have u1: "used_by_other (ep (cm\<lparr>mq := q\<rparr>)) c ?s1" by simp
  show ?thesis
  proof (cases "rc = PSM2_OK P")
    case True
    then have "init_mq P c s = Ret (ncclSuccess, c, ?s1)"
      using assms(3) m by (simp add: init_mq_def load_comm_def Let_def)
    then have c': "c' = c" and s': "s' = ?s1" using assms(6) by simp_all
    have "opened (world ?s1) = opened (world s)" using w by simp
    moreover have "\<exists>cm'. comms ?s1 c = Some cm' \<and> ep cm' = ep cm" by simp
    ultimately show ?thesis unfolding c' s' by (intro conjI impI refl)
  next
    case False
    then obtain r2 s2 where f: "psm2comm_fini P c ?s1 = Ret (r2, s2)"
      and r: "r = ncclInternalError" and s': "s' = s2"
      using assms(3,6) m by (auto simp: init_mq_def load_comm_def Let_def psm2comm_bail_def)
    have "opened (world s2) = opened (world ?s1)"
      using psm2comm_fini_ep(3) [OF assms(1) i1 l1 e0 f u1]
        psm2comm_fini_opened [OF assms(1) i1 l1 f] by auto
    then show ?thesis using r s' w by simp
  qed
qed

text \<open>A communicator that gets the shared endpoint while another one uses it.\<close>

lemma init_ep_shared:
  fixes s :: "'w plugin"
  defines "k \<equiv> Suc (allocs s)"
    and "cm \<equiv> zero_comm\<lparr>ep := sh_ep (shared_ep s), epid := sh_epid (shared_ep s), has_shared_ep := True\<rparr>"
  assumes "comms_ok P opened s" and "room s" and "use_shared_ep s \<noteq> 0" and "refcount (shared_ep s) \<noteq> 0"
    and "check_unit P dev (s\<lparr>allocs := k, comms := (comms s)(k \<mapsto> zero_comm)\<rparr>) = Ret None"
  obtains s2 where "psm2comm_init_ep P dev uuid k (s\<lparr>allocs := k, comms := (comms s)(k \<mapsto> zero_comm)\<rparr>) =
      Ret (ncclSuccess, s2)"
    and "world s2 = world s" and "comms s2 k = Some cm" and "ep_inv (opened (world s2)) s2"
    and "used_by_other (ep cm) k s2"
proof -
  let ?s1 = "s\<lparr>allocs := k, comms := (comms s)(k \<mapsto> zero_comm)\<rparr>"
  let ?s2 = "attach_ep k zero_comm (sh_ep (shared_ep s)) (sh_epid (shared_ep s)) ?s1"
  have ok: "ep_contract P opened" "policy_ok ?s1" "ep_inv (opened (world s)) s"
    using assms(3) by (simp_all add: comms_ok_def policy_ok_def)
  have new: "comms s k = None"
    using heap_ok_fresh [of s] assms(3) by (simp add: comms_ok_def k_def)
  have ie: "psm2comm_init_ep P dev uuid k ?s1 = Ret (ncclSuccess, ?s2)"
    using assms(5-7) by (simp add: psm2comm_init_ep_def obtain_ep_def load_comm_def)
  have s2: "world ?s2 = world s" "comms ?s2 = (comms s)(k \<mapsto> cm)"
    using assms(5) by (simp_all add: attach_ep_def Let_def cm_def)
  have bare: "bare zero_comm" by (simp add: bare_def zero_comm_def)
  have i1: "ep_inv (opened (world ?s1)) ?s1"
    using ep_inv_add_bare [OF ok(3) new bare, of ?s1] by simp
  have c1: "comms ?s1 = (comms s)(k \<mapsto> zero_comm)" by simp
  have "card (dom (comms ?s1)) \<le> Suc (card (dom (comms s)))"
    unfolding c1 by (rule card_dom_upd_bound)
  then have d1: "card (dom (comms ?s1)) < 2 ^ 32"
    using assms(4) unfolding room_def by linarith
  have i2: "ep_inv (opened (world ?s2)) ?s2"
    using psm2comm_init_ep_returns [OF ok(1,2) i1 _ bare d1, of k dev uuid] ie
    by (simp add: comm_step_def)
  obtain d dm where d: "comms s d = Some dm" "has_shared_ep dm"
    using assms(6) refcount_0_iff [OF ok(3)] by (auto simp: sharers_def)
  then have "ep dm = ep cm" and "d \<noteq> k"
    using ep_inv_shared(1) [OF ok(3) d] new by (auto simp: cm_def)
  then have "used_by_other (ep cm) k ?s2"
    using d unfolding used_by_other_def s2 by (intro exI [of _ d] exI [of _ dm]) simp
  then show thesis using that ie s2 i2 by simp
qed

text \<open>
  C18: sharing. While endpoints are shared and the shared one is in use, a new communicator
  opens no endpoint: if it is created it uses the shared one. If the endpoint was opened for
  another device and the policy is \<open>error\<close>, the creation fails without a call of the library.
\<close>

theorem psm2comm_init_shares:
  assumes "comms_ok P opened s" and "room s" and "use_shared_ep s \<noteq> 0"
    and "refcount (shared_ep s) \<noteq> 0" and "psm2comm_init P dev uuid s = Ret (r, c, s')"
  shows "opened (world s') = opened (world s) \<and>
    (r = ncclSuccess \<longrightarrow> (\<exists>cm. comms s' c = Some cm \<and> ep cm = sh_ep (shared_ep s))) \<and>
    (use_nccl_dev_num s \<noteq> 0 \<and> sh_unit (shared_ep s) \<noteq> dev \<and>
       shared_ep_multi_policy s = SHARED_EP_MULTI_ERROR \<longrightarrow>
     r = ncclInternalError \<and> world s' = world s)"
proof (cases "alloc_ok P (allocs s)")
  case False
  then show ?thesis
    using assms(5)
    by (auto simp: psm2comm_init_def calloc_comm_def sizeof_psm2comm_handle_def
        NCCL_NET_HANDLE_MAXSIZE_def)
next
  case True
  let ?c = "Suc (allocs s)"
  let ?s1 = "s\<lparr>allocs := ?c, comms := (comms s)(?c \<mapsto> zero_comm)\<rparr>"
  have init: "psm2comm_init P dev uuid s = obind (psm2comm_init_ep P dev uuid ?c ?s1) (\<lambda>(rc, s2).
      if rc \<noteq> ncclSuccess then psm2comm_bail P ?c s2 else init_mq P ?c s2)"
    using True
    by (simp add: psm2comm_init_def calloc_comm_def sizeof_psm2comm_handle_def
        NCCL_NET_HANDLE_MAXSIZE_def Let_def)
  have ok: "ep_contract P opened" "policy_ok ?s1"
    using assms(1) by (simp_all add: comms_ok_def policy_ok_def)
  consider (early) "check_unit P dev ?s1 = Ret (Some ncclInternalError)" |
    (go) "check_unit P dev ?s1 = Ret None"
    using check_unit_returns [OF ok(2), of P dev] by blast
  then show ?thesis
  proof cases
    case early
    then have "psm2comm_init P dev uuid s = psm2comm_bail P ?c ?s1"
      by (simp add: init psm2comm_init_ep_def)
    then show ?thesis
      using assms(5) psm2comm_bail_zero [of ?s1 ?c P] by auto
  next
    case go
    let ?cm = "zero_comm\<lparr>ep := sh_ep (shared_ep s), epid := sh_epid (shared_ep s), has_shared_ep := True\<rparr>"
    obtain s2 where ie: "psm2comm_init_ep P dev uuid ?c ?s1 = Ret (ncclSuccess, s2)"
      and w: "world s2 = world s" and i2: "ep_inv (opened (world s2)) s2"
      and l2: "comms s2 ?c = Some ?cm" and u: "used_by_other (ep ?cm) ?c s2"
      by (rule init_ep_shared [OF assms(1-4) go])
    have "init_mq P ?c s2 = Ret (r, c, s')" using assms(5) init ie by simp
    note m = init_mq_shared [OF ok(1) i2 l2 _ u this]
    have "\<not> (use_nccl_dev_num s \<noteq> 0 \<and> sh_unit (shared_ep s) \<noteq> dev \<and>
       shared_ep_multi_policy s = SHARED_EP_MULTI_ERROR)"
      using go assms(3,4) by (auto simp: check_unit_def)
    then show ?thesis using m w by auto
  qed
qed

lemma psm2comm_init_shares_witness:
  "\<exists>c s'. psm2comm_init sim_platform 0 [] two_comms = Ret (ncclSuccess, c, s') \<and>
     set (sim_eps (world s')) = {1}"
proof -
  obtain c s' where i: "psm2comm_init sim_platform 0 [] two_comms = Ret (ncclSuccess, c, s')"
    by (simp add: psm2comm_init_def calloc_comm_def sizeof_psm2comm_handle_def
        NCCL_NET_HANDLE_MAXSIZE_def Let_def psm2comm_init_ep_def check_unit_def obtain_ep_def
        load_comm_def attach_ep_def init_mq_def)
  moreover have "room two_comms" by (simp add: room_def)
  ultimately show ?thesis
    using psm2comm_init_shares [OF two_comms_ok _ _ _ i] by simp
qed

end
