(* ===== verification/Progress.thy ===== *)
theory Progress
  imports Requests Psm2_Contract
begin

text \<open>
  \<open>mq_progress_loop\<close> of \<open>psm2_nccl_api.c\<close>: polling a matched queue and marking the
  requests whose operations completed. The loop has no bound in the code; under the
  contract of the matched queue it ends, and its effect is that of completing the retired
  operations one after the other.
\<close>

section \<open>mq_progress_loop\<close>

text \<open>
  One round of the loop returns \<open>Some rc\<close> when the function returns \<open>rc\<close>, \<open>None\<close> when
  the loop goes on (with \<open>rc == PSM2_OK\<close>). First what is done with the retired
  operation, then the round.
\<close>

definition complete_req ::
  "'w platform \<Rightarrow> mq_status \<Rightarrow> 'w plugin \<Rightarrow> (int option \<times> 'w plugin) outcome" where
  "complete_req P st s =
     obind (load_req (s_context st) s) (\<lambda>r.
       c_assert (ndebug P) (used r \<noteq> 0)
         (if used r = 0 then Ret (Some (-1), s)
          else c_assert (ndebug P) (req_done r = 0)
            (if req_done r \<noteq> 0 then Ret (Some (-1), s)
             else
               let r1 = r\<lparr>req_done := 1\<rparr>; s1 = store_req (s_context st) r1 s in
               if r_type r1 = ReqRecv
               then c_assert (ndebug P) (uint (s_nbytes st) \<le> INT_MAX)
                 (if INT_MAX < uint (s_nbytes st) then Ret (Some (-1), s1)
                  else Ret (None, store_req (s_context st)
                         (r1\<lparr>recv_size := u32_to_int (s_nbytes st)\<rparr>) s1))
               else Ret (None, s1))))"

definition progress_round ::
  "'w platform \<Rightarrow> addr \<Rightarrow> 'w plugin \<Rightarrow> (int option \<times> 'w plugin) outcome" where
  "progress_round P q s =
     (case psm2_mq_ipeek P q (world s) of (rc, h, w1) \<Rightarrow>
        if rc = PSM2_MQ_INCOMPLETE P then Ret (Some 0, s\<lparr>world := w1\<rparr>)
        else c_assert (ndebug P) (rc = PSM2_OK P)
          (if rc \<noteq> PSM2_OK P then Ret (Some rc, s\<lparr>world := w1\<rparr>)
           else case psm2_mq_test P h w1 of (testrc, st, w2) \<Rightarrow>
             c_assert (ndebug P) (testrc = PSM2_OK P)
               (if testrc \<noteq> PSM2_OK P then Ret (Some testrc, s\<lparr>world := w2\<rparr>)
                else complete_req P st (s\<lparr>world := w2\<rparr>))))"

partial_function (option) mq_progress_loop ::
  "'w platform \<Rightarrow> addr \<Rightarrow> 'w plugin \<Rightarrow> (int \<times> 'w plugin) outcome option" where
  "mq_progress_loop P q s =
     (case progress_round P q s of
        Abort \<Rightarrow> Some Abort
      | Undef \<Rightarrow> Some Undef
      | Ret (Some rc, s1) \<Rightarrow> Some (Ret (rc, s1))
      | Ret (None, s1) \<Rightarrow> mq_progress_loop P q s1)"

section \<open>Pending requests\<close>

text \<open>
  A request is pending when it is in use and not done. Every posted operation has a
  pending request of its own, and a length that fits an \<open>int\<close>.
\<close>

fun pending :: "'w plugin \<Rightarrow> req_ptr \<Rightarrow> bool" where
  "pending s (c, i) \<longleftrightarrow>
     (case comms s c of
        None \<Rightarrow> False
      | Some cm \<Rightarrow> i < length (requests cm) \<and> used (requests cm ! i) \<noteq> 0 \<and>
          req_done (requests cm ! i) = 0)"

definition posted_ok :: "'w plugin \<Rightarrow> (req_ptr \<times> 32 word) multiset \<Rightarrow> bool" where
  "posted_ok s pm \<longleftrightarrow>
     (\<forall>p l. (p, l) \<in># pm \<longrightarrow> pending s p \<and> uint l \<le> INT_MAX) \<and>
     (\<forall>p. count (image_mset fst pm) p \<le> 1)"

text \<open>What completing an operation does to its request.\<close>

definition finish_req :: "32 word \<Rightarrow> comm_req \<Rightarrow> comm_req" where
  "finish_req n r = r\<lparr>req_done := 1,
     recv_size := if r_type r = ReqRecv then uint n else recv_size r\<rparr>"

definition complete_status :: "mq_status \<Rightarrow> 'w plugin \<Rightarrow> 'w plugin" where
  "complete_status st s =
     (case load_req (s_context st) s of
        Ret r \<Rightarrow> store_req (s_context st) (finish_req (s_nbytes st) r) s
      | _ \<Rightarrow> s)"

lemma pendingD:
  assumes "pending s (c, i)"
  obtains cm where "comms s c = Some cm" and "i < length (requests cm)"
    and "used (requests cm ! i) \<noteq> 0" and "req_done (requests cm ! i) = 0"
  using assms by (auto split: option.splits)

lemma complete_req_pending:
  assumes "pending s (s_context st)" and "uint (s_nbytes st) \<le> INT_MAX"
  shows "complete_req P st s = Ret (None, complete_status st s)"
proof -
  obtain c i where ci: "s_context st = (c, i)" by fastforce
  from assms(1) obtain cm where "comms s c = Some cm" and "i < length (requests cm)"
    and "used (requests cm ! i) \<noteq> 0" and "req_done (requests cm ! i) = 0"
    unfolding ci by (rule pendingD)
  then show ?thesis
    using assms(2) u32_to_int_small [OF assms(2)]
    by (simp add: complete_req_def complete_status_def finish_req_def ci Let_def store_comm_def)
qed

lemma pending_complete:
  assumes "p \<noteq> s_context st"
  shows "pending (complete_status st s) p = pending s p"
proof -
  obtain c i where ci: "s_context st = (c, i)" by fastforce
  obtain d j where dj: "p = (d, j)" by fastforce
  show ?thesis
    using assms
    by (auto simp: complete_status_def ci dj nth_list_update split: option.splits outcome.splits if_splits)
qed

lemma pending_world [simp]: "pending (s\<lparr>world := w\<rparr>) p = pending s p"
  by (cases p) simp

lemma complete_status_world: "complete_status st (s\<lparr>world := w\<rparr>) = (complete_status st s)\<lparr>world := w\<rparr>"
proof -
  obtain c i where ci: "s_context st = (c, i)" by fastforce
  show ?thesis
    by (simp add: complete_status_def ci store_comm_def split: option.split)
qed

section \<open>The loop ends, and what it does\<close>

lemma posted_ok_world [simp]: "posted_ok (s\<lparr>world := w\<rparr>) pm = posted_ok s pm"
  by (simp add: posted_ok_def)

lemma posted_ok_pending: "posted_ok s pm \<Longrightarrow> (p, l) \<in># pm \<Longrightarrow> pending s p \<and> uint l \<le> INT_MAX"
  unfolding posted_ok_def by blast

lemma posted_ok_retire:
  assumes "posted_ok s pm" and "(s_context st, l) \<in># pm"
  shows "posted_ok (complete_status st s) (pm - {#(s_context st, l)#})"
proof -
  let ?p = "s_context st"
  obtain pm' where pm': "pm = add_mset (?p, l) pm'" using assms(2) by (blast dest: multi_member_split)
  have one: "count (image_mset fst pm) p \<le> 1" for p
    using assms(1) unfolding posted_ok_def by blast
  have "count (image_mset fst pm') ?p = 0" using one [of ?p] by (simp add: pm')
  then have new: "(?p, l') \<notin># pm'" for l'
    by (metis count_eq_zero_iff fst_conv image_eqI set_image_mset)
  have "pending (complete_status st s) p \<and> uint l' \<le> INT_MAX" if "(p, l') \<in># pm'" for p l'
  proof -
    have "p \<noteq> ?p" using that new by blast
    then show ?thesis
      using posted_ok_pending [OF assms(1), of p l'] that by (simp add: pm' pending_complete)
  qed
  moreover have "count (image_mset fst pm') p \<le> 1" for p
    using one [of p] by (auto simp: pm' split: if_splits)
  ultimately have "posted_ok (complete_status st s) pm'" unfolding posted_ok_def by blast
  then show ?thesis by (simp add: pm')
qed

text \<open>
  The operations \<open>sts\<close> were retired, in this order, from those that were posted, none with
  more bytes than its length, and each one completed its request.
\<close>

definition drained ::
  "('w \<Rightarrow> (req_ptr \<times> 32 word) multiset) \<Rightarrow> 'w plugin \<Rightarrow> 'w plugin \<Rightarrow> bool" where
  "drained posted s s' \<longleftrightarrow>
     (\<exists>sts ls. list_all2 (\<lambda>st l. s_nbytes st \<le> l) sts ls \<and>
        posted (world s) = posted (world s') + mset (zip (map s_context sts) ls) \<and>
        s' = (fold complete_status sts s)\<lparr>world := world s'\<rparr>)"

lemma drained_none: "posted w = posted (world s) \<Longrightarrow> drained posted s (s\<lparr>world := w\<rparr>)"
  unfolding drained_def by (intro exI [of _ "[]"]) simp

lemma fold_complete_world:
  "(fold complete_status sts (s\<lparr>world := w\<rparr>))\<lparr>world := w'\<rparr> = (fold complete_status sts s)\<lparr>world := w'\<rparr>"
  by (induction sts arbitrary: s) (simp_all add: complete_status_world)

lemma complete_status_world_eq [simp]: "world (complete_status st s) = world s"
proof -
  obtain c i where ci: "s_context st = (c, i)" by fastforce
  show ?thesis by (simp add: complete_status_def ci split: option.split)
qed

lemma drained_cons:
  assumes "(s_context st, l) \<in># posted (world s)" and "s_nbytes st \<le> l"
    and "posted w = posted (world s) - {#(s_context st, l)#}"
    and "drained posted (complete_status st (s\<lparr>world := w\<rparr>)) s'"
  shows "drained posted s s'"
proof -
  obtain sts ls where r: "list_all2 (\<lambda>st l. s_nbytes st \<le> l) sts ls"
    and p: "posted w = posted (world s') + mset (zip (map s_context sts) ls)"
    and s': "s' = (fold complete_status sts (complete_status st (s\<lparr>world := w\<rparr>)))\<lparr>world := world s'\<rparr>"
    using assms(4) unfolding drained_def by auto
  have "s' = (fold complete_status (st # sts) s)\<lparr>world := world s'\<rparr>"
    using s' fold_complete_world [where sts = "st # sts" and s = s and w = w and w' = "world s'"]
    by simp
  moreover have "posted (world s) = posted (world s') + mset (zip (map s_context (st # sts)) (l # ls))"
    using p assms(3) insert_DiffM [OF assms(1)] by simp
  ultimately show ?thesis
    unfolding drained_def using r assms(2) by (intro exI [of _ "st # sts"] exI [of _ "l # ls"]) simp
qed

lemma mq_contract_peek:
  assumes "mq_contract P posted" and "psm2_mq_ipeek P q w = (rc, h, w1)"
  shows "(rc = PSM2_MQ_INCOMPLETE P \<and> posted w1 = posted w) \<or>
    (rc = PSM2_OK P \<and>
     (\<exists>l st w2. psm2_mq_test P h w1 = (PSM2_OK P, st, w2) \<and>
        (s_context st, l) \<in># posted w \<and> s_nbytes st \<le> l \<and>
        posted w2 = posted w - {#(s_context st, l)#}))"
proof -
  from assms(1) have "\<forall>q w rc h w1. psm2_mq_ipeek P q w = (rc, h, w1) \<longrightarrow>
        (rc = PSM2_MQ_INCOMPLETE P \<and> posted w1 = posted w) \<or>
        (rc = PSM2_OK P \<and>
         (\<exists>l st w2. psm2_mq_test P h w1 = (PSM2_OK P, st, w2) \<and>
            (s_context st, l) \<in># posted w \<and> s_nbytes st \<le> l \<and>
            posted w2 = posted w - {#(s_context st, l)#}))"
    unfolding mq_contract_def by (elim conjE)
  then show ?thesis using assms(2) by blast
qed

text \<open>One round: either nothing is left to retire, or one operation is retired.\<close>

lemma progress_round_cases:
  assumes "mq_contract P posted" and "consts_ok P" and "posted_ok s (posted (world s))"
  shows "(\<exists>h w1. psm2_mq_ipeek P q (world s) = (PSM2_MQ_INCOMPLETE P, h, w1) \<and>
       progress_round P q s = Ret (Some 0, s\<lparr>world := w1\<rparr>) \<and> posted w1 = posted (world s)) \<or>
    (\<exists>st l w2. progress_round P q s = Ret (None, complete_status st (s\<lparr>world := w2\<rparr>)) \<and>
       (s_context st, l) \<in># posted (world s) \<and> s_nbytes st \<le> l \<and>
       posted w2 = posted (world s) - {#(s_context st, l)#})"
proof -
  obtain rc h w1 where pk: "psm2_mq_ipeek P q (world s) = (rc, h, w1)" by (metis prod_cases3)
  have ne: "PSM2_OK P \<noteq> PSM2_MQ_INCOMPLETE P" using assms(2) by (simp add: consts_ok_def)
  from mq_contract_peek [OF assms(1) pk] show ?thesis
  proof (elim disjE conjE exE)
    assume "rc = PSM2_MQ_INCOMPLETE P" and "posted w1 = posted (world s)"
    then show ?thesis using pk by (intro disjI1 exI [of _ h] exI [of _ w1]) (simp add: progress_round_def)
  next
    fix l st w2
    assume rc: "rc = PSM2_OK P" and t: "psm2_mq_test P h w1 = (PSM2_OK P, st, w2)"
      and l: "(s_context st, l) \<in># posted (world s)" "s_nbytes st \<le> l"
      and w2: "posted w2 = posted (world s) - {#(s_context st, l)#}"
    have "pending (s\<lparr>world := w2\<rparr>) (s_context st)" and "uint l \<le> INT_MAX"
      using posted_ok_pending [OF assms(3) l(1)] by simp_all
    moreover from this have "uint (s_nbytes st) \<le> INT_MAX"
      using l(2) by (simp add: word_le_def)
    ultimately have "progress_round P q s = Ret (None, complete_status st (s\<lparr>world := w2\<rparr>))"
      using pk rc t ne by (simp add: progress_round_def complete_req_pending)
    then show ?thesis using l w2 by blast
  qed
qed

definition queue_empty :: "'w platform \<Rightarrow> addr \<Rightarrow> 'w \<Rightarrow> bool" where
  "queue_empty P q w' \<longleftrightarrow> (\<exists>w h. psm2_mq_ipeek P q w = (PSM2_MQ_INCOMPLETE P, h, w'))"

lemma mq_progress_loop_result:
  assumes "mq_contract P posted" and "consts_ok P" and "posted_ok s (posted (world s))"
  shows "\<exists>s'. mq_progress_loop P q s = Some (Ret (0, s')) \<and> drained posted s s' \<and>
    posted_ok s' (posted (world s')) \<and> queue_empty P q (world s')"
  using assms(3)
proof (induction "size (posted (world s))" arbitrary: s rule: less_induct)
  case less
  from progress_round_cases [OF assms(1,2) less.prems, of q] show ?case
  proof (elim disjE exE conjE)
    fix h w1 assume pk: "psm2_mq_ipeek P q (world s) = (PSM2_MQ_INCOMPLETE P, h, w1)"
      and r: "progress_round P q s = Ret (Some 0, s\<lparr>world := w1\<rparr>)"
      and w1: "posted w1 = posted (world s)"
    have "mq_progress_loop P q s = Some (Ret (0, s\<lparr>world := w1\<rparr>))"
      using r by (simp add: mq_progress_loop.simps)
    moreover have "queue_empty P q w1" unfolding queue_empty_def using pk by blast
    ultimately show ?thesis using w1 less.prems drained_none [of posted, OF w1] by simp
  next
    fix st l w2
    assume r: "progress_round P q s = Ret (None, complete_status st (s\<lparr>world := w2\<rparr>))"
      and l: "(s_context st, l) \<in># posted (world s)" "s_nbytes st \<le> l"
      and w2: "posted w2 = posted (world s) - {#(s_context st, l)#}"
    let ?s1 = "complete_status st (s\<lparr>world := w2\<rparr>)"
    have "size (posted (world ?s1)) < size (posted (world s))"
      using l(1) w2 by (simp add: size_Diff1_less)
    moreover have "posted_ok ?s1 (posted (world ?s1))"
      using posted_ok_retire [OF less.prems l(1)] w2 by (simp add: complete_status_world)
    ultimately obtain s' where "mq_progress_loop P q ?s1 = Some (Ret (0, s'))"
      and "drained posted ?s1 s'" and "posted_ok s' (posted (world s'))"
      and "queue_empty P q (world s')"
      using less.hyps by blast
    moreover have "mq_progress_loop P q s = mq_progress_loop P q ?s1"
      using r by (subst mq_progress_loop.simps) simp
    ultimately show ?thesis using drained_cons [OF l w2] by auto
  qed
qed

text \<open>Polling does not open or close endpoints, whatever the library reports.\<close>

lemma store_req_world_eq [simp]: "world (store_req p r s) = world s"
  by (cases p) (simp split: option.split)

lemma complete_req_world_eq: "complete_req P st s = Ret (x, s') \<Longrightarrow> world s' = world s"
  by (auto simp: complete_req_def Let_def outcome_simps split: if_splits)

text \<open>The calls that poll, and sequences of them.\<close>

inductive poll_call :: "'w platform \<Rightarrow> 'w \<Rightarrow> 'w \<Rightarrow> bool" for P where
  pc_peek: "psm2_mq_ipeek P q w = (rc, h, w') \<Longrightarrow> poll_call P w w'"
| pc_test: "psm2_mq_test P h w = (rc, st, w') \<Longrightarrow> poll_call P w w'"

abbreviation poll_calls :: "'w platform \<Rightarrow> 'w \<Rightarrow> 'w \<Rightarrow> bool" where
  "poll_calls P \<equiv> rtranclp (poll_call P)"

lemma poll_calls_opened:
  assumes "ep_contract P opened" and "poll_calls P w w'"
  shows "opened w' = opened w"
  using assms(2)
proof (induction rule: rtranclp_induct)
  case (step w1 w2)
  then show ?case using ep_contract_quiet(5,6) [OF assms(1)] by (auto elim!: poll_call.cases)
qed simp

lemma progress_round_polls:
  assumes "progress_round P q s = Ret (x, s')"
  shows "poll_calls P (world s) (world s')"
proof -
  obtain rc h w1 where pk: "psm2_mq_ipeek P q (world s) = (rc, h, w1)" by (metis prod_cases3)
  obtain trc st w2 where t: "psm2_mq_test P h w1 = (trc, st, w2)" by (metis prod_cases3)
  have c1: "poll_calls P (world s) w1" using pc_peek [OF pk] by blast
  moreover have "poll_calls P (world s) w2"
    using c1 pc_test [OF t] by (rule rtranclp.rtrancl_into_rtrancl)
  moreover have "world s' = w1 \<or> world s' = w2"
    using assms pk t
    by (auto simp: progress_round_def outcome_simps dest!: complete_req_world_eq split: if_splits)
  ultimately show ?thesis by auto
qed

text \<open>A loop that returns has made a number of rounds, each of which returned.\<close>

lemma mq_progress_loop_rounds:
  assumes "mq_progress_loop P q s = Some (Ret (rc, s'))"
  shows "(\<lambda>s s'. \<exists>x. progress_round P q s = Ret (x, s'))\<^sup>*\<^sup>* s s'"
proof -
  let ?R = "\<lambda>P q s s'. \<exists>x. progress_round P q s = Ret (x, s')"
  let ?Q = "\<lambda>x m. \<forall>rc s'. m = Ret (rc, s') \<longrightarrow> (?R (fst (fst x)) (snd (fst x)))\<^sup>*\<^sup>* (snd x) s'"
  have "?Q ((P, q), s) (Ret (rc, s'))"
  proof (rule mq_progress_loop.raw_induct [of ?Q, OF _ assms])
    fix loop P q s m
    assume ih: "\<And>P q s m. loop P q s = Some m \<Longrightarrow> ?Q ((P, q), s) m"
      and body: "(case progress_round P q s of Ret (None, s1) \<Rightarrow> loop P q s1
        | Ret (Some rc, s1) \<Rightarrow> Some (Ret (rc, s1)) | Abort \<Rightarrow> Some Abort | Undef \<Rightarrow> Some Undef) =
        Some m"
    show "?Q ((P, q), s) m"
    proof (intro impI allI)
      fix rc s' assume m: "m = Ret (rc, s')"
      obtain x s1 where r: "progress_round P q s = Ret (x, s1)"
        using body m by (cases "progress_round P q s") auto
      then have one: "?R P q s s1" by blast
      have "(?R P q)\<^sup>*\<^sup>* s1 s'" using body r m ih [of P q s1 m] by (cases x) auto
      with one have "(?R P q)\<^sup>*\<^sup>* s s'" by (rule converse_rtranclp_into_rtranclp [where r = "?R P q"])
      then show "(?R (fst (fst ((P, q), s))) (snd (fst ((P, q), s))))\<^sup>*\<^sup>* (snd ((P, q), s)) s'" by simp
    qed
  qed
  then show ?thesis by simp
qed

lemma mq_progress_loop_polls:
  assumes "mq_progress_loop P q s = Some (Ret (rc, s'))"
  shows "poll_calls P (world s) (world s')"
  using mq_progress_loop_rounds [OF assms]
proof (induction rule: rtranclp_induct)
  case (step s1 s2)
  then show ?case using progress_round_polls rtranclp_trans by metis
qed simp

lemma mq_progress_loop_opened:
  "ep_contract P opened \<Longrightarrow> mq_progress_loop P q s = Some (Ret (rc, s')) \<Longrightarrow>
     opened (world s') = opened (world s)"
  using poll_calls_opened mq_progress_loop_polls by metis

text \<open>Each retired operation was posted, with a pending request, and none is retired twice.\<close>

lemma retired_posted:
  assumes "list_all2 (\<lambda>e l. s_nbytes e \<le> l) sts ls" and "e \<in> set sts"
  obtains l where "(s_context e, l) \<in> set (zip (map s_context sts) ls)" and "s_nbytes e \<le> l"
proof -
  obtain k where k: "k < length sts" "sts ! k = e" using assms(2) by (auto simp: in_set_conv_nth)
  then have le: "s_nbytes e \<le> ls ! k" and "k < length ls"
    using list_all2_nthD [OF assms(1) k(1)] list_all2_lengthD [OF assms(1)] by auto
  then have "(s_context e, ls ! k) \<in> set (zip (map s_context sts) ls)"
    using k by (auto simp: set_zip intro!: exI [of _ k])
  then show thesis using le by (rule that)
qed

lemma retired_pending:
  assumes "posted_ok s (N + mset (zip (map s_context sts) ls))"
    and "list_all2 (\<lambda>e l. s_nbytes e \<le> l) sts ls" and "e \<in> set sts"
  shows "pending s (s_context e)"
proof -
  obtain l where "(s_context e, l) \<in> set (zip (map s_context sts) ls)"
    using assms(2,3) by (rule retired_posted)
  then have "(s_context e, l) \<in># N + mset (zip (map s_context sts) ls)" by simp
  then show ?thesis using assms(1) unfolding posted_ok_def by blast
qed

lemma retired_distinct:
  assumes "posted_ok s (N + mset (zip (map s_context sts) ls))" and "length ls = length sts"
  shows "distinct (map s_context sts)"
  unfolding distinct_count_atmost_1
proof (intro allI)
  fix x
  let ?M = "N + mset (zip (map s_context sts) ls)"
  have "count (mset (map fst (zip (map s_context sts) ls))) x \<le> count (image_mset fst ?M) x"
    by simp
  also have "\<dots> \<le> 1" using assms(1) unfolding posted_ok_def by blast
  finally show "count (mset (map s_context sts)) x = (if x \<in> set (map s_context sts) then 1 else 0)"
    using assms(2) by (auto simp: count_eq_zero_iff le_Suc_eq simp flip: count_greater_zero_iff)
qed

text \<open>
  C8: the polling loop ends and does what it is there for. It returns 0, with no assertion
  failing and no request touched that is not in use, after the library has reported that the
  queue has nothing more to retire; the state it leaves is the one of before with the
  requests of the retired operations completed in the order in which they were retired.
\<close>

theorem mq_progress_loop_drains:
  assumes "mq_contract P posted" and "consts_ok P" and "posted_ok s (posted (world s))"
  shows "\<exists>s' sts ls. mq_progress_loop P q s = Some (Ret (0, s')) \<and> queue_empty P q (world s') \<and>
    s' = (fold complete_status sts s)\<lparr>world := world s'\<rparr> \<and> distinct (map s_context sts) \<and>
    list_all2 (\<lambda>st l. s_nbytes st \<le> l) sts ls \<and>
    posted (world s) = posted (world s') + mset (zip (map s_context sts) ls)"
proof -
  obtain s' where l: "mq_progress_loop P q s = Some (Ret (0, s'))" and "drained posted s s'"
    and e: "queue_empty P q (world s')"
    using mq_progress_loop_result [OF assms] by blast
  then obtain sts ls where r: "list_all2 (\<lambda>st l. s_nbytes st \<le> l) sts ls"
    and p: "posted (world s) = posted (world s') + mset (zip (map s_context sts) ls)"
    and s': "s' = (fold complete_status sts s)\<lparr>world := world s'\<rparr>"
    unfolding drained_def by blast
  have len: "length ls = length sts" using r by (simp add: list_all2_lengthD)
  have "distinct (map s_context sts)" by (rule retired_distinct [OF assms(3) [unfolded p] len])
  then show ?thesis using l e r p s' by blast
qed

text \<open>One receive is outstanding, and it completes.\<close>

definition one_posted :: "sim plugin" where
  "one_posted = (initial_plugin (sim0\<lparr>sim_posted := [(1, 0, (1, 0), 8)]\<rparr>))
     \<lparr>comms := [1 \<mapsto> zero_comm\<lparr>requests := [zero_req\<lparr>used := 1, r_type := ReqRecv\<rparr>]\<rparr>]\<rparr>"

lemma mq_progress_loop_drains_witness:
  "\<exists>s'. mq_progress_loop sim_platform 0 one_posted = Some (Ret (0, s')) \<and> sim_view (world s') = {#} \<and>
     (\<exists>cm. comms s' 1 = Some cm \<and> req_done (requests cm ! 0) = 1 \<and> recv_size (requests cm ! 0) = 8)"
proof -
  have v: "sim_view (world one_posted) = {#((1, 0), 8)#}"
    by (simp add: one_posted_def sim_view_def)
  have "posted_ok one_posted (sim_view (world one_posted))"
    unfolding v posted_ok_def by (auto simp: one_posted_def INT_MAX_def)
  from mq_progress_loop_drains [OF sim_mq_contract sim_consts_ok this, of 0] obtain s' sts ls
    where l: "mq_progress_loop sim_platform 0 one_posted = Some (Ret (0, s'))" by blast
  moreover have "progress_round sim_platform 0 one_posted =
      Ret (None, complete_status \<lparr>s_context = (1, 0), s_nbytes = 8\<rparr>
        (one_posted\<lparr>world := sim0\<rparr>))"
    by (simp add: progress_round_def one_posted_def sim_test_def complete_req_def complete_status_def
        finish_req_def INT_MAX_def u32_to_int_def Let_def store_comm_def sim0_def)
  moreover have "progress_round sim_platform 0 (complete_status \<lparr>s_context = (1, 0), s_nbytes = 8\<rparr>
        (one_posted\<lparr>world := sim0\<rparr>)) = Ret (Some 0, complete_status
        \<lparr>s_context = (1, 0), s_nbytes = 8\<rparr> (one_posted\<lparr>world := sim0\<rparr>))"
    by (simp add: progress_round_def sim0_def)
  ultimately have "s' = complete_status \<lparr>s_context = (1, 0), s_nbytes = 8\<rparr> (one_posted\<lparr>world := sim0\<rparr>)"
    by (simp add: mq_progress_loop.simps)
  moreover have "sim_view sim0 = {#}" by (simp add: sim_view_def sim0_def)
  ultimately show ?thesis
    using l by (simp add: complete_status_def one_posted_def finish_req_def)
qed

end
