(* ===== verification/Conn_Api.thy ===== *)
theory Conn_Api
  imports Comm_Life
begin

text \<open>
  The connection calls of \<open>psm2_nccl_api.c\<close>: listen, connect, accept and the three
  close calls. A communicator is passed to NCCL as its address.
\<close>

section \<open>The calls\<close>

definition ULLONG_MAX :: "64 word" where
  "ULLONG_MAX = 18446744073709551615"

definition COMM_EP_CONNECT_TIMEOUT :: int where
  "COMM_EP_CONNECT_TIMEOUT = 5000000000"

text \<open>
  \<open>psm2_nccl_listen\<close> returns what it stores in \<open>*listenComm\<close> and, if it writes to it,
  the new content of the handle.
\<close>

definition psm2_nccl_listen ::
  "'w platform \<Rightarrow> int \<Rightarrow> 'w plugin
    \<Rightarrow> (ncclResult \<times> addr \<times> psm2comm_handle option \<times> 'w plugin) outcome" where
  "psm2_nccl_listen P dev s =
     c_assert (ndebug P) (next_tag s + 1 < ULLONG_MAX)
       (if ULLONG_MAX \<le> next_tag s + 1 then Ret (ncclInternalError, 0, None, s)
        else obind (psm2comm_init P dev (jobkey s) s) (\<lambda>(rc, c, s1).
          if c \<noteq> 0 then
            obind (load_comm c s1) (\<lambda>cm.
              let cm1 = cm\<lparr>tag := next_tag s1\<rparr>;
                  s2 = store_comm c cm1 (s1\<lparr>next_tag := next_tag s1 + 1\<rparr>)
              in Ret (rc, c, Some \<lparr>h_epid = epid cm1, h_tag = tag cm1\<rparr>, s2))
          else Ret (rc, 0, None, s1)))"

text \<open>The error exit of \<open>psm2_nccl_connect\<close>, and the call.\<close>

definition connect_bail ::
  "'w platform \<Rightarrow> addr \<Rightarrow> ncclResult \<Rightarrow> 'w plugin \<Rightarrow> (ncclResult \<times> addr \<times> 'w plugin) outcome" where
  "connect_bail P c rc s =
     (if c \<noteq> 0 then obind (psm2comm_fini P c s) (\<lambda>(_, s1). Ret (rc, 0, s1))
      else Ret (rc, 0, s))"

definition psm2_nccl_connect ::
  "'w platform \<Rightarrow> int \<Rightarrow> psm2comm_handle \<Rightarrow> 'w plugin \<Rightarrow> (ncclResult \<times> addr \<times> 'w plugin) outcome" where
  "psm2_nccl_connect P dev h s =
     obind (psm2comm_init P dev (jobkey s) s) (\<lambda>(rc, c, s1).
       if rc \<noteq> ncclSuccess then connect_bail P c rc s1
       else obind (load_comm c s1) (\<lambda>cm.
         let cm1 = cm\<lparr>rem_epid := h_epid h, tag := h_tag h\<rparr>; s2 = store_comm c cm1 s1 in
         case psm2_ep_connect P (ep cm1) (rem_epid cm1) 1 COMM_EP_CONNECT_TIMEOUT (world s2) of
           (prc, err, a, w') \<Rightarrow>
             let s3 = s2\<lparr>world := w'\<rparr> in
             if prc \<noteq> PSM2_OK P \<or> err \<noteq> PSM2_OK P then connect_bail P c ncclInternalError s3
             else Ret (ncclSuccess, c, store_comm c (cm1\<lparr>rem_epaddr := a\<rparr>) s3)))"

text \<open>The versions for NCCL's version 8 also clear \<open>*sendDevComm\<close> and \<open>*recvDevComm\<close>.\<close>

definition psm2_nccl_connect_v8 ::
  "'w platform \<Rightarrow> int \<Rightarrow> psm2comm_handle \<Rightarrow> 'w plugin
    \<Rightarrow> (ncclResult \<times> addr \<times> addr \<times> 'w plugin) outcome" where
  "psm2_nccl_connect_v8 P dev h s =
     obind (psm2_nccl_connect P dev h s) (\<lambda>(rc, c, s1). Ret (rc, c, 0, s1))"

definition psm2_nccl_accept :: "addr \<Rightarrow> 'w plugin \<Rightarrow> (ncclResult \<times> addr \<times> 'w plugin) outcome" where
  "psm2_nccl_accept listenComm s = Ret (ncclSuccess, listenComm, s)"

definition psm2_nccl_accept_v8 ::
  "addr \<Rightarrow> 'w plugin \<Rightarrow> (ncclResult \<times> addr \<times> addr \<times> 'w plugin) outcome" where
  "psm2_nccl_accept_v8 listenComm s =
     obind (psm2_nccl_accept listenComm s) (\<lambda>(rc, c, s1). Ret (rc, c, 0, s1))"

definition psm2_nccl_closeSend ::
  "'w platform \<Rightarrow> addr \<Rightarrow> 'w plugin \<Rightarrow> (ncclResult \<times> 'w plugin) outcome" where
  "psm2_nccl_closeSend P sendComm s = psm2comm_fini P sendComm s"

definition psm2_nccl_closeRecv ::
  "'w platform \<Rightarrow> addr \<Rightarrow> 'w plugin \<Rightarrow> (ncclResult \<times> 'w plugin) outcome" where
  "psm2_nccl_closeRecv P recvComm s = psm2comm_fini P recvComm s"

definition psm2_nccl_closeListen ::
  "addr \<Rightarrow> 'w plugin \<Rightarrow> (ncclResult \<times> 'w plugin) outcome" where
  "psm2_nccl_closeListen listenComm s = Ret (ncclSuccess, s)"

section \<open>Listening\<close>

text \<open>What a tag that is left to hand out is.\<close>

definition tags_left :: "'w plugin \<Rightarrow> bool" where
  "tags_left s \<longleftrightarrow> next_tag s + 1 < ULLONG_MAX"

lemma comms_ok_cong:
  assumes "comms_ok P opened s" and "ep_inv (opened (world s')) s'"
    and "opened (world s') = opened (world s)" and "dom (comms s') = dom (comms s)"
    and "\<And>c cm. comms s c = Some cm \<Longrightarrow> \<exists>cm'. comms s' c = Some cm' \<and> ep cm' = ep cm"
    and "strs s' = strs s" and "allocs s' = allocs s"
    and "shared_ep_multi_policy s' = shared_ep_multi_policy s"
  shows "comms_ok P opened s'"
proof -
  have "heap_ok s'"
    unfolding heap_ok_def
  proof (intro allI impI)
    fix a assume "allocs s' < a \<or> a = 0"
    then have "strs s a = None" and "a \<notin> dom (comms s)"
      using assms(1,7) by (auto simp: comms_ok_def heap_ok_def)
    then show "strs s' a = None \<and> comms s' a = None"
      using assms(4,6) by (auto simp: domIff)
  qed
  moreover have "no_stray_ep (opened (world s')) (comms s')"
    if ns: "no_stray_ep (opened (world s)) (comms s)"
    unfolding no_stray_ep_def
  proof (intro ballI impI)
    fix e assume "e \<in> opened (world s')" and "e \<noteq> 0"
    then obtain c cm where "comms s c = Some cm" and "ep cm = e"
      using ns assms(3) unfolding no_stray_ep_def by metis
    then show "\<exists>c cm. comms s' c = Some cm \<and> ep cm = e" using assms(5) by blast
  qed
  ultimately show ?thesis
    using assms(1,2,8) by (simp add: comms_ok_def policy_ok_def)
qed

text \<open>Storing members of a communicator other than those of its endpoint.\<close>

lemma comms_ok_store:
  assumes "comms_ok P opened s" and "comms s c = Some cm" and "ep_view cm1 = ep_view cm"
    and "comms s' = (comms s)(c \<mapsto> cm1)" and "shared_ep s' = shared_ep s"
    and "opened (world s') = opened (world s)" and "strs s' = strs s" and "allocs s' = allocs s"
    and "shared_ep_multi_policy s' = shared_ep_multi_policy s"
  shows "comms_ok P opened s'"
proof (rule comms_ok_cong [OF assms(1) _ assms(6) _ _ assms(7-9)])
  have "ep_inv (opened (world s)) s" using assms(1) by (simp add: comms_ok_def)
  from ep_inv_view [OF this assms(2-5)] show "ep_inv (opened (world s')) s'"
    unfolding assms(6) .
  show "dom (comms s') = dom (comms s)" using assms(2,4) by auto
  fix d dm assume d: "comms s d = Some dm"
  have "ep cm1 = ep cm" using assms(3) by (simp add: ep_view_def)
  then show "\<exists>dm'. comms s' d = Some dm' \<and> ep dm' = ep dm"
    using d assms(2) unfolding assms(4) by (cases "d = c") auto
qed

lemma comm_step_facts:
  assumes "comm_step P opened s s'"
  shows "same_globals s s'" and "control_calls P (world s) (world s')"
  using assms unfolding comm_step_def by blast+

lemma psm2_nccl_listen_returns:
  assumes "comms_ok P opened s" and "room s" and "tags_left s"
  shows "returns (psm2_nccl_listen P dev s) (\<lambda>(r, c, h, s'). comms_ok P opened s' \<and>
    control_calls P (world s) (world s') \<and> same_globals (s\<lparr>next_tag := next_tag s'\<rparr>) s' \<and>
    allocs s' = Suc (allocs s) \<and>
    (if r = ncclSuccess
     then c = Suc (allocs s) \<and> next_tag s' = next_tag s + 1 \<and>
       (\<exists>m. made_comm (use_shared_ep s \<noteq> 0) m \<and>
          comms s' = (comms s)(c \<mapsto> m\<lparr>tag := next_tag s\<rparr>) \<and>
          h = Some \<lparr>h_epid = epid m, h_tag = next_tag s\<rparr>)
     else r = ncclInternalError \<and> c = 0 \<and> h = None \<and> comms s' = comms s \<and>
       next_tag s' = next_tag s))"
proof -
  have "ep_contract P opened" "policy_ok s" "ep_inv (opened (world s)) s" "heap_ok s"
    "Suc (card (dom (comms s))) < 2 ^ 32"
    using assms(1,2) by (simp_all add: comms_ok_def room_def)
  from psm2comm_init_returns [OF this, of dev "jobkey s"]
  obtain r c s1 where i: "psm2comm_init P dev (jobkey s) s = Ret (r, c, s1)"
    by (auto simp: returns_iff)
  note ok = psm2comm_init_ok [OF assms(1,2) i]
  note g = comm_step_facts [OF ok(2)]
  have tg: "next_tag s1 = next_tag s" "use_shared_ep s1 = use_shared_ep s"
    using g(1) by (simp_all add: same_globals_def)
  have t: "next_tag s + 1 < ULLONG_MAX" "\<not> ULLONG_MAX \<le> next_tag s + 1"
    using assms(3) by (simp_all add: tags_left_def)
  show ?thesis
  proof (cases "r = ncclSuccess")
    case True
    then obtain m where c: "c = Suc (allocs s)" "comms s c = None"
      and cs: "comms s1 = (comms s)(c \<mapsto> m)" and m: "made_comm (use_shared_ep s \<noteq> 0) m"
      using ok(3) by blast
    let ?s2 = "store_comm c (m\<lparr>tag := next_tag s\<rparr>) (s1\<lparr>next_tag := next_tag s + 1\<rparr>)"
    have l: "comms s1 c = Some m" by (simp add: cs)
    have v: "ep_view (m\<lparr>tag := next_tag s\<rparr>) = ep_view m" by (simp add: ep_view_def)
    have "comms_ok P opened ?s2"
      by (rule comms_ok_store [OF ok(1) l v]) (simp_all add: store_comm_def)
    moreover have "psm2_nccl_listen P dev s =
        Ret (r, c, Some \<lparr>h_epid = epid m, h_tag = next_tag s\<rparr>, ?s2)"
      using t i c l tg by (simp add: psm2_nccl_listen_def load_comm_def Let_def)
    moreover have "comms ?s2 = (comms s)(c \<mapsto> m\<lparr>tag := next_tag s\<rparr>)" by (simp add: cs)
    moreover have "same_globals (s\<lparr>next_tag := next_tag ?s2\<rparr>) ?s2"
      using g(1) by (simp add: same_globals_def store_comm_def)
    ultimately show ?thesis
      using True c m g(2) ok(5) by (simp add: store_comm_def) blast
  next
    case False
    then have "psm2_nccl_listen P dev s = Ret (r, 0, None, s1)"
      using t i ok(4) by (simp add: psm2_nccl_listen_def)
    moreover have "same_globals (s\<lparr>next_tag := next_tag s1\<rparr>) s1"
      using g(1) by (simp add: same_globals_def)
    ultimately show ?thesis using False ok g(2) tg by simp
  qed
qed

section \<open>Connecting\<close>

lemma connect_bail_returns:
  assumes "comms_ok P opened s1" and "comms s1 = cs(c \<mapsto> cm)" and "cs c = None" and "c \<noteq> 0"
  shows "returns (connect_bail P c rc s1) (\<lambda>(r, c', s'). r = rc \<and> c' = 0 \<and>
    comms_ok P opened s' \<and> control_calls P (world s1) (world s') \<and> same_globals s1 s' \<and>
    allocs s' = allocs s1 \<and> comms s' = cs)"
proof -
  have l: "comms s1 c = Some cm" using assms(2) by simp
  have "ep_contract P opened" "ep_inv (opened (world s1)) s1"
    using assms(1) by (simp_all add: comms_ok_def)
  from psm2comm_fini_returns [OF this l] obtain r s' where f: "psm2comm_fini P c s1 = Ret (r, s')"
    by (auto simp: returns_iff)
  note ok = psm2comm_fini_ok [OF assms(1) l f]
  have "comms s' = cs" using ok(3) assms(2,3) by (simp add: fun_upd_idem)
  then show ?thesis
    using f ok assms(4) comm_step_facts [OF ok(2)] by (simp add: connect_bail_def)
qed

definition connected :: "psm2comm_handle \<Rightarrow> bool \<Rightarrow> psm2comm \<Rightarrow> bool" where
  "connected h shared cm \<longleftrightarrow> (\<exists>m a. made_comm shared m \<and>
     cm = m\<lparr>rem_epid := h_epid h, tag := h_tag h, rem_epaddr := a\<rparr>)"

lemma psm2_nccl_connect_returns:
  assumes "comms_ok P opened s" and "room s"
  shows "returns (psm2_nccl_connect P dev h s) (\<lambda>(r, c, s'). comms_ok P opened s' \<and>
    control_calls P (world s) (world s') \<and> same_globals s s' \<and> allocs s' = Suc (allocs s) \<and>
    (if r = ncclSuccess
     then c = Suc (allocs s) \<and> (\<exists>cm. comms s' = (comms s)(c \<mapsto> cm) \<and>
       connected h (use_shared_ep s \<noteq> 0) cm)
     else r = ncclInternalError \<and> c = 0 \<and> comms s' = comms s))"
proof -
  have a: "ep_contract P opened" "policy_ok s" "ep_inv (opened (world s)) s" "heap_ok s"
    "Suc (card (dom (comms s))) < 2 ^ 32"
    using assms(1,2) by (simp_all add: comms_ok_def room_def)
  from psm2comm_init_returns [OF this, of dev "jobkey s"]
  obtain r c s1 where i: "psm2comm_init P dev (jobkey s) s = Ret (r, c, s1)"
    by (auto simp: returns_iff)
  note ok = psm2comm_init_ok [OF assms(1,2) i]
  note g = comm_step_facts [OF ok(2)]
  show ?thesis
  proof (cases "r = ncclSuccess")
    case False
    then have "psm2_nccl_connect P dev h s = Ret (r, 0, s1)"
      using i ok(4) by (simp add: psm2_nccl_connect_def connect_bail_def)
    then show ?thesis using False ok g by simp
  next
    case True
    then obtain m where c: "c = Suc (allocs s)" "comms s c = None"
      and cs: "comms s1 = (comms s)(c \<mapsto> m)" and m: "made_comm (use_shared_ep s \<noteq> 0) m"
      using ok(3) by blast
    let ?m1 = "m\<lparr>rem_epid := h_epid h, tag := h_tag h\<rparr>"
    obtain prc err ad w' where cn: "psm2_ep_connect P (ep ?m1) (rem_epid ?m1) 1
        COMM_EP_CONNECT_TIMEOUT (world (store_comm c ?m1 s1)) = (prc, err, ad, w')"
      by (metis prod_cases4)
    let ?s3 = "(store_comm c ?m1 s1)\<lparr>world := w'\<rparr>"
    let ?s4 = "store_comm c (?m1\<lparr>rem_epaddr := ad\<rparr>) ?s3"
    have q: "quiet_call P (world s1) w'" using q_connect [OF cn] by simp
    have w: "opened w' = opened (world s1)" by (rule ep_contract_quiet(1) [OF a(1) q])
    have cc: "control_calls P (world s) w'" by (rule cc_quiet [OF g(2) q])
    have l1: "comms s1 c = Some m" by (simp add: cs)
    have v: "ep_view ?m1 = ep_view m" by (simp add: ep_view_def)
    have ok3: "comms_ok P opened ?s3"
      by (rule comms_ok_store [OF ok(1) l1 v]) (simp_all add: store_comm_def w)
    have cs3: "comms ?s3 = (comms s)(c \<mapsto> ?m1)" by (simp add: cs)
    have gl: "same_globals s ?s3" using g(1) by simp
    have al: "allocs ?s3 = Suc (allocs s)" using ok(5) by simp
    have conn: "psm2_nccl_connect P dev h s =
        (if prc \<noteq> PSM2_OK P \<or> err \<noteq> PSM2_OK P then connect_bail P c ncclInternalError ?s3
         else Ret (ncclSuccess, c, ?s4))"
      using i True l1 cn by (simp add: psm2_nccl_connect_def load_comm_def Let_def)
    show ?thesis
    proof (cases "prc \<noteq> PSM2_OK P \<or> err \<noteq> PSM2_OK P")
      case bad: True
      have c0: "c \<noteq> 0" using c by simp
      show ?thesis
        unfolding conn using bad
        by (simp only: if_True, intro returns_mono [OF connect_bail_returns [OF ok3 cs3 c(2) c0]])
          (use cc gl al control_calls_trans [of P "world s" w'] same_globals_trans [OF gl] in auto)
    next
      case good: False
      have l3: "comms ?s3 c = Some ?m1" by simp
      have "comms_ok P opened ?s4"
        by (rule comms_ok_store [OF ok3 l3, of "?m1\<lparr>rem_epaddr := ad\<rparr>"])
          (simp_all add: store_comm_def ep_view_def)
      moreover have "comms ?s4 = (comms s)(c \<mapsto> ?m1\<lparr>rem_epaddr := ad\<rparr>)" by (simp add: cs)
      moreover have "connected h (use_shared_ep s \<noteq> 0) (?m1\<lparr>rem_epaddr := ad\<rparr>)"
        unfolding connected_def using m by (intro exI [of _ m] exI [of _ ad]) simp
      ultimately show ?thesis
        unfolding conn using good c(1) cc gl al by auto
    qed
  qed
qed

section \<open>Properties\<close>

lemma next_tag_less:
  assumes "n < ULLONG_MAX" shows "n < n + 1"
proof -
  have "n \<noteq> - 1" using assms by (auto simp: ULLONG_MAX_def)
  then have "1 + n \<noteq> 0" by (metis add_eq_0_iff)
  then have "unat (1 + n) = Suc (unat n)" by (rule unatSuc)
  then show ?thesis by (simp add: word_less_nat_alt add.commute)
qed

lemma refcount_comms:
  "comms_ok P opened s \<Longrightarrow> comms_ok P opened s' \<Longrightarrow> comms s' = comms s \<Longrightarrow>
     refcount (shared_ep s') = refcount (shared_ep s)"
  by (simp add: comms_ok_def ep_inv_def)

text \<open>
  C7: connecting is all or nothing. The call returns (no assertion fails, no memory is
  misused); it stores a communicator exactly when it reports success, and then this is a new
  one that holds the handle's endpoint and tag; when it fails, whatever step failed, the
  communicators and the reference count of the shared endpoint are those of before.
\<close>

theorem psm2_nccl_connect_all_or_nothing:
  assumes "comms_ok P opened s" and "room s"
  shows "returns (psm2_nccl_connect P dev h s) (\<lambda>(r, c, s'). comms_ok P opened s' \<and>
    (c \<noteq> 0 \<longleftrightarrow> r = ncclSuccess) \<and>
    (if c \<noteq> 0
     then c \<notin> dom (comms s) \<and> (\<exists>cm. comms s' = (comms s)(c \<mapsto> cm) \<and>
       ep cm \<noteq> 0 \<and> ep cm \<in> opened (world s') \<and> rem_epid cm = h_epid h \<and> tag cm = h_tag h \<and>
       requests cm = replicate NUM_REQUESTS zero_req)
     else comms s' = comms s \<and> refcount (shared_ep s') = refcount (shared_ep s)))"
proof (rule returns3E [OF psm2_nccl_connect_returns [OF assms, of dev h]], elim conjE)
  fix r c s'
  assume e: "psm2_nccl_connect P dev h s = Ret (r, c, s')" and ok: "comms_ok P opened s'"
    and r: "if r = ncclSuccess
      then c = Suc (allocs s) \<and> (\<exists>cm. comms s' = (comms s)(c \<mapsto> cm) \<and>
        connected h (use_shared_ep s \<noteq> 0) cm)
      else r = ncclInternalError \<and> c = 0 \<and> comms s' = comms s"
  show ?thesis
  proof (cases "r = ncclSuccess")
    case True
    with r obtain cm where c: "c = Suc (allocs s)" and cs: "comms s' = (comms s)(c \<mapsto> cm)"
      and cm: "connected h (use_shared_ep s \<noteq> 0) cm" by auto
    have f: "ep cm \<noteq> 0 \<and> rem_epid cm = h_epid h \<and> tag cm = h_tag h \<and>
        requests cm = replicate NUM_REQUESTS zero_req"
      using cm unfolding connected_def made_comm_def zero_comm_def by auto
    have "ep_inv (opened (world s')) s'" and "comms s' c = Some cm"
      using ok cs by (simp_all add: comms_ok_def)
    then have "ep cm \<in> opened (world s')" using f ep_inv_open by blast
    moreover have "c \<notin> dom (comms s)"
      using assms(1) c heap_ok_fresh [of s] by (auto simp: comms_ok_def)
    ultimately show ?thesis using True c cs f ok by (auto simp: e)
  next
    case False
    with r have "c = 0" and "comms s' = comms s" by simp_all
    then show ?thesis using False ok refcount_comms [OF assms(1) ok] by (simp add: e)
  qed
qed

lemma two_comms_connect:
  "\<exists>s'. psm2_nccl_connect sim_platform 0 h two_comms = Ret (ncclSuccess, 3, s')"
  by (simp add: psm2_nccl_connect_def psm2comm_init_def calloc_comm_def
      sizeof_psm2comm_handle_def NCCL_NET_HANDLE_MAXSIZE_def Let_def psm2comm_init_ep_def
      check_unit_def obtain_ep_def load_comm_def attach_ep_def init_mq_def)

lemma psm2_nccl_connect_all_or_nothing_witness:
  "returns (psm2_nccl_connect sim_platform 0 \<lparr>h_epid = 7, h_tag = 3\<rparr> two_comms) (\<lambda>(r, c, s').
     r = ncclSuccess \<and> c = 3 \<and> (\<exists>cm. comms s' 3 = Some cm \<and> rem_epid cm = 7 \<and> tag cm = 3))"
proof -
  have "room two_comms" by (simp add: room_def)
  note t = psm2_nccl_connect_all_or_nothing [OF two_comms_ok this, of 0 "\<lparr>h_epid = 7, h_tag = 3\<rparr>"]
  then show ?thesis using two_comms_connect [of "\<lparr>h_epid = 7, h_tag = 3\<rparr>"] by auto
qed

text \<open>
  C16: listening hands out tags in order. The listener is a new communicator with the next
  tag, its handle is the endpoint id and that tag, and the counter moves on; if the
  communicator cannot be made, there is no listener, no handle, and the tag is not used up.
  When the tags run out, the call refuses (if assertions are compiled out).
\<close>

theorem psm2_nccl_listen_tags:
  assumes "comms_ok P opened s" and "room s" and "ndebug P \<or> tags_left s"
    and "next_tag s < ULLONG_MAX"
  shows "returns (psm2_nccl_listen P dev s) (\<lambda>(r, c, h, s'). comms_ok P opened s' \<and>
    (c \<noteq> 0 \<longleftrightarrow> r = ncclSuccess) \<and> next_tag s' < ULLONG_MAX \<and>
    (if c \<noteq> 0
     then tags_left s \<and> c \<notin> dom (comms s) \<and> next_tag s' = next_tag s + 1 \<and>
       next_tag s < next_tag s' \<and>
       (\<exists>cm. comms s' = (comms s)(c \<mapsto> cm) \<and> tag cm = next_tag s \<and>
          h = Some \<lparr>h_epid = epid cm, h_tag = next_tag s\<rparr>)
     else h = None \<and> comms s' = comms s \<and> next_tag s' = next_tag s) \<and>
    (\<not> tags_left s \<longrightarrow> r = ncclInternalError \<and> s' = s))"
proof (cases "tags_left s")
  case False
  then have n: "ndebug P" "\<not> next_tag s + 1 < ULLONG_MAX"
    using assms(3) by (simp_all add: tags_left_def)
  moreover have "ULLONG_MAX \<le> next_tag s + 1" using n(2) by (simp only: not_less)
  ultimately have "psm2_nccl_listen P dev s = Ret (ncclInternalError, 0, None, s)"
    by (simp add: psm2_nccl_listen_def c_assert_def)
  then show ?thesis using False assms(1,4) by simp
next
  case True
  note lt = next_tag_less [OF assms(4)]
  show ?thesis
  proof (rule returns4E [OF psm2_nccl_listen_returns [OF assms(1,2) True, of dev]], elim conjE)
    fix r c h s'
    assume e: "psm2_nccl_listen P dev s = Ret (r, c, h, s')" and ok: "comms_ok P opened s'"
      and r: "if r = ncclSuccess
       then c = Suc (allocs s) \<and> next_tag s' = next_tag s + 1 \<and>
         (\<exists>m. made_comm (use_shared_ep s \<noteq> 0) m \<and>
            comms s' = (comms s)(c \<mapsto> m\<lparr>tag := next_tag s\<rparr>) \<and>
            h = Some \<lparr>h_epid = epid m, h_tag = next_tag s\<rparr>)
       else r = ncclInternalError \<and> c = 0 \<and> h = None \<and> comms s' = comms s \<and>
         next_tag s' = next_tag s"
    show ?thesis
    proof (cases "r = ncclSuccess")
      case False
      then show ?thesis using r ok True assms(4) by (simp add: e)
    next
      case rs: True
      then obtain m where cs: "comms s' = (comms s)(c \<mapsto> m\<lparr>tag := next_tag s\<rparr>)"
        and h: "h = Some \<lparr>h_epid = epid m, h_tag = next_tag s\<rparr>" and c: "c = Suc (allocs s)"
        and nt: "next_tag s' = next_tag s + 1"
        using r by auto
      have "c \<notin> dom (comms s)"
        using assms(1) c heap_ok_fresh [of s] by (auto simp: comms_ok_def)
      moreover have "\<exists>cm. comms s' = (comms s)(c \<mapsto> cm) \<and> tag cm = next_tag s \<and>
          h = Some \<lparr>h_epid = epid cm, h_tag = next_tag s\<rparr>"
        using cs h by (intro exI [of _ "m\<lparr>tag := next_tag s\<rparr>"]) simp
      moreover have "next_tag s' < ULLONG_MAX" using nt True by (simp add: tags_left_def)
      ultimately show ?thesis using rs c nt ok True lt by (simp add: e)
    qed
  qed
qed

lemma one_less_ULLONG_MAX: "1 < ULLONG_MAX"
  unfolding ULLONG_MAX_def by code_simp

lemma not_ULLONG_MAX_le_one: "\<not> ULLONG_MAX \<le> 1"
  using one_less_ULLONG_MAX by (simp only: not_le)

lemma two_comms_listen:
  "\<exists>h s'. psm2_nccl_listen sim_platform 0 two_comms = Ret (ncclSuccess, 3, Some h, s')"
proof -
  have "next_tag two_comms = 0" by (simp add: two_comms_def)
  then show ?thesis
    using one_less_ULLONG_MAX not_ULLONG_MAX_le_one
    by (simp add: psm2_nccl_listen_def psm2comm_init_def calloc_comm_def
        sizeof_psm2comm_handle_def NCCL_NET_HANDLE_MAXSIZE_def Let_def psm2comm_init_ep_def
        check_unit_def obtain_ep_def load_comm_def attach_ep_def init_mq_def)
qed

lemma psm2_nccl_listen_tags_witness:
  "returns (psm2_nccl_listen sim_platform 0 two_comms) (\<lambda>(r, c, h, s').
     r = ncclSuccess \<and> c = 3 \<and> next_tag s' = 1 \<and> (\<exists>cm. comms s' 3 = Some cm \<and> tag cm = 0))"
proof -
  have "room two_comms" and "ndebug sim_platform \<or> tags_left two_comms"
    and "next_tag two_comms < ULLONG_MAX"
    using one_less_ULLONG_MAX by (simp_all add: room_def tags_left_def two_comms_def ULLONG_MAX_def)
  note t = psm2_nccl_listen_tags [OF two_comms_ok this, of 0]
  have "next_tag two_comms = 0" by (simp add: two_comms_def)
  then show ?thesis using t two_comms_listen by auto
qed

end
