(* ===== verification/Data_Api.thy ===== *)
theory Data_Api
  imports Progress Conn_Api
begin

text \<open>
  The data calls of \<open>psm2_nccl_api.c\<close>: isend, irecv, iflush, test and the memory
  registration calls, and the contract they implement: a request is free, in flight or
  finished, and \<open>psm2_nccl_test\<close> reports a finished request once.
\<close>

unbundle bit_operations_syntax

section \<open>Sending and receiving\<close>

text \<open>
  The part that \<open>psm2_nccl_isend\<close> and \<open>psm2_nccl_irecv_v4\<close> share: a request is taken,
  the library call is made with the request as its context, which stores the library's
  request in the member \<open>req\<close>, and the request is given back if the call fails.
  The second component of the result is what is stored in \<open>*request\<close>.
\<close>

definition post_request ::
  "'w platform \<Rightarrow> addr \<Rightarrow> comm_req_type \<Rightarrow> (psm2comm \<Rightarrow> req_ptr \<Rightarrow> 'w \<Rightarrow> int \<times> addr \<times> 'w) \<Rightarrow> 'w plugin
    \<Rightarrow> (ncclResult \<times> req_ptr option \<times> 'w plugin) outcome" where
  "post_request P c type call s =
     obind (get_req P c type s) (\<lambda>(ro, s1).
       case ro of
         None \<Rightarrow> Ret (ncclSuccess, None, s1)
       | Some r \<Rightarrow>
           obind (load_comm c s1) (\<lambda>cm.
             case call cm r (world s1) of (rc, h, w') \<Rightarrow>
               obind (load_req r (s1\<lparr>world := w'\<rparr>)) (\<lambda>q.
                 let s2 = store_req r (q\<lparr>r_req := h\<rparr>) (s1\<lparr>world := w'\<rparr>) in
                 if rc \<noteq> PSM2_OK P
                 then obind (put_req r s2) (\<lambda>s3. Ret (ncclInternalError, None, s3))
                 else Ret (ncclSuccess, Some r, s2))))"

definition psm2_nccl_isend ::
  "'w platform \<Rightarrow> addr \<Rightarrow> addr \<Rightarrow> int \<Rightarrow> int \<Rightarrow> addr \<Rightarrow> 'w plugin
    \<Rightarrow> (ncclResult \<times> req_ptr option \<times> 'w plugin) outcome" where
  "psm2_nccl_isend P sendComm data sz tg mhandle s =
     post_request P sendComm ReqSend
       (\<lambda>cm r. psm2_mq_isend P (mq cm) (rem_epaddr cm) (PSM2_MQ_FLAG_GDRCPY_ONLY P) (tag cm)
          data (int_to_u32 sz) r) s"

definition psm2_nccl_isend_v4 ::
  "'w platform \<Rightarrow> addr \<Rightarrow> addr \<Rightarrow> int \<Rightarrow> addr \<Rightarrow> 'w plugin
    \<Rightarrow> (ncclResult \<times> req_ptr option \<times> 'w plugin) outcome" where
  "psm2_nccl_isend_v4 P sendComm data sz mhandle s = psm2_nccl_isend P sendComm data sz 0 mhandle s"

definition psm2_nccl_irecv_v4 ::
  "'w platform \<Rightarrow> addr \<Rightarrow> addr \<Rightarrow> int \<Rightarrow> addr \<Rightarrow> 'w plugin
    \<Rightarrow> (ncclResult \<times> req_ptr option \<times> 'w plugin) outcome" where
  "psm2_nccl_irecv_v4 P recvComm data sz mhandle s =
     post_request P recvComm ReqRecv
       (\<lambda>cm r. psm2_mq_irecv P (mq cm) (tag cm) (NOT 0) (PSM2_MQ_FLAG_GDRCPY_ONLY P)
          data (int_to_u32 sz) r) s"

text \<open>Reading the first element of an array that a pointer refers to.\<close>

fun deref :: "'a list \<Rightarrow> 'a outcome" where
  "deref [] = Undef"
| "deref (x # xs) = Ret x"

definition psm2_nccl_irecv ::
  "'w platform \<Rightarrow> addr \<Rightarrow> int \<Rightarrow> addr list \<Rightarrow> int list \<Rightarrow> int list \<Rightarrow> addr list \<Rightarrow> 'w plugin
    \<Rightarrow> (ncclResult \<times> req_ptr option \<times> 'w plugin) outcome" where
  "psm2_nccl_irecv P recvComm n data sizes tags mhandles s =
     c_assert (ndebug P) (n \<le> NCCL_NET_PSM2_MAX_RECVS)
       (obind (deref data) (\<lambda>d. obind (deref sizes) (\<lambda>sz. obind (deref mhandles) (\<lambda>mh.
          psm2_nccl_irecv_v4 P recvComm d sz mh s))))"

section \<open>Flushing and memory registration\<close>

text \<open>
  These store NULL through an output pointer if there is one: \<open>Some\<close> of the value stored,
  or \<open>None\<close> when nothing is stored.
\<close>

definition psm2_nccl_iflush_v4 ::
  "addr \<Rightarrow> addr \<Rightarrow> int \<Rightarrow> addr \<Rightarrow> bool \<Rightarrow> 'w plugin
    \<Rightarrow> (ncclResult \<times> req_ptr option option \<times> 'w plugin) outcome" where
  "psm2_nccl_iflush_v4 recvComm data sz mhandle request s =
     Ret (ncclSuccess, if request then Some None else None, s)"

definition psm2_nccl_iflush ::
  "'w platform \<Rightarrow> addr \<Rightarrow> int \<Rightarrow> addr list \<Rightarrow> int list \<Rightarrow> addr list \<Rightarrow> bool \<Rightarrow> 'w plugin
    \<Rightarrow> (ncclResult \<times> req_ptr option option \<times> 'w plugin) outcome" where
  "psm2_nccl_iflush P recvComm n data sizes mhandles request s =
     c_assert (ndebug P) (n \<le> NCCL_NET_PSM2_MAX_RECVS)
       (if NCCL_NET_PSM2_MAX_RECVS < n then Ret (ncclInternalError, None, s)
        else obind (deref data) (\<lambda>d. obind (deref sizes) (\<lambda>sz. obind (deref mhandles) (\<lambda>mh.
          psm2_nccl_iflush_v4 recvComm d sz mh request s))))"

definition psm2_nccl_flush_v3 ::
  "addr \<Rightarrow> addr \<Rightarrow> int \<Rightarrow> addr \<Rightarrow> 'w plugin \<Rightarrow> (ncclResult \<times> 'w plugin) outcome" where
  "psm2_nccl_flush_v3 recvComm data sz mhandle s = Ret (ncclSuccess, s)"

definition psm2_nccl_regMr_v8 ::
  "addr \<Rightarrow> addr \<Rightarrow> 64 word \<Rightarrow> int \<Rightarrow> bool \<Rightarrow> 'w plugin
    \<Rightarrow> (ncclResult \<times> addr option \<times> 'w plugin) outcome" where
  "psm2_nccl_regMr_v8 c data sz type mhandle s =
     Ret (ncclSuccess, if mhandle then Some 0 else None, s)"

definition psm2_nccl_regMr ::
  "addr \<Rightarrow> addr \<Rightarrow> int \<Rightarrow> int \<Rightarrow> bool \<Rightarrow> 'w plugin
    \<Rightarrow> (ncclResult \<times> addr option \<times> 'w plugin) outcome" where
  "psm2_nccl_regMr c data sz type mhandle s =
     psm2_nccl_regMr_v8 c data (word_of_int sz) type mhandle s"

definition psm2_nccl_regMrDmaBuf ::
  "addr \<Rightarrow> addr \<Rightarrow> 64 word \<Rightarrow> int \<Rightarrow> 64 word \<Rightarrow> int \<Rightarrow> bool \<Rightarrow> 'w plugin
    \<Rightarrow> (ncclResult \<times> addr option \<times> 'w plugin) outcome" where
  "psm2_nccl_regMrDmaBuf c data sz type offset fd mhandle s = Ret (ncclSuccess, None, s)"

definition psm2_nccl_deregMr :: "addr \<Rightarrow> addr \<Rightarrow> 'w plugin \<Rightarrow> (ncclResult \<times> 'w plugin) outcome" where
  "psm2_nccl_deregMr c mhandle s = Ret (ncclSuccess, s)"

section \<open>Testing a request\<close>

text \<open>
  The result of \<open>psm2_nccl_test\<close> is its return value, the final value of \<open>*done\<close>, and
  what is stored in \<open>*size\<close>, if anything; \<open>None\<close> is a call that does not return.
  \<open>has_size\<close> says whether the pointer \<open>size\<close> is not NULL. The first definition is the
  part for a request that is done.
\<close>

definition test_done ::
  "'w platform \<Rightarrow> req_ptr \<Rightarrow> bool \<Rightarrow> int \<Rightarrow> comm_req \<Rightarrow> 'w plugin
    \<Rightarrow> (ncclResult \<times> int \<times> int option \<times> 'w plugin) outcome" where
  "test_done P p has_size rc r s =
     (if r_type r = ReqRecv \<and> \<not> has_size then Undef
      else
        let sz = (if r_type r = ReqRecv then Some (recv_size r) else None) in
        obind (put_req p s) (\<lambda>s1.
          if rc \<noteq> PSM2_OK P then Ret (ncclInternalError, 0, sz, s1)
          else Ret (ncclSuccess, 1, sz, s1)))"

definition psm2_nccl_test ::
  "'w platform \<Rightarrow> req_ptr \<Rightarrow> bool \<Rightarrow> 'w plugin
    \<Rightarrow> (ncclResult \<times> int \<times> int option \<times> 'w plugin) outcome option" where
  "psm2_nccl_test P p has_size s =
     (case load_req p s of
        Abort \<Rightarrow> Some Abort
      | Undef \<Rightarrow> Some Undef
      | Ret r \<Rightarrow>
          if used r = 0
          then Some (c_assert (ndebug P) (used r = 0) (Ret (ncclInternalError, 0, None, s)))
          else
            map_option (\<lambda>m. obind m (\<lambda>(rc, s1).
                if rc \<noteq> nccl_code ncclSuccess then Ret (ncclInternalError, 0, None, s1)
                else obind (load_req p s1) (\<lambda>r1.
                  if req_done r1 = 0 then Ret (ncclSuccess, 0, None, s1)
                  else test_done P p has_size rc r1 s1)))
              (mq_progress_loop P (r_mq r) s))"

section \<open>The contract of a request\<close>

text \<open>What a request is for the caller, and the request behind a pointer.\<close>

datatype req_state = Free | InFlight comm_req_type | Finished comm_req_type int

definition abs_req :: "comm_req \<Rightarrow> req_state" where
  "abs_req r =
     (if used r = 0 then Free
      else if req_done r = 0 then InFlight (r_type r) else Finished (r_type r) (recv_size r))"

fun req_view :: "'w plugin \<Rightarrow> req_ptr \<Rightarrow> req_state option" where
  "req_view s (c, i) =
     (case comms s c of
        None \<Rightarrow> None
      | Some cm \<Rightarrow> if i < length (requests cm) then Some (abs_req (requests cm ! i)) else None)"

text \<open>The operations of the contract: an operation starts, ends, and is collected.\<close>

fun ends :: "32 word \<Rightarrow> req_state \<Rightarrow> req_state" where
  "ends n (InFlight t) = Finished t (if t = ReqRecv then uint n else 0)"
| "ends n st = st"

definition spec_end :: "mq_status \<Rightarrow> (req_ptr \<Rightarrow> req_state option) \<Rightarrow> (req_ptr \<Rightarrow> req_state option)" where
  "spec_end st v = v(s_context st := map_option (ends (s_nbytes st)) (v (s_context st)))"

text \<open>The invariant of the requests of a communicator.\<close>

definition req_wf :: "addr \<Rightarrow> psm2comm \<Rightarrow> comm_req \<Rightarrow> bool" where
  "req_wf c cm r \<longleftrightarrow> r = zero_req \<or>
     used r = 1 \<and> r_comm r = c \<and> r_ep r = ep cm \<and> r_mq r = mq cm \<and>
     (r_type r = ReqSend \<and> recv_size r = 0 \<or> r_type r = ReqRecv) \<and>
     (req_done r = 0 \<and> recv_size r = 0 \<or> req_done r = 1 \<and> 0 \<le> recv_size r)"

definition reqs_ok :: "'w plugin \<Rightarrow> bool" where
  "reqs_ok s \<longleftrightarrow> (\<forall>c cm. comms s c = Some cm \<longrightarrow>
     req_array_ok (requests cm) \<and> (\<forall>r\<in>set (requests cm). req_wf c cm r))"

lemma reqs_okD:
  assumes "reqs_ok s" and "comms s c = Some cm"
  shows "length (requests cm) = NUM_REQUESTS" and "req_array_ok (requests cm)"
    and "i < length (requests cm) \<Longrightarrow> req_wf c cm (requests cm ! i)"
  using assms by (auto simp: reqs_ok_def req_array_ok_def)

lemma zero_req_abs [simp]: "abs_req zero_req = Free"
  by (simp add: abs_req_def)

lemma req_wf_zero [simp]: "req_wf c cm zero_req"
  by (simp add: req_wf_def)

lemma req_wf_free: "req_wf c cm r \<Longrightarrow> used r = 0 \<longleftrightarrow> r = zero_req"
  by (auto simp: req_wf_def)

text \<open>Storing a request.\<close>

lemma store_req_comms:
  "comms s c = Some cm \<Longrightarrow>
     store_req (c, i) r s = store_comm c (cm\<lparr>requests := (requests cm)[i := r]\<rparr>) s"
  by simp

lemma req_view_store:
  assumes "comms s c = Some cm" and "i < length (requests cm)"
  shows "req_view (store_req (c, i) r s) = (req_view s)((c, i) \<mapsto> abs_req r)"
proof
  fix p :: req_ptr
  obtain d j where p: "p = (d, j)" by fastforce
  show "req_view (store_req (c, i) r s) p = ((req_view s)((c, i) \<mapsto> abs_req r)) p"
    using assms by (auto simp: p nth_list_update)
qed

lemma req_view_world [simp]: "req_view (s\<lparr>world := w\<rparr>) = req_view s"
proof
  fix p :: req_ptr
  show "req_view (s\<lparr>world := w\<rparr>) p = req_view s p" by (cases p) simp
qed

lemma reqs_ok_world [simp]: "reqs_ok (s\<lparr>world := w\<rparr>) = reqs_ok s"
  by (simp add: reqs_ok_def)

lemma reqs_ok_store:
  assumes "reqs_ok s" and "comms s c = Some cm" and "req_wf c cm r"
  shows "reqs_ok (store_req (c, i) r s)"
proof -
  have wf: "req_wf c (cm\<lparr>requests := rs\<rparr>) q = req_wf c cm q" for q rs
    by (simp add: req_wf_def)
  have "\<forall>q\<in>set ((requests cm)[i := r]). req_wf c cm q"
    using assms set_update_subset_insert [of "requests cm" i r] unfolding reqs_ok_def by blast
  then show ?thesis
    using assms wf by (auto simp: reqs_ok_def req_array_ok_def)
qed

lemma pending_view: "pending s p \<longleftrightarrow> (\<exists>t. req_view s p = Some (InFlight t))"
proof -
  obtain c i where p: "p = (c, i)" by fastforce
  show ?thesis by (auto simp: p abs_req_def split: option.splits)
qed

section \<open>What the data calls leave alone\<close>

definition no_reqs :: "psm2comm \<Rightarrow> psm2comm" where
  "no_reqs cm = cm\<lparr>requests := []\<rparr>"

definition same_but_reqs :: "'w plugin \<Rightarrow> 'w plugin \<Rightarrow> bool" where
  "same_but_reqs s s' \<longleftrightarrow> same_globals s s' \<and> shared_ep s' = shared_ep s \<and> allocs s' = allocs s \<and>
     (\<forall>c. map_option no_reqs (comms s' c) = map_option no_reqs (comms s c))"

lemma same_but_reqs_refl [simp]: "same_but_reqs s s"
  by (simp add: same_but_reqs_def)

lemma same_but_reqs_trans: "same_but_reqs s t \<Longrightarrow> same_but_reqs t u \<Longrightarrow> same_but_reqs s u"
  unfolding same_but_reqs_def using same_globals_trans by auto

lemma same_but_reqs_world [simp]: "same_but_reqs s (t\<lparr>world := w\<rparr>) = same_but_reqs s t"
  by (simp add: same_but_reqs_def)

lemma same_but_reqs_store:
  assumes "comms s c = Some cm"
  shows "same_but_reqs s (store_req (c, i) r s)"
  using assms by (simp add: same_but_reqs_def no_reqs_def)

lemma same_but_reqs_comm:
  assumes "same_but_reqs s s'" and "comms s c = Some cm"
  obtains rs where "comms s' c = Some (cm\<lparr>requests := rs\<rparr>)"
proof -
  have "map_option no_reqs (comms s' c) = Some (no_reqs cm)"
    using assms unfolding same_but_reqs_def by (metis option.map(2))
  then obtain cm' where c': "comms s' c = Some cm'" and "no_reqs cm' = no_reqs cm" by auto
  then have "cm' = cm\<lparr>requests := requests cm'\<rparr>"
    unfolding no_reqs_def by (metis psm2comm.surjective psm2comm.update_convs(8) psm2comm.ext_inject)
  then show ?thesis using that [of "requests cm'"] c' by simp
qed

lemma same_but_reqs_sym: "same_but_reqs s s' \<Longrightarrow> same_but_reqs s' s"
  by (simp add: same_but_reqs_def same_globals_def)

lemma same_but_reqs_dom: "same_but_reqs s s' \<Longrightarrow> dom (comms s') = dom (comms s)"
proof -
  assume a: "same_but_reqs s s'"
  have "comms s' c = None \<longleftrightarrow> comms s c = None" for c
    using a unfolding same_but_reqs_def by (metis map_option_is_None)
  then show ?thesis by (simp add: dom_def)
qed

lemma ep_inv_same_but_reqs:
  assumes "ep_inv op s" and "same_but_reqs s s'"
  shows "ep_inv op s'"
proof -
  have bk: "\<exists>dm0. comms s d = Some dm0 \<and> ep dm0 = ep dm \<and> epid dm0 = epid dm \<and>
      has_shared_ep dm0 = has_shared_ep dm" if "comms s' d = Some dm" for d dm
    by (rule same_but_reqs_comm [OF same_but_reqs_sym [OF assms(2)] that]) simp
  have fth: "\<exists>dm. comms s' d = Some dm \<and> has_shared_ep dm = has_shared_ep dm0"
    if "comms s d = Some dm0" for d dm0
    by (rule same_but_reqs_comm [OF assms(2) that]) simp
  have sh: "shared_ep s' = shared_ep s" using assms(2) by (simp add: same_but_reqs_def)
  have "sharers (comms s') = sharers (comms s)"
    unfolding sharers_def using bk fth by fast
  moreover have "sharing_ok op (shared_ep s) (comms s')"
    using assms(1) bk unfolding ep_inv_def sharing_ok_def by metis
  moreover have "private_ok op (comms s')"
    using assms(1) bk unfolding ep_inv_def private_ok_def by metis
  ultimately show ?thesis
    using assms(1) sh same_but_reqs_dom [OF assms(2)] by (simp add: ep_inv_def)
qed

lemma comms_ok_same_but_reqs:
  assumes "comms_ok P opened s" and "same_but_reqs s s'" and "opened (world s') = opened (world s)"
  shows "comms_ok P opened s'"
proof (rule comms_ok_cong [OF assms(1) _ assms(3) same_but_reqs_dom [OF assms(2)]])
  have "ep_inv (opened (world s)) s" using assms(1) by (simp add: comms_ok_def)
  from ep_inv_same_but_reqs [OF this assms(2)] show "ep_inv (opened (world s')) s'"
    unfolding assms(3) .
  show "\<exists>cm'. comms s' c = Some cm' \<and> ep cm' = ep cm" if "comms s c = Some cm" for c cm
    by (rule same_but_reqs_comm [OF assms(2) that]) simp
qed (use assms(2) in \<open>simp_all add: same_but_reqs_def same_globals_def\<close>)

section \<open>Completed operations and the contract\<close>

lemma complete_status_spec:
  assumes "reqs_ok s" and "pending s (s_context st)"
  shows "req_view (complete_status st s) = spec_end st (req_view s)"
    and "reqs_ok (complete_status st s)" and "same_but_reqs s (complete_status st s)"
proof -
  obtain c i where ci: "s_context st = (c, i)" by fastforce
  from assms(2) obtain cm where cm: "comms s c = Some cm" and i: "i < length (requests cm)"
    and u: "used (requests cm ! i) \<noteq> 0" and d: "req_done (requests cm ! i) = 0"
    unfolding ci by (rule pendingD)
  let ?r = "requests cm ! i"
  have wf: "req_wf c cm ?r" using reqs_okD(3) [OF assms(1) cm i] .
  have e: "complete_status st s = store_req (c, i) (finish_req (s_nbytes st) ?r) s"
    using cm i by (simp add: complete_status_def ci)
  have "abs_req (finish_req (s_nbytes st) ?r) = ends (s_nbytes st) (abs_req ?r)"
    using wf u d by (auto simp: req_wf_def finish_req_def abs_req_def)
  then show "req_view (complete_status st s) = spec_end st (req_view s)"
    unfolding e req_view_store [OF cm i] using cm i by (simp add: spec_end_def ci)
  have "req_wf c cm (finish_req (s_nbytes st) ?r)"
    using wf u d by (auto simp: req_wf_def finish_req_def)
  then show "reqs_ok (complete_status st s)" unfolding e by (rule reqs_ok_store [OF assms(1) cm])
  show "same_but_reqs s (complete_status st s)" unfolding e by (rule same_but_reqs_store [OF cm])
qed

lemma fold_complete_spec:
  assumes "list_all2 (\<lambda>st l. s_nbytes st \<le> l) sts ls" and "reqs_ok s"
    and "posted_ok s (M + mset (zip (map s_context sts) ls))"
  shows "req_view (fold complete_status sts s) = fold spec_end sts (req_view s) \<and>
    reqs_ok (fold complete_status sts s) \<and> same_but_reqs s (fold complete_status sts s)"
  using assms
proof (induction arbitrary: s rule: list_all2_induct)
  case (Cons st sts l ls)
  let ?M = "M + mset (zip (map s_context (st # sts)) (l # ls))"
  have l: "(s_context st, l) \<in># ?M" by simp
  have p: "pending s (s_context st)" using posted_ok_pending [OF Cons.prems(2) l] by simp
  have "posted_ok (complete_status st s) (M + mset (zip (map s_context sts) ls))"
    using posted_ok_retire [OF Cons.prems(2) l] by simp
  from Cons.IH [OF complete_status_spec(2) [OF Cons.prems(1) p] this]
  show ?case
    using complete_status_spec [OF Cons.prems(1) p] same_but_reqs_trans by auto
qed simp
section \<open>The invariant of the plugin\<close>

definition plugin_ok ::
  "'w platform \<Rightarrow> ('w \<Rightarrow> addr set) \<Rightarrow> ('w \<Rightarrow> (req_ptr \<times> 32 word) multiset) \<Rightarrow> 'w plugin \<Rightarrow> bool" where
  "plugin_ok P opened posted s \<longleftrightarrow>
     comms_ok P opened s \<and> mq_contract P posted \<and> consts_ok P \<and> reqs_ok s \<and>
     posted_ok s (posted (world s))"

lemma plugin_okD:
  assumes "plugin_ok P opened posted s"
  shows "comms_ok P opened s" and "mq_contract P posted" and "consts_ok P" and "reqs_ok s"
    and "posted_ok s (posted (world s))" and "ep_contract P opened"
  using assms by (simp_all add: plugin_ok_def comms_ok_def)

section \<open>Posting\<close>

lemma store_req_world: "store_req p r (s\<lparr>world := w\<rparr>) = (store_req p r s)\<lparr>world := w\<rparr>"
proof -
  obtain c i where p: "p = (c, i)" by fastforce
  show ?thesis by (simp add: p store_comm_def split: option.split)
qed

lemma post_request_eval:
  assumes "reqs_ok s" and "comms s c = Some cm" and "type = ReqSend \<or> type = ReqRecv"
  shows "find_unused 0 (requests cm) = None \<Longrightarrow> post_request P c type call s = Ret (ncclSuccess, None, s)"
    and "find_unused 0 (requests cm) = Some i \<Longrightarrow>
      call (cm\<lparr>requests := (requests cm)[i := new_req c cm type]\<rparr>) (c, i) (world s) = (rc, h, w') \<Longrightarrow>
      post_request P c type call s =
        (if rc \<noteq> PSM2_OK P then Ret (ncclInternalError, None, s\<lparr>world := w'\<rparr>)
         else Ret (ncclSuccess, Some (c, i),
           store_req (c, i) (new_req c cm type\<lparr>r_req := h\<rparr>) (s\<lparr>world := w'\<rparr>)))"
proof -
  have len: "length (requests cm) = NUM_REQUESTS" using reqs_okD(1) [OF assms(1,2)] .
  then have tk: "take NUM_REQUESTS (requests cm) = requests cm" by simp
  show "find_unused 0 (requests cm) = None \<Longrightarrow> post_request P c type call s = Ret (ncclSuccess, None, s)"
    using assms(2,3) by (auto simp: post_request_def get_req_def load_comm_def tk)
  assume f: "find_unused 0 (requests cm) = Some i"
    and call: "call (cm\<lparr>requests := (requests cm)[i := new_req c cm type]\<rparr>) (c, i) (world s) = (rc, h, w')"
  have i: "i < length (requests cm)" and u: "used (requests cm ! i) = 0"
    using find_unused_Some [OF f] by auto
  have z: "requests cm ! i = zero_req"
    using reqs_okD(3) [OF assms(1,2) i] u by (simp add: req_wf_free)
  have same: "(requests cm)[i := zero_req] = requests cm"
    using list_update_id [of "requests cm" i] by (simp add: z)
  have get: "get_req P c type s = Ret (Some (c, i), store_req (c, i) (new_req c cm type) s)"
    using assms(2,3) f by (auto simp: get_req_def load_comm_def tk)
  have keep: "(comms s)(c \<mapsto> cm) = comms s" using assms(2) by (rule fun_upd_idem)
  show "post_request P c type call s =
      (if rc \<noteq> PSM2_OK P then Ret (ncclInternalError, None, s\<lparr>world := w'\<rparr>)
       else Ret (ncclSuccess, Some (c, i),
         store_req (c, i) (new_req c cm type\<lparr>r_req := h\<rparr>) (s\<lparr>world := w'\<rparr>)))"
    using assms(2) i call
    by (simp add: post_request_def get load_comm_def Let_def store_comm_def put_req_def same keep)
qed

lemma posted_ok_post:
  assumes "posted_ok s pm" and "\<not> pending s p" and "req_view s' = (req_view s)(p \<mapsto> InFlight t)"
    and "uint l \<le> INT_MAX"
  shows "posted_ok s' (add_mset (p, l) pm)"
proof -
  have new: "(p, l') \<notin># pm" for l'
    using posted_ok_pending [OF assms(1)] assms(2) by blast
  have pend: "pending s' q" if "q = p \<or> pending s q" for q
    using that assms(3) by (auto simp: pending_view)
  have "pending s' q \<and> uint l' \<le> INT_MAX" if "(q, l') \<in># add_mset (p, l) pm" for q l'
    using that posted_ok_pending [OF assms(1), of q l'] pend [of q] assms(4) by auto
  moreover have "count (image_mset fst (add_mset (p, l) pm)) q \<le> 1" for q
  proof -
    have one: "count (image_mset fst pm) q \<le> 1" using assms(1) unfolding posted_ok_def by blast
    have "p \<notin># image_mset fst pm" using new by auto
    then have "count (image_mset fst pm) p = 0" by (rule not_in_iff [THEN iffD1])
    then show ?thesis using one by auto
  qed
  ultimately show ?thesis unfolding posted_ok_def by blast
qed

text \<open>What a successful, an impossible and a failed posting do.\<close>

definition post_result ::
  "('w \<Rightarrow> (req_ptr \<times> 32 word) multiset) \<Rightarrow> addr \<Rightarrow> comm_req_type \<Rightarrow> 32 word \<Rightarrow> 'w plugin
    \<Rightarrow> ncclResult \<Rightarrow> req_ptr option \<Rightarrow> 'w plugin \<Rightarrow> bool" where
  "post_result posted c t l s r ro s' \<longleftrightarrow>
     (case ro of
        Some p \<Rightarrow> r = ncclSuccess \<and> fst p = c \<and> req_view s p = Some Free \<and>
          req_view s' = (req_view s)(p \<mapsto> InFlight t) \<and>
          posted (world s') = add_mset (p, l) (posted (world s))
      | None \<Rightarrow> (if \<forall>i<NUM_REQUESTS. req_view s (c, i) \<noteq> Some Free
          then r = ncclSuccess \<and> s' = s
          else r = ncclInternalError \<and> s' = s\<lparr>world := world s'\<rparr> \<and>
            posted (world s') = posted (world s)))"

lemma post_request_returns:
  assumes "plugin_ok P opened posted s" and "comms s c = Some cm"
    and "type = ReqSend \<or> type = ReqRecv" and "uint l \<le> INT_MAX"
    and "\<And>cm r w rc h w'. call cm r w = (rc, h, w') \<Longrightarrow> opened w' = opened w \<and>
      posted w' = (if rc = PSM2_OK P then add_mset (r, l) (posted w) else posted w)"
  shows "returns (post_request P c type call s) (\<lambda>(r, ro, s').
    plugin_ok P opened posted s' \<and> same_but_reqs s s' \<and> post_result posted c type l s r ro s')"
proof -
  note ok = plugin_okD [OF assms(1)]
  have len: "length (requests cm) = NUM_REQUESTS" using reqs_okD(1) [OF ok(4) assms(2)] .
  have free: "req_view s (c, j) = Some Free \<longleftrightarrow> used (requests cm ! j) = 0" if "j < NUM_REQUESTS" for j
    using that assms(2) len by (simp add: abs_req_def)
  show ?thesis
  proof (cases "find_unused 0 (requests cm)")
    case None
    then have "\<forall>i<NUM_REQUESTS. req_view s (c, i) \<noteq> Some Free"
      using free len unfolding find_unused_None by (metis nth_mem)
    then show ?thesis
      using post_request_eval(1) [OF ok(4) assms(2,3) None] assms(1)
      by (simp add: post_result_def)
  next
    case (Some i)
    then have i: "i < length (requests cm)" and u: "used (requests cm ! i) = 0"
      using find_unused_Some [OF Some] by auto
    obtain rc h w' where c: "call (cm\<lparr>requests := (requests cm)[i := new_req c cm type]\<rparr>) (c, i)
        (world s) = (rc, h, w')" by (metis prod_cases3)
    note e = post_request_eval(2) [where call = call, OF ok(4) assms(2,3) Some c]
    note w' = assms(5) [OF c]
    have fr: "req_view s (c, i) = Some Free" using free i u len by simp
    show ?thesis
    proof (cases "rc = PSM2_OK P")
      case False
      have "comms_ok P opened (s\<lparr>world := w'\<rparr>)"
        using comms_ok_same_but_reqs [OF ok(1), of "s\<lparr>world := w'\<rparr>"] w' by simp
      then have "plugin_ok P opened posted (s\<lparr>world := w'\<rparr>)"
        using ok w' False by (simp add: plugin_ok_def)
      then show ?thesis using e False w' fr i len by (auto simp: post_result_def)
    next
      case True
      let ?n = "new_req c cm type\<lparr>r_req := h\<rparr>"
      let ?s1 = "store_req (c, i) ?n (s\<lparr>world := w'\<rparr>)"
      have v: "req_view ?s1 = (req_view s)((c, i) \<mapsto> InFlight type)"
        using req_view_store [of "s\<lparr>world := w'\<rparr>" c cm i ?n] assms(2) i
        by (simp add: abs_req_def new_req_def zero_req_def del: store_req.simps)
      have wf: "req_wf c cm ?n" using assms(3) by (auto simp: req_wf_def new_req_def zero_req_def)
      have sb: "same_but_reqs s ?s1"
        using same_but_reqs_store [OF assms(2)] by (simp add: store_req_world del: store_req.simps)
      have w1: "world ?s1 = w'" by (simp add: store_req_world del: store_req.simps)
      have "reqs_ok ?s1"
        using reqs_ok_store [OF ok(4) assms(2) wf] by (simp add: store_req_world del: store_req.simps)
      moreover have "comms_ok P opened ?s1"
        using comms_ok_same_but_reqs [OF ok(1) sb] w1 w' by simp
      moreover have "\<not> pending s (c, i)" using fr by (simp only: pending_view) simp
      then have "posted_ok ?s1 (add_mset ((c, i), l) (posted (world s)))"
        using posted_ok_post [OF ok(5) _ v assms(4)] by blast
      ultimately have "plugin_ok P opened posted ?s1"
        using ok(2,3) w' True w1 by (simp add: plugin_ok_def)
      then show ?thesis
        using e True sb v fr w1 w' by (simp add: post_result_def del: store_req.simps)
    qed
  qed
qed

lemma int_to_u32_bound: "0 \<le> sz \<Longrightarrow> sz \<le> INT_MAX \<Longrightarrow> uint (int_to_u32 sz) \<le> INT_MAX"
  by (simp add: int_to_u32_nonneg)

lemma mq_contract_post:
  assumes "mq_contract P posted"
  shows "psm2_mq_isend P q a f t d l c w = (rc, h, w') \<Longrightarrow>
      posted w' = (if rc = PSM2_OK P then add_mset (c, l) (posted w) else posted w)"
    and "psm2_mq_irecv P q t ts f d l c w = (rc, h, w') \<Longrightarrow>
      posted w' = (if rc = PSM2_OK P then add_mset (c, l) (posted w) else posted w)"
proof -
  note c = assms [unfolded mq_contract_def]
  show "psm2_mq_isend P q a f t d l c w = (rc, h, w') \<Longrightarrow>
      posted w' = (if rc = PSM2_OK P then add_mset (c, l) (posted w) else posted w)"
    using conjunct1 [OF c] by metis
  show "psm2_mq_irecv P q t ts f d l c w = (rc, h, w') \<Longrightarrow>
      posted w' = (if rc = PSM2_OK P then add_mset (c, l) (posted w) else posted w)"
    using conjunct1 [OF conjunct2 [OF c]] by metis
qed

lemma psm2_nccl_isend_returns:
  assumes "plugin_ok P opened posted s" and "comms s c = Some cm" and "0 \<le> sz" and "sz \<le> INT_MAX"
  shows "returns (psm2_nccl_isend P c data sz tg mhandle s) (\<lambda>(r, ro, s').
    plugin_ok P opened posted s' \<and> same_but_reqs s s' \<and>
    post_result posted c ReqSend (int_to_u32 sz) s r ro s')"
  unfolding psm2_nccl_isend_def
proof (rule post_request_returns [OF assms(1,2) _ int_to_u32_bound [OF assms(3,4)]])
  show "ReqSend = ReqSend \<or> ReqSend = ReqRecv" by simp
next
  fix cm r w rc h w'
  assume "psm2_mq_isend P (mq cm) (rem_epaddr cm) (PSM2_MQ_FLAG_GDRCPY_ONLY P) (tag cm) data
      (int_to_u32 sz) r w = (rc, h, w')"
  then show "opened w' = opened w \<and>
      posted w' = (if rc = PSM2_OK P then add_mset (r, int_to_u32 sz) (posted w) else posted w)"
    by (intro conjI ep_contract_quiet(3) [OF plugin_okD(6) [OF assms(1)]]
        mq_contract_post(1) [OF plugin_okD(2) [OF assms(1)]])
qed

lemma psm2_nccl_irecv_v4_returns:
  assumes "plugin_ok P opened posted s" and "comms s c = Some cm" and "0 \<le> sz" and "sz \<le> INT_MAX"
  shows "returns (psm2_nccl_irecv_v4 P c data sz mhandle s) (\<lambda>(r, ro, s').
    plugin_ok P opened posted s' \<and> same_but_reqs s s' \<and>
    post_result posted c ReqRecv (int_to_u32 sz) s r ro s')"
  unfolding psm2_nccl_irecv_v4_def
proof (rule post_request_returns [OF assms(1,2) _ int_to_u32_bound [OF assms(3,4)]])
  show "ReqRecv = ReqSend \<or> ReqRecv = ReqRecv" by simp
next
  fix cm r w rc h w'
  assume "psm2_mq_irecv P (mq cm) (tag cm) (NOT 0) (PSM2_MQ_FLAG_GDRCPY_ONLY P) data
      (int_to_u32 sz) r w = (rc, h, w')"
  then show "opened w' = opened w \<and>
      posted w' = (if rc = PSM2_OK P then add_mset (r, int_to_u32 sz) (posted w) else posted w)"
    by (intro conjI ep_contract_quiet(4) [OF plugin_okD(6) [OF assms(1)]]
        mq_contract_post(2) [OF plugin_okD(2) [OF assms(1)]])
qed

section \<open>Testing\<close>

text \<open>Polling: some posted operations end, nothing else changes.\<close>

definition polled ::
  "('w \<Rightarrow> (req_ptr \<times> 32 word) multiset) \<Rightarrow> 'w plugin \<Rightarrow> mq_status list \<Rightarrow> 'w plugin \<Rightarrow> bool" where
  "polled posted s sts s' \<longleftrightarrow>
     req_view s' = fold spec_end sts (req_view s) \<and>
     (\<exists>ls. list_all2 (\<lambda>st l. s_nbytes st \<le> l) sts ls \<and>
       posted (world s) = posted (world s') + mset (zip (map s_context sts) ls))"

lemma mq_progress_loop_polled:
  assumes "plugin_ok P opened posted s"
  shows "\<exists>s1 sts. mq_progress_loop P q s = Some (Ret (0, s1)) \<and> plugin_ok P opened posted s1 \<and>
    same_but_reqs s s1 \<and> polled posted s sts s1"
proof -
  note ok = plugin_okD [OF assms]
  obtain s1 where l: "mq_progress_loop P q s = Some (Ret (0, s1))" and d: "drained posted s s1"
    and p1: "posted_ok s1 (posted (world s1))"
    using mq_progress_loop_result [OF ok(2,3,5)] by blast
  from d obtain sts ls where r: "list_all2 (\<lambda>st l. s_nbytes st \<le> l) sts ls"
    and p: "posted (world s) = posted (world s1) + mset (zip (map s_context sts) ls)"
    and s1: "s1 = (fold complete_status sts s)\<lparr>world := world s1\<rparr>"
    unfolding drained_def by blast
  have "posted_ok s (posted (world s1) + mset (zip (map s_context sts) ls))"
    using ok(5) unfolding p .
  from fold_complete_spec [OF r ok(4) this]
  have v: "req_view s1 = fold spec_end sts (req_view s)" and q: "reqs_ok s1"
    and sb: "same_but_reqs s s1"
    by (subst s1, simp)+
  have "opened (world s1) = opened (world s)" by (rule mq_progress_loop_opened [OF ok(6) l])
  then have "comms_ok P opened s1" by (rule comms_ok_same_but_reqs [OF ok(1) sb])
  then have "plugin_ok P opened posted s1" using ok(2,3) q p1 unfolding plugin_ok_def by blast
  moreover have "polled posted s sts s1" unfolding polled_def using v r p by blast
  ultimately show ?thesis using l sb by blast
qed

text \<open>The kind of a request does not change while it is in use.\<close>

fun req_kind :: "req_state \<Rightarrow> comm_req_type" where
  "req_kind Free = ReqNone"
| "req_kind (InFlight t) = t"
| "req_kind (Finished t n) = t"

lemma ends_kind: "req_kind (ends n st) = req_kind st" "ends n st = Free \<longleftrightarrow> st = Free"
  by (cases st; simp)+

lemma fold_spec_end_kind:
  "v p = Some st \<Longrightarrow> st \<noteq> Free \<Longrightarrow>
     \<exists>st'. fold spec_end sts v p = Some st' \<and> st' \<noteq> Free \<and> req_kind st' = req_kind st"
proof (induction sts arbitrary: v st)
  case (Cons e sts)
  show ?case
  proof (cases "s_context e = p")
    case True
    then have "spec_end e v p = Some (ends (s_nbytes e) st)" using Cons.prems by (simp add: spec_end_def)
    from Cons.IH [where v = "spec_end e v", OF this] show ?thesis
      using Cons.prems by (simp add: ends_kind)
  next
    case False
    then have "spec_end e v p = Some st" using Cons.prems by (simp add: spec_end_def)
    from Cons.IH [where v = "spec_end e v", OF this] show ?thesis using Cons.prems by simp
  qed
qed simp

lemma posted_ok_drop:
  assumes "posted_ok s pm" and "\<not> pending s p" and "req_view s' = (req_view s)(p \<mapsto> st)"
  shows "posted_ok s' pm"
proof -
  have "pending s' q \<and> uint l \<le> INT_MAX" if "(q, l) \<in># pm" for q l
  proof -
    have "pending s q \<and> uint l \<le> INT_MAX" using posted_ok_pending [OF assms(1) that] .
    moreover from this have "q \<noteq> p" using assms(2) by blast
    ultimately show ?thesis using assms(3) by (simp only: pending_view) simp
  qed
  then show ?thesis using assms(1) unfolding posted_ok_def by blast
qed

text \<open>
  What the call reports, given the state the request is in after polling, and the state it
  leaves the request in.
\<close>

fun spec_report :: "req_state \<Rightarrow> (int \<times> int option) \<times> req_state" where
  "spec_report (Finished t n) = ((1, if t = ReqRecv then Some n else None), Free)"
| "spec_report st = ((0, None), st)"

lemma psm2_nccl_test_returns:
  assumes "plugin_ok P opened posted s" and "req_view s p = Some st" and "st \<noteq> Free"
    and "has_size \<or> req_kind st \<noteq> ReqRecv"
  shows "\<exists>d sz s' s1 sts st1. psm2_nccl_test P p has_size s = Some (Ret (ncclSuccess, d, sz, s')) \<and>
    plugin_ok P opened posted s' \<and> same_but_reqs s s' \<and> polled posted s sts s1 \<and>
    world s' = world s1 \<and> fold spec_end sts (req_view s) p = Some st1 \<and>
    spec_report st1 = ((d, sz), the (req_view s' p)) \<and>
    req_view s' = (fold spec_end sts (req_view s))(p := req_view s' p) \<and> req_view s' p \<noteq> None"
proof -
  obtain c i where p: "p = (c, i)" by fastforce
  obtain cm where cm: "comms s c = Some cm" and i: "i < length (requests cm)"
    and st: "st = abs_req (requests cm ! i)"
    using assms(2) by (auto simp: p split: option.splits if_splits)
  let ?r = "requests cm ! i"
  have u: "used ?r \<noteq> 0" using assms(3) st by (auto simp: abs_req_def)
  have ld: "load_req p s = Ret ?r" using cm i by (simp add: p)
  obtain s1 sts where loop: "mq_progress_loop P (r_mq ?r) s = Some (Ret (0, s1))"
    and ok1: "plugin_ok P opened posted s1" and sb: "same_but_reqs s s1"
    and pol: "polled posted s sts s1"
    using mq_progress_loop_polled [OF assms(1)] by metis
  have v1: "req_view s1 = fold spec_end sts (req_view s)" using pol by (simp add: polled_def)
  obtain st1 where st1: "req_view s1 p = Some st1" "st1 \<noteq> Free" "req_kind st1 = req_kind st"
    using fold_spec_end_kind [where v = "req_view s" and p = p, OF assms(2,3)] v1 by metis
  obtain cm1 where cm1: "comms s1 c = Some cm1" and i1: "i < length (requests cm1)"
    and a1: "st1 = abs_req (requests cm1 ! i)"
    using st1(1) by (auto simp: p split: option.splits if_splits)
  let ?r1 = "requests cm1 ! i"
  have ld1: "load_req p s1 = Ret ?r1" using cm1 i1 by (simp add: p)
  have u1: "used ?r1 \<noteq> 0" using st1(2) a1 by (auto simp: abs_req_def)
  have ok0: "PSM2_OK P = 0" using plugin_okD(3) [OF ok1] by (simp add: consts_ok_def)
  show ?thesis
  proof (cases "req_done ?r1 = 0")
    case True
    then have "psm2_nccl_test P p has_size s = Some (Ret (ncclSuccess, 0, None, s1))"
      using ld u loop ld1 by (simp add: psm2_nccl_test_def)
    moreover have "spec_report st1 = ((0, None), the (req_view s1 p))"
      using a1 u1 True st1(1) by (simp add: abs_req_def)
    moreover have "fold spec_end sts (req_view s) = (fold spec_end sts (req_view s))(p \<mapsto> st1)"
      using st1(1) v1 fun_upd_triv [of "req_view s1" p] by metis
    ultimately show ?thesis
      using ok1 sb pol v1 st1(1)
      by (intro exI [of _ 0] exI [of _ None] exI [of _ s1] exI [of _ s1] exI [of _ sts]
          exI [of _ st1]) (simp del: req_view.simps)
  next
    case False
    let ?sz = "if r_type ?r1 = ReqRecv then Some (recv_size ?r1) else None"
    let ?s2 = "store_req p zero_req s1"
    have f: "st1 = Finished (r_type ?r1) (recv_size ?r1)" using a1 u1 False by (simp add: abs_req_def)
    then have "\<not> (r_type ?r1 = ReqRecv \<and> \<not> has_size)" using st1(3) assms(4) by auto
    then have "test_done P p has_size 0 ?r1 s1 = Ret (ncclSuccess, 1, ?sz, ?s2)"
      using ld1 ok0 by (simp add: test_done_def put_req_def Let_def del: store_req.simps)
    then have e: "psm2_nccl_test P p has_size s = Some (Ret (ncclSuccess, 1, ?sz, ?s2))"
      using False ld u loop ld1 by (simp add: psm2_nccl_test_def del: store_req.simps)
    have v2: "req_view ?s2 = (req_view s1)(p \<mapsto> Free)"
      using req_view_store [OF cm1 i1, of zero_req] by (simp add: p del: store_req.simps)
    have sb1: "same_but_reqs s1 ?s2"
      using same_but_reqs_store [OF cm1] by (simp add: p del: store_req.simps)
    have w2: "world ?s2 = world s1" by simp
    have "comms_ok P opened ?s2"
      using comms_ok_same_but_reqs [OF plugin_okD(1) [OF ok1] sb1] by simp
    moreover have "reqs_ok ?s2"
      using reqs_ok_store [OF plugin_okD(4) [OF ok1] cm1] by (simp add: p del: store_req.simps)
    moreover have "\<not> pending s1 p" using st1(1) f by (simp only: pending_view) simp
    then have "posted_ok ?s2 (posted (world ?s2))"
      using posted_ok_drop [OF plugin_okD(5) [OF ok1] _ v2] w2 by simp
    ultimately have "plugin_ok P opened posted ?s2"
      using plugin_okD(2,3) [OF ok1] unfolding plugin_ok_def by blast
    moreover have "same_but_reqs s ?s2" by (rule same_but_reqs_trans [OF sb sb1])
    moreover have "spec_report st1 = ((1, ?sz), the (req_view ?s2 p))"
      by (simp add: f v2 del: store_req.simps)
    ultimately show ?thesis
      using e pol v1 st1(1) w2 v2
      by (intro exI [of _ 1] exI [of _ ?sz] exI [of _ ?s2] exI [of _ s1] exI [of _ sts]
          exI [of _ st1]) (simp del: req_view.simps store_req.simps)
  qed
qed

end
