(* ===== verification/Data_Props.thy ===== *)
theory Data_Props
  imports Data_Api
begin

text \<open>
  The properties of the data calls: what posting does on every branch, how many requests a
  communicator has, that testing refines the abstract request and reports it once, and what an
  error of the library and a missing \<open>size\<close> do.
\<close>

section \<open>States for the examples\<close>

lemma two_comms_reqs: "reqs_ok two_comms"
  by (auto simp: reqs_ok_def shared_comm_def zero_comm_def req_array_ok_def split: if_splits)

lemma two_comms_plugin_ok: "plugin_ok sim_platform (\<lambda>w. set (sim_eps w)) sim_view two_comms"
  using two_comms_ok two_comms_reqs sim_mq_contract sim_consts_ok
  by (simp add: plugin_ok_def posted_ok_def sim_view_def sim0_def)

text \<open>The first communicator has posted a receive of at most 64 bytes.\<close>

definition one_recv :: "sim plugin" where
  "one_recv = store_req (1, 0) (new_req 1 shared_comm ReqRecv\<lparr>r_req := 1\<rparr>)
     (two_comms\<lparr>world := sim0\<lparr>sim_eps := [1], sim_next := 2, sim_posted := [(1, 1, (1, 0), 64)]\<rparr>\<rparr>)"

lemma shared_comm_first_free: "find_unused 0 (take NUM_REQUESTS (requests shared_comm)) = Some 0"
  by (simp add: shared_comm_def zero_comm_def NUM_REQUESTS_def NCCL_NET_MAX_REQUESTS_def numeral_eq_Suc)

lemma one_recv_posted: "psm2_nccl_irecv_v4 sim_platform 1 7 64 0 two_comms =
    Ret (ncclSuccess, Some (1, 0), one_recv)"
proof -
  have f: "find_unused 0 (requests shared_comm) = Some 0"
    using shared_comm_first_free by (simp add: shared_comm_def zero_comm_def)
  have c: "comms two_comms 1 = Some shared_comm" by simp
  let ?call = "\<lambda>cm r. psm2_mq_irecv sim_platform (mq cm) (tag cm) (NOT 0)
    (PSM2_MQ_FLAG_GDRCPY_ONLY sim_platform) 7 (int_to_u32 64) r"
  have call: "?call (shared_comm\<lparr>requests := (requests shared_comm)[0 := new_req 1 shared_comm ReqRecv]\<rparr>)
      (1, 0) (world two_comms) =
    (0, 1, sim0\<lparr>sim_eps := [1], sim_next := 2, sim_posted := [(1, 1, (1, 0), 64)]\<rparr>)"
    by (simp add: sim_post_def sim0_def int_to_u32_def)
  show ?thesis
    unfolding psm2_nccl_irecv_v4_def one_recv_def
    using post_request_eval(2) [where call = ?call, OF two_comms_reqs c _ f call] by simp
qed

lemma one_recv_ok: "plugin_ok sim_platform (\<lambda>w. set (sim_eps w)) sim_view one_recv"
proof -
  have c: "comms two_comms 1 = Some shared_comm" by simp
  have "(0::int) \<le> 64" and "(64::int) \<le> INT_MAX" by (simp_all add: INT_MAX_def)
  from psm2_nccl_irecv_v4_returns [OF two_comms_plugin_ok c this, of 7 0] show ?thesis
    unfolding one_recv_posted by simp
qed

lemma one_recv_view: "req_view one_recv (1, 0) = Some (InFlight ReqRecv)"
proof -
  have c: "comms (two_comms\<lparr>world := w\<rparr>) 1 = Some shared_comm" for w by simp
  have l: "0 < length (requests shared_comm)"
    by (simp add: shared_comm_def zero_comm_def NUM_REQUESTS_def NCCL_NET_MAX_REQUESTS_def)
  show ?thesis
    unfolding one_recv_def req_view_store [OF c l] by (simp add: abs_req_def new_req_def zero_req_def)
qed

section \<open>Posting\<close>

text \<open>
  C19: sending. A send on a live communicator returns without an assertion failing. Either it
  hands out a request that was free, which is then in flight and known to the library with the
  length asked for; or no request was free, the call succeeds with a NULL request and changes
  nothing; or the library refused, and every request is as it was.
\<close>

theorem psm2_nccl_isend_posts:
  assumes "plugin_ok P opened posted s" and "comms s c = Some cm" and "0 \<le> sz" and "sz \<le> INT_MAX"
  shows "returns (psm2_nccl_isend P c data sz tg mhandle s) (\<lambda>(r, ro, s').
    plugin_ok P opened posted s' \<and>
    (case ro of
       Some p \<Rightarrow> r = ncclSuccess \<and> fst p = c \<and> req_view s p = Some Free \<and>
         req_view s' = (req_view s)(p \<mapsto> InFlight ReqSend) \<and>
         posted (world s') = add_mset (p, int_to_u32 sz) (posted (world s))
     | None \<Rightarrow> (if \<forall>i<NUM_REQUESTS. req_view s (c, i) \<noteq> Some Free
         then r = ncclSuccess \<and> s' = s
         else r = ncclInternalError \<and> s' = s\<lparr>world := world s'\<rparr> \<and>
           posted (world s') = posted (world s))))"
  using psm2_nccl_isend_returns [OF assms, of data tg mhandle]
  by (rule returns_mono) (auto simp: post_result_def split del: if_split)

lemma psm2_nccl_isend_posts_witness:
  "returns (psm2_nccl_isend sim_platform 2 7 64 0 0 one_recv) (\<lambda>(r, ro, s').
     plugin_ok sim_platform (\<lambda>w. set (sim_eps w)) sim_view s')"
proof -
  obtain cm where "comms one_recv 2 = Some cm"
    by (simp add: one_recv_def store_comm_def)
  moreover have "(0::int) \<le> 64" and "(64::int) \<le> INT_MAX" by (simp_all add: INT_MAX_def)
  ultimately have "returns (psm2_nccl_isend sim_platform 2 7 64 0 0 one_recv) (\<lambda>(r, ro, s').
     plugin_ok sim_platform (\<lambda>w. set (sim_eps w)) sim_view s' \<and>
    (case ro of
       Some p \<Rightarrow> r = ncclSuccess \<and> fst p = 2 \<and> req_view one_recv p = Some Free \<and>
         req_view s' = (req_view one_recv)(p \<mapsto> InFlight ReqSend) \<and>
         sim_view (world s') = add_mset (p, int_to_u32 64) (sim_view (world one_recv))
     | None \<Rightarrow> (if \<forall>i<NUM_REQUESTS. req_view one_recv (2, i) \<noteq> Some Free
         then r = ncclSuccess \<and> s' = one_recv
         else r = ncclInternalError \<and> s' = one_recv\<lparr>world := world s'\<rparr> \<and>
           sim_view (world s') = sim_view (world one_recv))))"
    by (rule psm2_nccl_isend_posts [OF one_recv_ok])
  then show ?thesis by (rule returns_mono) auto
qed

text \<open>
  C20: receiving. Called with arrays of one element, as NCCL does for a plugin that announces
  one receive at a time, \<open>psm2_nccl_irecv\<close> posts a receive for the first buffer, in the
  same three ways as a send; a larger group is stopped by the assertion.
\<close>

theorem psm2_nccl_irecv_posts:
  assumes "plugin_ok P opened posted s" and "comms s c = Some cm" and "0 \<le> sz" and "sz \<le> INT_MAX"
  shows "(if n \<le> 1 \<or> ndebug P then
     returns (psm2_nccl_irecv P c n (d # ds) (sz # szs) tags (mh # mhs) s) (\<lambda>(r, ro, s').
       plugin_ok P opened posted s' \<and>
       (case ro of
          Some p \<Rightarrow> r = ncclSuccess \<and> fst p = c \<and> req_view s p = Some Free \<and>
            req_view s' = (req_view s)(p \<mapsto> InFlight ReqRecv) \<and>
            posted (world s') = add_mset (p, int_to_u32 sz) (posted (world s))
        | None \<Rightarrow> (if \<forall>i<NUM_REQUESTS. req_view s (c, i) \<noteq> Some Free
            then r = ncclSuccess \<and> s' = s
            else r = ncclInternalError \<and> s' = s\<lparr>world := world s'\<rparr> \<and>
              posted (world s') = posted (world s))))
     else psm2_nccl_irecv P c n (d # ds) (sz # szs) tags (mh # mhs) s = Abort)"
proof (cases "n \<le> 1 \<or> ndebug P")
  case True
  then have "psm2_nccl_irecv P c n (d # ds) (sz # szs) tags (mh # mhs) s =
      psm2_nccl_irecv_v4 P c d sz mh s"
    by (auto simp: psm2_nccl_irecv_def c_assert_def NCCL_NET_PSM2_MAX_RECVS_def)
  moreover have "returns (psm2_nccl_irecv_v4 P c d sz mh s) (\<lambda>(r, ro, s').
       plugin_ok P opened posted s' \<and>
       (case ro of
          Some p \<Rightarrow> r = ncclSuccess \<and> fst p = c \<and> req_view s p = Some Free \<and>
            req_view s' = (req_view s)(p \<mapsto> InFlight ReqRecv) \<and>
            posted (world s') = add_mset (p, int_to_u32 sz) (posted (world s))
        | None \<Rightarrow> (if \<forall>i<NUM_REQUESTS. req_view s (c, i) \<noteq> Some Free
            then r = ncclSuccess \<and> s' = s
            else r = ncclInternalError \<and> s' = s\<lparr>world := world s'\<rparr> \<and>
              posted (world s') = posted (world s))))"
    using psm2_nccl_irecv_v4_returns [OF assms, of d mh]
    by (rule returns_mono) (auto simp: post_result_def split del: if_split)
  ultimately show ?thesis using True by simp
next
  case False
  then show ?thesis by (simp add: psm2_nccl_irecv_def c_assert_def NCCL_NET_PSM2_MAX_RECVS_def)
qed

lemma psm2_nccl_irecv_posts_witness:
  "returns (psm2_nccl_irecv sim_platform 1 1 [7] [64] [0] [0] two_comms) (\<lambda>(r, ro, s').
     r = ncclSuccess \<and> ro = Some (1, 0) \<and>
     plugin_ok sim_platform (\<lambda>w. set (sim_eps w)) sim_view s')"
proof -
  have c: "comms two_comms 1 = Some shared_comm" by simp
  have "(0::int) \<le> 64" and "(64::int) \<le> INT_MAX" by (simp_all add: INT_MAX_def)
  note t = psm2_nccl_irecv_posts [OF two_comms_plugin_ok c this, of 1 7 "[]" "[]" "[0]" 0 "[]"]
  have "psm2_nccl_irecv sim_platform 1 1 [7] [64] [0] [0] two_comms =
      Ret (ncclSuccess, Some (1, 0), one_recv)"
    using one_recv_posted
    by (simp add: psm2_nccl_irecv_def NCCL_NET_PSM2_MAX_RECVS_def)
  with t show ?thesis by auto
qed

section \<open>Testing\<close>

text \<open>
  C6: testing a request implements its contract. The call returns. A request that is
  not in use is refused and nothing changes. Otherwise operations that the library retires
  end, in the order in which they are retired, and the request is reported according to the state it is
  then in: not done while it is in flight, done (with its size, for a receive) and free again
  when it has finished. No other request changes but by ending.
\<close>

theorem psm2_nccl_test_refines:
  assumes "plugin_ok P opened posted s" and "req_view s p = Some st"
    and "has_size \<or> req_kind st \<noteq> ReqRecv"
  shows "\<exists>r d sz s'. psm2_nccl_test P p has_size s = Some (Ret (r, d, sz, s')) \<and>
    plugin_ok P opened posted s' \<and>
    (if st = Free then r = ncclInternalError \<and> d = 0 \<and> sz = None \<and> s' = s
     else r = ncclSuccess \<and>
       (\<exists>sts ls st1 st2. list_all2 (\<lambda>e l. s_nbytes e \<le> l) sts ls \<and>
          posted (world s) = posted (world s') + mset (zip (map s_context sts) ls) \<and>
          fold spec_end sts (req_view s) p = Some st1 \<and> spec_report st1 = ((d, sz), st2) \<and>
          req_view s' = (fold spec_end sts (req_view s))(p \<mapsto> st2)))"
proof (cases "st = Free")
  case True
  obtain c i where p: "p = (c, i)" by fastforce
  obtain cm where cm: "comms s c = Some cm" and i: "i < length (requests cm)"
    and st: "abs_req (requests cm ! i) = Free"
    using assms(2) True by (auto simp: p split: option.splits if_splits)
  have "used (requests cm ! i) = 0" using st by (auto simp: abs_req_def split: if_splits)
  then have "psm2_nccl_test P p has_size s = Some (Ret (ncclInternalError, 0, None, s))"
    using cm i by (simp add: psm2_nccl_test_def p)
  then show ?thesis using True assms(1) by simp
next
  case False
  from psm2_nccl_test_returns [OF assms(1,2) False assms(3)] obtain d sz s' s1 sts st1
    where e: "psm2_nccl_test P p has_size s = Some (Ret (ncclSuccess, d, sz, s'))"
      and ok: "plugin_ok P opened posted s'" and pol: "polled posted s sts s1"
      and w: "world s' = world s1" and f: "fold spec_end sts (req_view s) p = Some st1"
      and r: "spec_report st1 = ((d, sz), the (req_view s' p))"
      and v: "req_view s' = (fold spec_end sts (req_view s))(p := req_view s' p)"
      and n: "req_view s' p \<noteq> None" by metis
  obtain ls where ls: "list_all2 (\<lambda>e l. s_nbytes e \<le> l) sts ls"
      "posted (world s) = posted (world s') + mset (zip (map s_context sts) ls)"
    using pol w unfolding polled_def by auto
  have "req_view s' = (fold spec_end sts (req_view s))(p \<mapsto> the (req_view s' p))"
    using v n by (metis option.exhaust_sel)
  then show ?thesis using False e ok ls f r by auto
qed

text \<open>The outstanding receive of 64 bytes is reported.\<close>

lemma one_recv_round:
  "progress_round sim_platform 1 one_recv =
     Ret (None, complete_status \<lparr>s_context = (1, 0), s_nbytes = 64\<rparr>
       (one_recv\<lparr>world := sim0\<lparr>sim_eps := [1], sim_next := 2\<rparr>\<rparr>))"
proof -
  let ?w = "sim0\<lparr>sim_eps := [1], sim_next := 2\<rparr>"
  have "world one_recv = ?w\<lparr>sim_posted := [(1, 1, (1, 0), 64)]\<rparr>"
    by (simp add: one_recv_def store_comm_def)
  moreover have "complete_req sim_platform \<lparr>s_context = (1, 0), s_nbytes = 64\<rparr> (one_recv\<lparr>world := ?w\<rparr>) =
      Ret (None, complete_status \<lparr>s_context = (1, 0), s_nbytes = 64\<rparr> (one_recv\<lparr>world := ?w\<rparr>))"
    by (rule complete_req_pending)
      (use one_recv_view in \<open>simp_all add: INT_MAX_def pending_view del: req_view.simps\<close>)
  ultimately show ?thesis
    by (simp add: progress_round_def sim_test_def sim0_def)
qed

definition one_ended :: "sim plugin" where
  "one_ended = complete_status \<lparr>s_context = (1, 0), s_nbytes = 64\<rparr>
     (one_recv\<lparr>world := sim0\<lparr>sim_eps := [1], sim_next := 2\<rparr>\<rparr>)"

lemma one_recv_loop: "mq_progress_loop sim_platform 1 one_recv = Some (Ret (0, one_ended))"
proof -
  have "world one_ended = sim0\<lparr>sim_eps := [1], sim_next := 2\<rparr>" by (simp add: one_ended_def)
  then have "progress_round sim_platform 1 one_ended = Ret (Some 0, one_ended)"
    by (simp add: progress_round_def sim0_def)
  then show ?thesis
    using one_recv_round by (simp add: mq_progress_loop.simps one_ended_def)
qed

lemma one_recv_test:
  "\<exists>s'. psm2_nccl_test sim_platform (1, 0) True one_recv = Some (Ret (ncclSuccess, 1, Some 64, s'))"
proof -
  note one_recv_loop [unfolded one_ended_def]
  moreover have "\<exists>rs. comms one_recv 1 = Some (shared_comm\<lparr>requests := rs\<rparr>) \<and> length rs = 32 \<and>
      rs ! 0 = new_req 1 shared_comm ReqRecv\<lparr>r_req := 1\<rparr>"
    by (simp add: one_recv_def store_comm_def shared_comm_def zero_comm_def NUM_REQUESTS_def
        NCCL_NET_MAX_REQUESTS_def)
  ultimately show ?thesis
    by (auto simp: psm2_nccl_test_def complete_status_def finish_req_def new_req_def zero_req_def
        test_done_def put_req_def)
qed

lemma psm2_nccl_test_refines_witness:
  "\<exists>s'. psm2_nccl_test sim_platform (1, 0) True one_recv = Some (Ret (ncclSuccess, 1, Some 64, s')) \<and>
     plugin_ok sim_platform (\<lambda>w. set (sim_eps w)) sim_view s' \<and> req_view s' (1, 0) = Some Free"
proof -
  obtain s' where e: "psm2_nccl_test sim_platform (1, 0) True one_recv =
      Some (Ret (ncclSuccess, 1, Some 64, s'))" using one_recv_test by blast
  have "True \<or> req_kind (InFlight ReqRecv) \<noteq> ReqRecv" by simp
  from psm2_nccl_test_refines [OF one_recv_ok one_recv_view this] e
  obtain st1 st2 sts where ok: "plugin_ok sim_platform (\<lambda>w. set (sim_eps w)) sim_view s'"
    and r: "spec_report st1 = ((1, Some 64), st2)"
    and v: "req_view s' = (fold spec_end sts (req_view one_recv))((1, 0) \<mapsto> st2)" by auto
  from r have f: "st2 = Free" by (cases st1) auto
  have "req_view s' (1, 0) = Some Free" unfolding v f by (rule fun_upd_same)
  then show ?thesis using e ok by blast
qed

text \<open>
  C14: a finished request is reported once. After a test has reported it, testing the same
  request again is refused, until the request is handed out again.
\<close>

theorem psm2_nccl_test_once:
  assumes "plugin_ok P opened posted s" and "has_size \<or> req_kind st \<noteq> ReqRecv"
    and "req_view s p = Some st" and "psm2_nccl_test P p has_size s = Some (Ret (ncclSuccess, d, sz, s'))"
    and "d \<noteq> 0"
  shows "psm2_nccl_test P p has_size' s' = Some (Ret (ncclInternalError, 0, None, s'))"
proof -
  obtain c i where p: "p = (c, i)" by fastforce
  have "st \<noteq> Free"
  proof
    assume "st = Free"
    then obtain cm where "comms s c = Some cm" and "i < length (requests cm)"
      and "used (requests cm ! i) = 0"
      using assms(3) by (auto simp: p abs_req_def split: option.splits if_splits)
    then show False using assms(4) by (simp add: psm2_nccl_test_def p)
  qed
  from psm2_nccl_test_returns [OF assms(1,3) this assms(2)] assms(4) obtain st1
    where "spec_report st1 = ((d, sz), the (req_view s' p))" and "req_view s' p \<noteq> None" by auto
  then have "req_view s' p = Some Free" using assms(5) by (cases st1) auto
  then obtain cm where "comms s' c = Some cm" and "i < length (requests cm)"
    and "used (requests cm ! i) = 0"
    by (auto simp: p abs_req_def split: option.splits if_splits)
  then show ?thesis by (simp add: psm2_nccl_test_def p)
qed

lemma psm2_nccl_test_once_witness:
  "\<exists>s'. psm2_nccl_test sim_platform (1, 0) True one_recv = Some (Ret (ncclSuccess, 1, Some 64, s')) \<and>
     psm2_nccl_test sim_platform (1, 0) True s' = Some (Ret (ncclInternalError, 0, None, s'))"
proof -
  obtain s' where e: "psm2_nccl_test sim_platform (1, 0) True one_recv =
      Some (Ret (ncclSuccess, 1, Some 64, s'))" using one_recv_test by blast
  have "True \<or> req_kind (InFlight ReqRecv) \<noteq> ReqRecv" by simp
  from psm2_nccl_test_once [OF one_recv_ok this one_recv_view e] e show ?thesis by simp
qed

text \<open>What ended a request that was in flight, and the bound on the size.\<close>

lemma fold_spec_end_finished:
  "v p = Some (Finished t n) \<Longrightarrow> fold spec_end sts v p = Some (Finished t n)"
proof (induction sts arbitrary: v)
  case (Cons e sts)
  have "spec_end e v p = Some (Finished t n)"
    using Cons.prems by (cases "s_context e = p") (auto simp: spec_end_def)
  from Cons.IH [where v = "spec_end e v", OF this] show ?case by simp
qed simp

lemma fold_spec_end_source:
  "v p = Some (InFlight t) \<Longrightarrow> fold spec_end sts v p = Some (Finished t' n) \<Longrightarrow>
     \<exists>e\<in>set sts. s_context e = p \<and> (t' = ReqRecv \<longrightarrow> n = uint (s_nbytes e))"
proof (induction sts arbitrary: v)
  case (Cons e sts)
  show ?case
  proof (cases "s_context e = p")
    case False
    then have "spec_end e v p = Some (InFlight t)" using Cons.prems by (simp add: spec_end_def)
    from Cons.IH [where v = "spec_end e v", OF this] show ?thesis using Cons.prems by auto
  next
    case True
    then have "spec_end e v p = Some (Finished t (if t = ReqRecv then uint (s_nbytes e) else 0))"
      using Cons.prems by (simp add: spec_end_def)
    from fold_spec_end_finished [where v = "spec_end e v" and sts = sts, OF this]
    have "t' = t \<and> n = (if t = ReqRecv then uint (s_nbytes e) else 0)"
      using Cons.prems(2) by auto
    then show ?thesis using True by simp
  qed
qed simp

text \<open>An operation that is retired ends its request.\<close>

lemma fold_spec_end_ended:
  "v p = Some (InFlight t) \<Longrightarrow> e \<in> set sts \<Longrightarrow> s_context e = p \<Longrightarrow>
     \<exists>n. fold spec_end sts v p = Some (Finished t n)"
proof (induction sts arbitrary: v)
  case (Cons e' sts)
  show ?case
  proof (cases "s_context e' = p")
    case True
    then have "spec_end e' v p = Some (Finished t (if t = ReqRecv then uint (s_nbytes e') else 0))"
      using Cons.prems by (simp add: spec_end_def)
    from fold_spec_end_finished [where v = "spec_end e' v" and sts = sts, OF this] show ?thesis by simp
  next
    case False
    then have v: "spec_end e' v p = Some (InFlight t)" and e: "e \<in> set sts"
      using Cons.prems by (auto simp: spec_end_def)
    from Cons.IH [where v = "spec_end e' v", OF v e Cons.prems(3)] show ?thesis by simp
  qed
qed simp

section \<open>Errors of the library\<close>

text \<open>
  A round of polling that does not end the loop completes one request that was in flight, and
  a number of such rounds completes as many requests, no one twice.
\<close>

lemma progress_round_next:
  assumes "progress_round P q s = Ret (None, s')"
  obtains st w where "s' = complete_status st (s\<lparr>world := w\<rparr>)" and "pending s (s_context st)"
proof -
  obtain rc h w1 where pk: "psm2_mq_ipeek P q (world s) = (rc, h, w1)" by (metis prod_cases3)
  obtain trc st w2 where t: "psm2_mq_test P h w1 = (trc, st, w2)" by (metis prod_cases3)
  obtain c i where ci: "s_context st = (c, i)" by fastforce
  have r: "complete_req P st (s\<lparr>world := w2\<rparr>) = Ret (None, s')"
    using assms pk t by (auto simp: progress_round_def outcome_simps split: if_splits)
  then obtain cm where cm: "comms s c = Some cm" and i: "i < length (requests cm)"
    and u: "used (requests cm ! i) \<noteq> 0" and d: "req_done (requests cm ! i) = 0"
    by (auto simp: complete_req_def ci obind_eq_Ret outcome_simps split: option.splits if_splits)
  have "s' = complete_status st (s\<lparr>world := w2\<rparr>)"
    using r cm i u d
    by (auto simp: complete_req_def complete_status_def finish_req_def ci outcome_simps Let_def
        store_comm_def u32_to_int_small split: if_splits)
  moreover have "pending s (s_context st)" using cm i u d by (simp add: ci)
  ultimately show thesis by (rule that)
qed

abbreviation completing_rounds :: "'w platform \<Rightarrow> addr \<Rightarrow> 'w plugin \<Rightarrow> 'w plugin \<Rightarrow> bool" where
  "completing_rounds P q \<equiv> rtranclp (\<lambda>s s'. progress_round P q s = Ret (None, s'))"

lemma completing_rounds_loop:
  "completing_rounds P q s s1 \<Longrightarrow> mq_progress_loop P q s = mq_progress_loop P q s1"
  by (induction rule: rtranclp_induct) (simp_all add: mq_progress_loop.simps)

lemma fold_spec_end_inflight:
  "fold spec_end sts v p = Some (InFlight t) \<Longrightarrow> v p = Some (InFlight t)"
proof (induction sts arbitrary: v)
  case (Cons e sts)
  from Cons.IH [where v = "spec_end e v"] Cons.prems have "spec_end e v p = Some (InFlight t)" by simp
  then show ?case
    by (cases "v p"; cases "the (v p)") (auto simp: spec_end_def split: if_splits)
qed simp

lemma completing_rounds_spec:
  assumes "completing_rounds P q s s1" and "reqs_ok s"
  shows "\<exists>sts. distinct (map s_context sts) \<and>
    (\<forall>e\<in>set sts. \<exists>t. req_view s (s_context e) = Some (InFlight t)) \<and>
    s1 = (fold complete_status sts s)\<lparr>world := world s1\<rparr> \<and>
    req_view s1 = fold spec_end sts (req_view s) \<and> reqs_ok s1"
  using assms(1)
proof (induction rule: rtranclp_induct)
  case base
  show ?case by (intro exI [of _ "[]"]) (simp add: assms(2) del: req_view.simps)
next
  case (step s1 s2)
  then obtain sts where d: "distinct (map s_context sts)"
    and f: "\<forall>e\<in>set sts. \<exists>t. req_view s (s_context e) = Some (InFlight t)"
    and s1: "s1 = (fold complete_status sts s)\<lparr>world := world s1\<rparr>"
    and v1: "req_view s1 = fold spec_end sts (req_view s)" and ok1: "reqs_ok s1" by blast
  from step.hyps(2) obtain st w where s2: "s2 = complete_status st (s1\<lparr>world := w\<rparr>)"
    and p: "pending s1 (s_context st)" by (rule progress_round_next)
  then obtain t where t: "fold spec_end sts (req_view s) (s_context st) = Some (InFlight t)"
    unfolding pending_view v1 by blast
  note v = fold_spec_end_inflight [where v = "req_view s", OF t]
  have new: "s_context st \<notin> set (map s_context sts)"
    using fold_spec_end_ended [where v = "req_view s" and sts = sts, OF v] t by fastforce
  have "reqs_ok (s1\<lparr>world := w\<rparr>)" and "pending (s1\<lparr>world := w\<rparr>) (s_context st)"
    using ok1 p by simp_all
  note c = complete_status_spec [OF this, folded s2]
  have "s2 = (fold complete_status (sts @ [st]) s)\<lparr>world := world s2\<rparr>"
    by (subst s2, subst s1) (simp add: s2 complete_status_world)
  moreover have "req_view s2 = fold spec_end (sts @ [st]) (req_view s)"
    using c(1) v1 by simp
  moreover have "distinct (map s_context (sts @ [st]))" using d new by simp
  moreover have "\<forall>e\<in>set (sts @ [st]). \<exists>t. req_view s (s_context e) = Some (InFlight t)"
    using f v by auto
  ultimately show ?case using c(2) by blast
qed

text \<open>
  C23: what happens if the library breaks its contract while a queue is polled. The polling has made
  any number of rounds, which completed the requests of the operations \<open>sts\<close>, all
  different and in flight before. Then \<open>psm2_mq_ipeek\<close> reports an error, or
  \<open>psm2_mq_test\<close> does, or the operation that it retires names a request that is not in use
  or already done. This fails an assertion. Compiled without assertions, the test returns an internal
  error and reports nothing done, not even if the request that is tested is one of those completed;
  these stay completed, for a later test to report, and every other request is as it was.
\<close>

theorem psm2_nccl_test_library_error:
  assumes "reqs_ok s" and "load_req p s = Ret q" and "used q \<noteq> 0" and "consts_ok P"
    and "completing_rounds P (r_mq q) s s1"
    and "psm2_mq_ipeek P (r_mq q) (world s1) = (rc, h, w1)" and "rc \<noteq> PSM2_MQ_INCOMPLETE P"
    and "psm2_mq_test P h w1 = (testrc, st, w2)"
    and "rc \<noteq> PSM2_OK P \<or> testrc \<noteq> PSM2_OK P \<or>
      (\<exists>x. load_req (s_context st) s1 = Ret x \<and> (used x = 0 \<or> req_done x \<noteq> 0))"
  shows "\<exists>sts s'. distinct (map s_context sts) \<and>
    (\<forall>e\<in>set sts. \<exists>t. req_view s (s_context e) = Some (InFlight t)) \<and>
    s' = (fold complete_status sts s)\<lparr>world := if rc = PSM2_OK P then w2 else w1\<rparr> \<and>
    req_view s' = fold spec_end sts (req_view s) \<and>
    psm2_nccl_test P p has_size s =
      (if ndebug P then Some (Ret (ncclInternalError, 0, None, s')) else Some Abort)"
proof -
  let ?s' = "s1\<lparr>world := if rc = PSM2_OK P then w2 else w1\<rparr>"
  have 0: "PSM2_OK P = 0" using assms(4) by (simp add: consts_ok_def)
  have ld: "load_req x (s1\<lparr>world := w\<rparr>) = load_req x s1" for x w by (cases x) simp
  have "\<exists>e. progress_round P (r_mq q) s1 = (if ndebug P then Ret (Some e, ?s') else Abort) \<and> e \<noteq> 0"
    using assms(6-9) 0 by (cases "ndebug P") (auto simp: progress_round_def complete_req_def ld c_assert_def)
  then obtain e where r: "progress_round P (r_mq q) s1 = (if ndebug P then Ret (Some e, ?s') else Abort)"
    and e: "e \<noteq> 0" by blast
  have "mq_progress_loop P (r_mq q) s1 = Some (if ndebug P then Ret (e, ?s') else Abort)"
    by (subst mq_progress_loop.simps) (simp add: r)
  then have "psm2_nccl_test P p has_size s =
      (if ndebug P then Some (Ret (ncclInternalError, 0, None, ?s')) else Some Abort)"
    using assms(2,3) completing_rounds_loop [OF assms(5)] 0 e by (auto simp: psm2_nccl_test_def)
  moreover from completing_rounds_spec [OF assms(5,1)] obtain sts where d: "distinct (map s_context sts)"
    and f: "\<forall>e\<in>set sts. \<exists>t. req_view s (s_context e) = Some (InFlight t)"
    and s1: "s1 = (fold complete_status sts s)\<lparr>world := world s1\<rparr>"
    and v1: "req_view s1 = fold spec_end sts (req_view s)" by blast
  moreover have "?s' = (fold complete_status sts s)\<lparr>world := if rc = PSM2_OK P then w2 else w1\<rparr>"
    by (subst s1) simp
  moreover have "req_view ?s' = fold spec_end sts (req_view s)" using v1 by simp
  ultimately show ?thesis by blast
qed

text \<open>
  A library that has one operation to retire and then fails to poll, with the code 3.
\<close>

definition failing :: "bool \<Rightarrow> sim platform" where
  "failing b = sim_platform\<lparr>ndebug := b, psm2_mq_ipeek := (\<lambda>q w.
     if sim_posted w = [] then (3, 0, w) else psm2_mq_ipeek sim_platform q w)\<rparr>"

lemma failing_round: "progress_round (failing b) 1 one_recv = Ret (None, one_ended)"
proof -
  have "complete_req (failing b) st s = Ret (None, complete_status st s)"
    if "pending s (s_context st)" and "uint (s_nbytes st) \<le> INT_MAX" for st s
    using that by (rule complete_req_pending)
  moreover have "world one_recv = sim0\<lparr>sim_eps := [1], sim_next := 2, sim_posted := [(1, 1, (1, 0), 64)]\<rparr>"
    by (simp add: one_recv_def store_comm_def)
  ultimately show ?thesis
    using one_recv_view
    by (simp add: progress_round_def failing_def sim_test_def sim0_def one_ended_def INT_MAX_def
        pending_view del: req_view.simps)
qed

lemma psm2_nccl_test_library_error_witness:
  "\<exists>s'. psm2_nccl_test (failing True) (1, 0) True one_recv = Some (Ret (ncclInternalError, 0, None, s')) \<and>
     psm2_nccl_test (failing False) (1, 0) True one_recv = Some Abort"
proof -
  obtain cm where "comms one_recv 1 = Some cm" and "0 < length (requests cm)"
    and "abs_req (requests cm ! 0) = InFlight ReqRecv"
    and m: "r_mq (requests cm ! 0) = 1"
    using one_recv_view
    by (auto simp: one_recv_def store_comm_def shared_comm_def zero_comm_def new_req_def
        split: option.splits if_splits)
  then have l: "load_req (1, 0) one_recv = Ret (requests cm ! 0)" and u: "used (requests cm ! 0) \<noteq> 0"
    by (auto simp: abs_req_def split: if_splits)
  have ok: "reqs_ok one_recv" and c: "consts_ok (failing b)" for b
    using plugin_okD(4) [OF one_recv_ok] by (simp_all add: consts_ok_def failing_def)
  have r: "completing_rounds (failing b) (r_mq (requests cm ! 0)) one_recv one_ended" for b
    unfolding m using failing_round [of b] by blast
  obtain trc st w2 where t: "sim_test 0 (world one_ended) = (trc, st, w2)" by (metis surj_pair)
  have w: "sim_posted (world one_ended) = []" by (simp add: one_ended_def sim0_def)
  have P: "psm2_mq_ipeek (failing b) q (world one_ended) = (3, 0, world one_ended)"
    "3 \<noteq> PSM2_MQ_INCOMPLETE (failing b)"
    "psm2_mq_test (failing b) 0 (world one_ended) = (trc, st, w2)" "3 \<noteq> PSM2_OK (failing b)"
    "ndebug (failing b) = b" for b q
    using t w by (simp_all add: failing_def)
  show ?thesis
    using psm2_nccl_test_library_error [OF ok l u c r P(1,2,3) disjI1 [OF P(4)], of True True]
      psm2_nccl_test_library_error [OF ok l u c r P(1,2,3) disjI1 [OF P(4)], of False True] P(5)
    by auto
qed

section \<open>A test without a size\<close>

text \<open>
  C22: the pointer \<open>size\<close> is not optional for a receive. If the request turns out to be a
  finished receive, a test with \<open>size\<close> NULL is undefined, while a test with a \<open>size\<close> reports
  it done with the number of bytes.
\<close>

theorem psm2_nccl_test_null_size:
  assumes "consts_ok P" and "load_req p s = Ret q" and "used q \<noteq> 0"
    and "mq_progress_loop P (r_mq q) s = Some (Ret (0, s1))"
    and "req_view s1 p = Some (Finished ReqRecv n)"
  shows "psm2_nccl_test P p False s = Some Undef \<and>
    (\<exists>s'. psm2_nccl_test P p True s = Some (Ret (ncclSuccess, 1, Some n, s')))"
proof -
  obtain c i where p: "p = (c, i)" by fastforce
  obtain cm where cm: "comms s1 c = Some cm" and i: "i < length (requests cm)"
    and a: "abs_req (requests cm ! i) = Finished ReqRecv n"
    using assms(5) by (auto simp: p split: option.splits if_splits)
  have l: "load_req p s1 = Ret (requests cm ! i)" using cm i by (simp add: p)
  have r: "req_done (requests cm ! i) \<noteq> 0" "r_type (requests cm ! i) = ReqRecv"
    "recv_size (requests cm ! i) = n"
    using a by (auto simp: abs_req_def split: if_splits)
  show ?thesis
    using assms(1-4) l r
    by (simp add: psm2_nccl_test_def test_done_def put_req_def consts_ok_def
        del: load_req.simps store_req.simps)
qed

lemma psm2_nccl_test_null_size_witness:
  "psm2_nccl_test sim_platform (1, 0) False one_recv = Some Undef"
proof -
  obtain rs where c: "comms one_recv 1 = Some (shared_comm\<lparr>requests := rs\<rparr>)" and l: "length rs = 32"
    and r: "rs ! 0 = new_req 1 shared_comm ReqRecv\<lparr>r_req := 1\<rparr>"
    by (simp add: one_recv_def store_comm_def shared_comm_def zero_comm_def NUM_REQUESTS_def
        NCCL_NET_MAX_REQUESTS_def)
  have "load_req (1, 0) one_recv = Ret (rs ! 0)" using c l by simp
  moreover have "used (rs ! 0) \<noteq> 0" and m: "r_mq (rs ! 0) = 1"
    unfolding r by (simp_all add: new_req_def shared_comm_def)
  moreover have "mq_progress_loop sim_platform (r_mq (rs ! 0)) one_recv = Some (Ret (0, one_ended))"
    unfolding m by (rule one_recv_loop)
  moreover have "req_view one_ended (1, 0) = Some (Finished ReqRecv 64)"
    using c l r by (simp add: one_ended_def complete_status_def finish_req_def new_req_def abs_req_def)
  ultimately show ?thesis using psm2_nccl_test_null_size [OF sim_consts_ok] by blast
qed

end
