(* ===== verification/Plugin_Vtables.thy ===== *)
theory Plugin_Vtables
  imports Data_Props Device_Props
begin

text \<open>
  The tables of function pointers through which NCCL calls the plugin, one per version of
  its interface (\<open>psm2_nccl_net.c\<close>, with the structures of \<open>net_v2.h\<close> to
  \<open>net_v8.h\<close>), and what the tables report of a device. That the plugin is the same
  through all of them is shown in \<open>Version_Runs\<close>.
\<close>

section \<open>The structures\<close>

type_synonym ('a, 'w) call = "'w plugin \<Rightarrow> (ncclResult \<times> 'a \<times> 'w plugin) outcome"
type_synonym ('a, 'b, 'w) call2 = "'w plugin \<Rightarrow> (ncclResult \<times> 'a \<times> 'b \<times> 'w plugin) outcome"
type_synonym 'w call0 = "'w plugin \<Rightarrow> (ncclResult \<times> 'w plugin) outcome"

text \<open>The members that every version has with the same type.\<close>

record 'w ncclNet =
  n_name :: string
  n_init :: "addr \<Rightarrow> 'w plugin \<Rightarrow> ncclResult \<times> 'w plugin"
  n_devices :: "'w plugin \<Rightarrow> ncclResult \<times> int option \<times> 'w plugin"
  n_listen :: "int \<Rightarrow> (addr, psm2comm_handle option, 'w) call2"
  n_deregMr :: "addr \<Rightarrow> addr \<Rightarrow> 'w call0"
  n_test :: "req_ptr \<Rightarrow> bool \<Rightarrow> 'w plugin \<Rightarrow> (ncclResult \<times> int \<times> int option \<times> 'w plugin) outcome option"
  n_closeSend :: "addr \<Rightarrow> 'w call0"
  n_closeRecv :: "addr \<Rightarrow> 'w call0"
  n_closeListen :: "addr \<Rightarrow> 'w call0"

record 'w ncclNet_v2 = "'w ncclNet" +
  n2_pciPath :: "int \<Rightarrow> (addr, 'w) call"
  n2_ptrSupport :: "int \<Rightarrow> 'w plugin \<Rightarrow> ncclResult \<times> 32 word"
  n2_connect :: "int \<Rightarrow> psm2comm_handle \<Rightarrow> (addr, 'w) call"
  n2_accept :: "addr \<Rightarrow> (addr, 'w) call"
  n2_regMr :: "addr \<Rightarrow> addr \<Rightarrow> int \<Rightarrow> int \<Rightarrow> bool \<Rightarrow> (addr option, 'w) call"
  n2_isend :: "addr \<Rightarrow> addr \<Rightarrow> int \<Rightarrow> addr \<Rightarrow> (req_ptr option, 'w) call"
  n2_irecv :: "addr \<Rightarrow> addr \<Rightarrow> int \<Rightarrow> addr \<Rightarrow> (req_ptr option, 'w) call"
  n2_flush :: "addr \<Rightarrow> addr \<Rightarrow> int \<Rightarrow> addr \<Rightarrow> 'w call0"

record 'w ncclNet_v3 = "'w ncclNet" +
  n3_getProperties :: "int \<Rightarrow> ncclNetProperties_v4 \<Rightarrow> (ncclNetProperties_v4, 'w) call"
  n3_connect :: "int \<Rightarrow> psm2comm_handle \<Rightarrow> (addr, 'w) call"
  n3_accept :: "addr \<Rightarrow> (addr, 'w) call"
  n3_regMr :: "addr \<Rightarrow> addr \<Rightarrow> int \<Rightarrow> int \<Rightarrow> bool \<Rightarrow> (addr option, 'w) call"
  n3_isend :: "addr \<Rightarrow> addr \<Rightarrow> int \<Rightarrow> addr \<Rightarrow> (req_ptr option, 'w) call"
  n3_irecv :: "addr \<Rightarrow> addr \<Rightarrow> int \<Rightarrow> addr \<Rightarrow> (req_ptr option, 'w) call"
  n3_flush :: "addr \<Rightarrow> addr \<Rightarrow> int \<Rightarrow> addr \<Rightarrow> 'w call0"

record 'w ncclNet_v4 = "'w ncclNet" +
  n4_getProperties :: "int \<Rightarrow> ncclNetProperties_v4 \<Rightarrow> (ncclNetProperties_v4, 'w) call"
  n4_connect :: "int \<Rightarrow> psm2comm_handle \<Rightarrow> (addr, 'w) call"
  n4_accept :: "addr \<Rightarrow> (addr, 'w) call"
  n4_regMr :: "addr \<Rightarrow> addr \<Rightarrow> int \<Rightarrow> int \<Rightarrow> bool \<Rightarrow> (addr option, 'w) call"
  n4_isend :: "addr \<Rightarrow> addr \<Rightarrow> int \<Rightarrow> addr \<Rightarrow> (req_ptr option, 'w) call"
  n4_irecv :: "addr \<Rightarrow> addr \<Rightarrow> int \<Rightarrow> addr \<Rightarrow> (req_ptr option, 'w) call"
  n4_iflush :: "addr \<Rightarrow> addr \<Rightarrow> int \<Rightarrow> addr \<Rightarrow> bool \<Rightarrow> (req_ptr option option, 'w) call"

text \<open>From version 5 on: sends have a tag, receives and flushes come in groups.\<close>

record 'w ncclNet_v5 = "'w ncclNet" +
  n5_getProperties :: "int \<Rightarrow> ncclNetProperties_v6 \<Rightarrow> (ncclNetProperties_v6, 'w) call"
  n5_connect :: "int \<Rightarrow> psm2comm_handle \<Rightarrow> (addr, 'w) call"
  n5_accept :: "addr \<Rightarrow> (addr, 'w) call"
  n5_regMr :: "addr \<Rightarrow> addr \<Rightarrow> int \<Rightarrow> int \<Rightarrow> bool \<Rightarrow> (addr option, 'w) call"
  n5_isend :: "addr \<Rightarrow> addr \<Rightarrow> int \<Rightarrow> int \<Rightarrow> addr \<Rightarrow> (req_ptr option, 'w) call"
  n5_irecv :: "addr \<Rightarrow> int \<Rightarrow> addr list \<Rightarrow> int list \<Rightarrow> int list \<Rightarrow> addr list \<Rightarrow> (req_ptr option, 'w) call"
  n5_iflush :: "addr \<Rightarrow> int \<Rightarrow> addr list \<Rightarrow> int list \<Rightarrow> addr list \<Rightarrow> bool \<Rightarrow> (req_ptr option option, 'w) call"

record 'w ncclNet_v6 = "'w ncclNet" +
  n6_getProperties :: "int \<Rightarrow> ncclNetProperties_v6 \<Rightarrow> (ncclNetProperties_v6, 'w) call"
  n6_connect :: "int \<Rightarrow> psm2comm_handle \<Rightarrow> (addr, 'w) call"
  n6_accept :: "addr \<Rightarrow> (addr, 'w) call"
  n6_regMr :: "addr \<Rightarrow> addr \<Rightarrow> int \<Rightarrow> int \<Rightarrow> bool \<Rightarrow> (addr option, 'w) call"
  n6_regMrDmaBuf :: "addr \<Rightarrow> addr \<Rightarrow> 64 word \<Rightarrow> int \<Rightarrow> 64 word \<Rightarrow> int \<Rightarrow> bool \<Rightarrow> (addr option, 'w) call"
  n6_isend :: "addr \<Rightarrow> addr \<Rightarrow> int \<Rightarrow> int \<Rightarrow> addr \<Rightarrow> (req_ptr option, 'w) call"
  n6_irecv :: "addr \<Rightarrow> int \<Rightarrow> addr list \<Rightarrow> int list \<Rightarrow> int list \<Rightarrow> addr list \<Rightarrow> (req_ptr option, 'w) call"
  n6_iflush :: "addr \<Rightarrow> int \<Rightarrow> addr list \<Rightarrow> int list \<Rightarrow> addr list \<Rightarrow> bool \<Rightarrow> (req_ptr option option, 'w) call"

text \<open>
  Versions 7 and 8: connect and accept have a third output, and there are two calls for
  device offload, which the plugin leaves NULL (\<open>None\<close>).
\<close>

record 'w ncclNet_v7 = "'w ncclNet" +
  n7_getProperties :: "int \<Rightarrow> ncclNetProperties_v7 \<Rightarrow> (ncclNetProperties_v7, 'w) call"
  n7_connect :: "int \<Rightarrow> psm2comm_handle \<Rightarrow> (addr, addr, 'w) call2"
  n7_accept :: "addr \<Rightarrow> (addr, addr, 'w) call2"
  n7_regMr :: "addr \<Rightarrow> addr \<Rightarrow> int \<Rightarrow> int \<Rightarrow> bool \<Rightarrow> (addr option, 'w) call"
  n7_regMrDmaBuf :: "addr \<Rightarrow> addr \<Rightarrow> 64 word \<Rightarrow> int \<Rightarrow> 64 word \<Rightarrow> int \<Rightarrow> bool \<Rightarrow> (addr option, 'w) call"
  n7_isend :: "addr \<Rightarrow> addr \<Rightarrow> int \<Rightarrow> int \<Rightarrow> addr \<Rightarrow> (req_ptr option, 'w) call"
  n7_irecv :: "addr \<Rightarrow> int \<Rightarrow> addr list \<Rightarrow> int list \<Rightarrow> int list \<Rightarrow> addr list \<Rightarrow> (req_ptr option, 'w) call"
  n7_iflush :: "addr \<Rightarrow> int \<Rightarrow> addr list \<Rightarrow> int list \<Rightarrow> addr list \<Rightarrow> bool \<Rightarrow> (req_ptr option option, 'w) call"
  n7_getDeviceMr :: "(addr \<Rightarrow> addr \<Rightarrow> (addr, 'w) call) option"
  n7_irecvConsumed :: "(addr \<Rightarrow> int \<Rightarrow> req_ptr \<Rightarrow> 'w call0) option"

record 'w ncclNet_v8 = "'w ncclNet" +
  n8_getProperties :: "int \<Rightarrow> ncclNetProperties_v8 \<Rightarrow> (ncclNetProperties_v8, 'w) call"
  n8_connect :: "int \<Rightarrow> psm2comm_handle \<Rightarrow> (addr, addr, 'w) call2"
  n8_accept :: "addr \<Rightarrow> (addr, addr, 'w) call2"
  n8_regMr :: "addr \<Rightarrow> addr \<Rightarrow> 64 word \<Rightarrow> int \<Rightarrow> bool \<Rightarrow> (addr option, 'w) call"
  n8_regMrDmaBuf :: "addr \<Rightarrow> addr \<Rightarrow> 64 word \<Rightarrow> int \<Rightarrow> 64 word \<Rightarrow> int \<Rightarrow> bool \<Rightarrow> (addr option, 'w) call"
  n8_isend :: "addr \<Rightarrow> addr \<Rightarrow> int \<Rightarrow> int \<Rightarrow> addr \<Rightarrow> (req_ptr option, 'w) call"
  n8_irecv :: "addr \<Rightarrow> int \<Rightarrow> addr list \<Rightarrow> int list \<Rightarrow> int list \<Rightarrow> addr list \<Rightarrow> (req_ptr option, 'w) call"
  n8_iflush :: "addr \<Rightarrow> int \<Rightarrow> addr list \<Rightarrow> int list \<Rightarrow> addr list \<Rightarrow> bool \<Rightarrow> (req_ptr option option, 'w) call"
  n8_getDeviceMr :: "(addr \<Rightarrow> addr \<Rightarrow> (addr, 'w) call) option"
  n8_irecvConsumed :: "(addr \<Rightarrow> int \<Rightarrow> req_ptr \<Rightarrow> 'w call0) option"

section \<open>The tables\<close>

text \<open>
  The functions that call the outside world take the platform as their first argument;
  \<open>stk\<close> is what the structure on the stack of the older getProperties functions holds
  when they start.
\<close>

definition PSM2_NCCL_PLUGIN_NAME :: string where
  "PSM2_NCCL_PLUGIN_NAME = ''psm2-nccl''"

definition ncclNetPlugin_v2 :: "'w platform \<Rightarrow> 'w ncclNet_v2" where
  "ncclNetPlugin_v2 P = \<lparr>
     n_name = PSM2_NCCL_PLUGIN_NAME,
     n_init = psm2_nccl_init P,
     n_devices = psm2_nccl_devices P,
     n_listen = psm2_nccl_listen P,
     n_deregMr = psm2_nccl_deregMr,
     n_test = psm2_nccl_test P,
     n_closeSend = psm2_nccl_closeSend P,
     n_closeRecv = psm2_nccl_closeRecv P,
     n_closeListen = psm2_nccl_closeListen,
     n2_pciPath = psm2_nccl_pciPath_v2 P,
     n2_ptrSupport = psm2_nccl_ptrSupport_v2,
     n2_connect = psm2_nccl_connect P,
     n2_accept = psm2_nccl_accept,
     n2_regMr = psm2_nccl_regMr,
     n2_isend = psm2_nccl_isend_v4 P,
     n2_irecv = psm2_nccl_irecv_v4 P,
     n2_flush = psm2_nccl_flush_v3\<rparr>"

definition ncclNetPlugin_v3 :: "'w platform \<Rightarrow> psm2_ncclNetProperties \<Rightarrow> 'w ncclNet_v3" where
  "ncclNetPlugin_v3 P stk = \<lparr>
     n_name = PSM2_NCCL_PLUGIN_NAME,
     n_init = psm2_nccl_init P,
     n_devices = psm2_nccl_devices P,
     n_listen = psm2_nccl_listen P,
     n_deregMr = psm2_nccl_deregMr,
     n_test = psm2_nccl_test P,
     n_closeSend = psm2_nccl_closeSend P,
     n_closeRecv = psm2_nccl_closeRecv P,
     n_closeListen = psm2_nccl_closeListen,
     n3_getProperties = psm2_nccl_getProperties_v4 P stk,
     n3_connect = psm2_nccl_connect P,
     n3_accept = psm2_nccl_accept,
     n3_regMr = psm2_nccl_regMr,
     n3_isend = psm2_nccl_isend_v4 P,
     n3_irecv = psm2_nccl_irecv_v4 P,
     n3_flush = psm2_nccl_flush_v3\<rparr>"

definition ncclNetPlugin_v4 :: "'w platform \<Rightarrow> psm2_ncclNetProperties \<Rightarrow> 'w ncclNet_v4" where
  "ncclNetPlugin_v4 P stk = \<lparr>
     n_name = PSM2_NCCL_PLUGIN_NAME,
     n_init = psm2_nccl_init P,
     n_devices = psm2_nccl_devices P,
     n_listen = psm2_nccl_listen P,
     n_deregMr = psm2_nccl_deregMr,
     n_test = psm2_nccl_test P,
     n_closeSend = psm2_nccl_closeSend P,
     n_closeRecv = psm2_nccl_closeRecv P,
     n_closeListen = psm2_nccl_closeListen,
     n4_getProperties = psm2_nccl_getProperties_v4 P stk,
     n4_connect = psm2_nccl_connect P,
     n4_accept = psm2_nccl_accept,
     n4_regMr = psm2_nccl_regMr,
     n4_isend = psm2_nccl_isend_v4 P,
     n4_irecv = psm2_nccl_irecv_v4 P,
     n4_iflush = psm2_nccl_iflush_v4\<rparr>"

definition ncclNetPlugin_v5 :: "'w platform \<Rightarrow> psm2_ncclNetProperties \<Rightarrow> 'w ncclNet_v5" where
  "ncclNetPlugin_v5 P stk = \<lparr>
     n_name = PSM2_NCCL_PLUGIN_NAME,
     n_init = psm2_nccl_init P,
     n_devices = psm2_nccl_devices P,
     n_listen = psm2_nccl_listen P,
     n_deregMr = psm2_nccl_deregMr,
     n_test = psm2_nccl_test P,
     n_closeSend = psm2_nccl_closeSend P,
     n_closeRecv = psm2_nccl_closeRecv P,
     n_closeListen = psm2_nccl_closeListen,
     n5_getProperties = psm2_nccl_getProperties_v6 P stk,
     n5_connect = psm2_nccl_connect P,
     n5_accept = psm2_nccl_accept,
     n5_regMr = psm2_nccl_regMr,
     n5_isend = psm2_nccl_isend P,
     n5_irecv = psm2_nccl_irecv P,
     n5_iflush = psm2_nccl_iflush P\<rparr>"

definition ncclNetPlugin_v6 :: "'w platform \<Rightarrow> psm2_ncclNetProperties \<Rightarrow> 'w ncclNet_v6" where
  "ncclNetPlugin_v6 P stk = \<lparr>
     n_name = PSM2_NCCL_PLUGIN_NAME,
     n_init = psm2_nccl_init P,
     n_devices = psm2_nccl_devices P,
     n_listen = psm2_nccl_listen P,
     n_deregMr = psm2_nccl_deregMr,
     n_test = psm2_nccl_test P,
     n_closeSend = psm2_nccl_closeSend P,
     n_closeRecv = psm2_nccl_closeRecv P,
     n_closeListen = psm2_nccl_closeListen,
     n6_getProperties = psm2_nccl_getProperties_v6 P stk,
     n6_connect = psm2_nccl_connect P,
     n6_accept = psm2_nccl_accept,
     n6_regMr = psm2_nccl_regMr,
     n6_regMrDmaBuf = psm2_nccl_regMrDmaBuf,
     n6_isend = psm2_nccl_isend P,
     n6_irecv = psm2_nccl_irecv P,
     n6_iflush = psm2_nccl_iflush P\<rparr>"

definition ncclNetPlugin_v7 :: "'w platform \<Rightarrow> psm2_ncclNetProperties \<Rightarrow> 'w ncclNet_v7" where
  "ncclNetPlugin_v7 P stk = \<lparr>
     n_name = PSM2_NCCL_PLUGIN_NAME,
     n_init = psm2_nccl_init P,
     n_devices = psm2_nccl_devices P,
     n_listen = psm2_nccl_listen P,
     n_deregMr = psm2_nccl_deregMr,
     n_test = psm2_nccl_test P,
     n_closeSend = psm2_nccl_closeSend P,
     n_closeRecv = psm2_nccl_closeRecv P,
     n_closeListen = psm2_nccl_closeListen,
     n7_getProperties = psm2_nccl_getProperties_v7 P stk,
     n7_connect = psm2_nccl_connect_v8 P,
     n7_accept = psm2_nccl_accept_v8,
     n7_regMr = psm2_nccl_regMr,
     n7_regMrDmaBuf = psm2_nccl_regMrDmaBuf,
     n7_isend = psm2_nccl_isend P,
     n7_irecv = psm2_nccl_irecv P,
     n7_iflush = psm2_nccl_iflush P,
     n7_getDeviceMr = None,
     n7_irecvConsumed = None\<rparr>"

definition ncclNetPlugin_v8 :: "'w platform \<Rightarrow> 'w ncclNet_v8" where
  "ncclNetPlugin_v8 P = \<lparr>
     n_name = PSM2_NCCL_PLUGIN_NAME,
     n_init = psm2_nccl_init P,
     n_devices = psm2_nccl_devices P,
     n_listen = psm2_nccl_listen P,
     n_deregMr = psm2_nccl_deregMr,
     n_test = psm2_nccl_test P,
     n_closeSend = psm2_nccl_closeSend P,
     n_closeRecv = psm2_nccl_closeRecv P,
     n_closeListen = psm2_nccl_closeListen,
     n8_getProperties = psm2_nccl_getProperties P,
     n8_connect = psm2_nccl_connect_v8 P,
     n8_accept = psm2_nccl_accept_v8,
     n8_regMr = psm2_nccl_regMr_v8,
     n8_regMrDmaBuf = psm2_nccl_regMrDmaBuf,
     n8_isend = psm2_nccl_isend P,
     n8_irecv = psm2_nccl_irecv P,
     n8_iflush = psm2_nccl_iflush P,
     n8_getDeviceMr = None,
     n8_irecvConsumed = None\<rparr>"

section \<open>What the tables report about a device\<close>

text \<open>
  C26: what a query for the properties of a device reports, through the table of each version
  from 3 on, field by field, whatever the structures held before. It succeeds exactly
  for a device from 0 to 3 that answers every question, with memory for two strings. Then the
  strings hold the name of the device and its resolved path, terminated; the GUID is that of
  the attribute; GPU memory is supported exactly if GPUDirect is in use; the communicators are as many as the
  free contexts; there is one port of 100 Gb/s, one receive per call, no global
  registration and no offload. Each version has the fields that its structure has.
\<close>

theorem psm2_nccl_getProperties_values:
  assumes "heap_ok s" and "config_ok s" and "realpath_contract P"
  shows "case (if 0 \<le> dev \<and> dev \<le> 3 \<and> alloc_ok P (allocs s) \<and> alloc_ok P (Suc (allocs s))
        then device_attrs P dev (world s) else None) of
      None \<Rightarrow>
        (\<forall>p s'. n8_getProperties (ncclNetPlugin_v8 P) dev p8 s \<noteq> Ret (ncclSuccess, p, s')) \<and>
        (\<forall>p s'. n7_getProperties (ncclNetPlugin_v7 P stk) dev p7 s \<noteq> Ret (ncclSuccess, p, s')) \<and>
        (\<forall>p s'. n6_getProperties (ncclNetPlugin_v6 P stk) dev p6 s \<noteq> Ret (ncclSuccess, p, s')) \<and>
        (\<forall>p s'. n5_getProperties (ncclNetPlugin_v5 P stk) dev p6 s \<noteq> Ret (ncclSuccess, p, s')) \<and>
        (\<forall>p s'. n4_getProperties (ncclNetPlugin_v4 P stk) dev p4 s \<noteq> Ret (ncclSuccess, p, s')) \<and>
        (\<forall>p s'. n3_getProperties (ncclNetPlugin_v3 P stk) dev p4 s \<noteq> Ret (ncclSuccess, p, s'))
    | Some (name, path, g, ctxts, w) \<Rightarrow>
        (let a = Suc (allocs s); b = Suc a; n = u32_to_int ctxts;
             ptrs = (if use_gpudirect s = 1 then or NCCL_PTR_HOST NCCL_PTR_CUDA else NCCL_PTR_HOST);
             s' = s\<lparr>world := w, allocs := b, strs := (strs s)
               (a \<mapsto> \<lparr>block_size = length name + 6, block_bytes = name @ replicate 5 NUL\<rparr>,
                b \<mapsto> \<lparr>block_size = PATH_MAX, block_bytes = path @ [NUL]\<rparr>)\<rparr>;
             q6 = \<lparr>v6_name = a, v6_pciPath = b, v6_guid = g, v6_ptrSupport = ptrs, v6_speed = 100000,
               v6_port = 1, v6_latency = 0, v6_maxComms = n, v6_maxRecvs = 1\<rparr>;
             q4 = \<lparr>v4_name = a, v4_pciPath = b, v4_guid = g, v4_ptrSupport = ptrs, v4_speed = 100000,
               v4_port = 1, v4_maxComms = n\<rparr>
         in NUL \<notin> set name \<and>
          n8_getProperties (ncclNetPlugin_v8 P) dev p8 s = Ret (ncclSuccess,
            \<lparr>v8_name = a, v8_pciPath = b, v8_guid = g, v8_ptrSupport = ptrs, v8_regIsGlobal = 0,
              v8_speed = 100000, v8_port = 1, v8_latency = 0, v8_maxComms = n, v8_maxRecvs = 1,
              v8_netDeviceType = NCCL_NET_DEVICE_HOST, v8_netDeviceVersion = 0\<rparr>, s') \<and>
          n7_getProperties (ncclNetPlugin_v7 P stk) dev p7 s = Ret (ncclSuccess,
            \<lparr>v7_name = a, v7_pciPath = b, v7_guid = g, v7_ptrSupport = ptrs, v7_speed = 100000,
              v7_port = 1, v7_latency = 0, v7_maxComms = n, v7_maxRecvs = 1,
              v7_netDeviceType = NCCL_NET_DEVICE_HOST, v7_netDeviceVersion = 0\<rparr>, s') \<and>
          n6_getProperties (ncclNetPlugin_v6 P stk) dev p6 s = Ret (ncclSuccess, q6, s') \<and>
          n5_getProperties (ncclNetPlugin_v5 P stk) dev p6 s = Ret (ncclSuccess, q6, s') \<and>
          n4_getProperties (ncclNetPlugin_v4 P stk) dev p4 s = Ret (ncclSuccess, q4, s') \<and>
          n3_getProperties (ncclNetPlugin_v3 P stk) dev p4 s = Ret (ncclSuccess, q4, s'))"
proof -
  note v8 = getProperties_values [OF assms, unfolded MAX_DEV_def, of dev]
  note tables = ncclNetPlugin_v8_def ncclNetPlugin_v7_def ncclNetPlugin_v6_def ncclNetPlugin_v5_def
    ncclNetPlugin_v4_def ncclNetPlugin_v3_def psm2_nccl_getProperties_v7_def
    psm2_nccl_getProperties_v6_def psm2_nccl_getProperties_v4_def
  show ?thesis
  proof (cases "if 0 \<le> dev \<and> dev \<le> 3 \<and> alloc_ok P (allocs s) \<and> alloc_ok P (Suc (allocs s))
      then device_attrs P dev (world s) else None")
    case None
    then have no: "psm2_nccl_getProperties P dev q s \<noteq> Ret (ncclSuccess, p, s')" for q p s'
      using v8 [of q] by simp
    show ?thesis
      unfolding None by (simp add: tables no obind_eq_Ret split: if_splits)
  next
    case (Some x)
    obtain name path g ctxts w where x: "x = (name, path, g, ctxts, w)" by (metis prod_cases5)
    have "NUL \<notin> set name"
      using Some device_attrs_name unfolding x by (simp split: if_splits)
    then show ?thesis
      using v8 [of p8] v8 [of stk] unfolding Some x
      by (simp add: tables Let_def v7_of_v8_def v6_of_v8_def v4_of_v8_def name_block_def path_block_def)
  qed
qed

theorem psm2_nccl_getProperties_values_witness:
  "\<exists>p s'. n7_getProperties (ncclNetPlugin_v7 const_dev null_props) 0 (v7_of_v8 null_props) (initial_plugin dev_sim) =
       Ret (ncclSuccess, p, s') \<and> v7_guid p = 0x1175010101F2B4 \<and> v7_maxComms p = 1 \<and>
     v7_ptrSupport p = or NCCL_PTR_HOST NCCL_PTR_CUDA \<and>
     strs s' (v7_name p) = Some \<lparr>block_size = 12, block_bytes = ''hfi1_0'' @ replicate 5 NUL\<rparr> \<and>
     strs s' (v7_pciPath p) = Some \<lparr>block_size = PATH_MAX, block_bytes = ''/sys/devices/pci0'' @ [NUL]\<rparr>"
proof -
  have "config_ok (initial_plugin dev_sim)"
    by (simp add: config_ok_def log_ok_def)
  moreover have "realpath_contract const_dev"
    using sim_realpath_contract by (simp add: realpath_contract_def const_dev_def)
  ultimately show ?thesis
    using psm2_nccl_getProperties_values [OF heap_ok_initial, of dev_sim const_dev 0] const_dev_attrs
    by (simp add: Let_def u32_to_int_def)
qed

text \<open>
  C29: the two queries of version 2, which has no structure for the properties. The path is reported
  exactly if the link of the device resolves and there is memory for it, in a new block, and
  otherwise the call fails with NULL and nothing allocated; GPU memory is
  supported exactly if GPUDirect is in use, and DMA-BUF never.
\<close>

theorem ncclNet_v2_queries:
  assumes "heap_ok s" and "config_ok s" and "realpath_contract P"
    and "- (2 ^ 31) \<le> dev" and "dev < 2 ^ 31"
  shows "(case (if alloc_ok P (allocs s) then device_path P dev (world s) else None) of
      None \<Rightarrow> returns (n2_pciPath (ncclNetPlugin_v2 P) dev s)
        (\<lambda>(r, q, s'). r = ncclInternalError \<and> q = 0 \<and> strs s' = strs s)
    | Some (path, w) \<Rightarrow> n2_pciPath (ncclNetPlugin_v2 P) dev s = Ret (ncclSuccess, Suc (allocs s),
        s\<lparr>world := w, allocs := Suc (allocs s), strs := (strs s)
          (Suc (allocs s) \<mapsto> \<lparr>block_size = PATH_MAX, block_bytes = path @ [NUL]\<rparr>)\<rparr>)) \<and>
    n2_ptrSupport (ncclNetPlugin_v2 P) dev s =
      (ncclSuccess, if use_gpudirect s = 1 then or NCCL_PTR_HOST NCCL_PTR_CUDA else NCCL_PTR_HOST)"
proof -
  have t: "n2_pciPath (ncclNetPlugin_v2 P) = psm2_nccl_pciPath_v2 P"
    "n2_ptrSupport (ncclNetPlugin_v2 P) = psm2_nccl_ptrSupport_v2"
    by (simp_all add: ncclNetPlugin_v2_def)
  have b: "psm2_nccl_ptrSupport_v2 dev s =
      (ncclSuccess, if use_gpudirect s = 1 then or NCCL_PTR_HOST NCCL_PTR_CUDA else NCCL_PTR_HOST)"
    using config_okD [OF assms(2)] ptrSupport_bits [of dev s]
    by (auto simp: psm2_nccl_ptrSupport_v2_def Let_def is_bit_def)
  show ?thesis
    unfolding t b
    using pciPath_v2_values [OF assms(1,3-5)] pciPath_v2_result [OF assms(1,3), of dev]
    by (auto simp: path_block_def returns_iff reader_result_def split: option.splits if_splits)
qed

lemma ncclNet_v2_queries_witness:
  "\<exists>s'. n2_pciPath (ncclNetPlugin_v2 sim_platform) 0 (initial_plugin dev_sim) = Ret (ncclSuccess, 1, s') \<and>
     strs s' 1 = Some \<lparr>block_size = PATH_MAX, block_bytes = ''/sys/devices/pci0'' @ [NUL]\<rparr>"
proof -
  have "config_ok (initial_plugin dev_sim)" by (simp add: config_ok_def log_ok_def)
  moreover have "device_path sim_platform 0 dev_sim = Some (''/sys/devices/pci0'', dev_sim)"
  proof -
    have "hfi_sysclass_path 0 @ ''/device'' = ''/sys/class/infiniband/hfi1_0/device''"
      by (simp add: hfi_sysclass_path_def show_int_0)
    then show ?thesis using dev_sim_link unfolding device_path_def by (simp add: PATH_MAX_def)
  qed
  ultimately show ?thesis
    using ncclNet_v2_queries [OF heap_ok_initial _ sim_realpath_contract, of dev_sim 0]
    by (simp add: initial_plugin_def)
qed

section \<open>The traffic through version 8\<close>

text \<open>
  The calls that carry the traffic, as NCCL makes them through the table of version 8, with one buffer per
  receive, no tag and no memory handle. \<open>Client\<close> states its contract over them;
  all members of all tables are the subject of \<open>Version_Runs\<close>.
\<close>

record 'w net_view =
  v_connect :: "int \<Rightarrow> psm2comm_handle \<Rightarrow> (addr, 'w) call"
  v_accept :: "addr \<Rightarrow> (addr, 'w) call"
  v_isend :: "addr \<Rightarrow> addr \<Rightarrow> int \<Rightarrow> (req_ptr option, 'w) call"
  v_irecv :: "addr \<Rightarrow> addr \<Rightarrow> int \<Rightarrow> (req_ptr option, 'w) call"
  v_test :: "req_ptr \<Rightarrow> bool \<Rightarrow> 'w plugin \<Rightarrow> (ncclResult \<times> int \<times> int option \<times> 'w plugin) outcome option"
  v_closeSend :: "addr \<Rightarrow> 'w call0"
  v_closeRecv :: "addr \<Rightarrow> 'w call0"

definition first_out ::
  "(ncclResult \<times> 'a \<times> 'b \<times> 'w plugin) outcome \<Rightarrow> (ncclResult \<times> 'a \<times> 'w plugin) outcome" where
  "first_out m = obind m (\<lambda>(r, x, _, s). Ret (r, x, s))"

definition view_v8 :: "'w ncclNet_v8 \<Rightarrow> 'w net_view" where
  "view_v8 t = \<lparr>v_connect = (\<lambda>dev h s. first_out (n8_connect t dev h s)),
     v_accept = (\<lambda>c s. first_out (n8_accept t c s)),
     v_isend = (\<lambda>c d sz. n8_isend t c d sz 0 0),
     v_irecv = (\<lambda>c d sz. n8_irecv t c 1 [d] [sz] [0] [0]),
     v_test = n_test t, v_closeSend = n_closeSend t, v_closeRecv = n_closeRecv t\<rparr>"

lemma irecv_single: "psm2_nccl_irecv P c 1 [d] [sz] [t] [mh] = psm2_nccl_irecv_v4 P c d sz mh"
  by (rule ext) (simp add: psm2_nccl_irecv_def NCCL_NET_PSM2_MAX_RECVS_def)

end
