(* ===== verification/Client.thy ===== *)
theory Client
  imports Plugin_Vtables
begin

text \<open>
  The data path as NCCL uses it: the contract that its proxy relies on is the locale
  \<open>nccl_data\<close>, and every exported table implements it. Requests are neither lost nor
  invented: what was handed out is outstanding until a test reports it done.
\<close>

section \<open>A run of data calls\<close>

text \<open>
  \<open>transfers n m s s'\<close>: some calls lead from \<open>s\<close> to \<open>s'\<close>; they handed out \<open>n\<close> requests,
  and \<open>m\<close> tests reported done. A client only tests requests that are outstanding.
\<close>

inductive transfers ::
  "('s \<Rightarrow> addr set) \<Rightarrow> ('s \<Rightarrow> req_ptr \<Rightarrow> req_state option)
    \<Rightarrow> (addr \<Rightarrow> addr \<Rightarrow> int \<Rightarrow> 's \<Rightarrow> (ncclResult \<times> req_ptr option \<times> 's) outcome)
    \<Rightarrow> (addr \<Rightarrow> addr \<Rightarrow> int \<Rightarrow> 's \<Rightarrow> (ncclResult \<times> req_ptr option \<times> 's) outcome)
    \<Rightarrow> (req_ptr \<Rightarrow> bool \<Rightarrow> 's \<Rightarrow> (ncclResult \<times> int \<times> int option \<times> 's) outcome option)
    \<Rightarrow> nat \<Rightarrow> nat \<Rightarrow> 's \<Rightarrow> 's \<Rightarrow> bool"
  for live status send recv tst where
  t_none: "transfers live status send recv tst 0 0 s s"
| t_send: "transfers live status send recv tst n m s s1 \<Longrightarrow> c \<in> live s1 \<Longrightarrow> 0 \<le> sz \<Longrightarrow> sz \<le> INT_MAX \<Longrightarrow>
    send c d sz s1 = Ret (r, ro, s2) \<Longrightarrow>
    transfers live status send recv tst (n + (if ro = None then 0 else 1)) m s s2"
| t_recv: "transfers live status send recv tst n m s s1 \<Longrightarrow> c \<in> live s1 \<Longrightarrow> 0 \<le> sz \<Longrightarrow> sz \<le> INT_MAX \<Longrightarrow>
    recv c d sz s1 = Ret (r, ro, s2) \<Longrightarrow>
    transfers live status send recv tst (n + (if ro = None then 0 else 1)) m s s2"
| t_test: "transfers live status send recv tst n m s s1 \<Longrightarrow> status s1 p = Some st \<Longrightarrow> st \<noteq> Free \<Longrightarrow>
    tst p True s1 = Some (Ret (r, d, sz, s2)) \<Longrightarrow>
    transfers live status send recv tst n (m + (if d = 0 then 0 else 1)) s s2"

inductive_cases transfers_noneE: "transfers live status send recv tst 0 0 s s'"

section \<open>The interface\<close>

locale nccl_data =
  fixes ok :: "'s \<Rightarrow> bool"
    and live :: "'s \<Rightarrow> addr set"
    and status :: "'s \<Rightarrow> req_ptr \<Rightarrow> req_state option"
    and send :: "addr \<Rightarrow> addr \<Rightarrow> int \<Rightarrow> 's \<Rightarrow> (ncclResult \<times> req_ptr option \<times> 's) outcome"
    and recv :: "addr \<Rightarrow> addr \<Rightarrow> int \<Rightarrow> 's \<Rightarrow> (ncclResult \<times> req_ptr option \<times> 's) outcome"
    and tst :: "req_ptr \<Rightarrow> bool \<Rightarrow> 's \<Rightarrow> (ncclResult \<times> int \<times> int option \<times> 's) outcome option"
  assumes status_finite: "ok s \<Longrightarrow> finite {p. status s p \<noteq> None}"
    and send_law: "ok s \<Longrightarrow> c \<in> live s \<Longrightarrow> 0 \<le> sz \<Longrightarrow> sz \<le> INT_MAX \<Longrightarrow>
      returns (send c d sz s) (\<lambda>(r, ro, s'). ok s' \<and> live s' = live s \<and>
        (case ro of None \<Rightarrow> status s' = status s
         | Some p \<Rightarrow> status s p = Some Free \<and> status s' = (status s)(p \<mapsto> InFlight ReqSend)))"
    and recv_law: "ok s \<Longrightarrow> c \<in> live s \<Longrightarrow> 0 \<le> sz \<Longrightarrow> sz \<le> INT_MAX \<Longrightarrow>
      returns (recv c d sz s) (\<lambda>(r, ro, s'). ok s' \<and> live s' = live s \<and>
        (case ro of None \<Rightarrow> status s' = status s
         | Some p \<Rightarrow> status s p = Some Free \<and> status s' = (status s)(p \<mapsto> InFlight ReqRecv)))"
    and test_law: "ok s \<Longrightarrow> status s p = Some st \<Longrightarrow> st \<noteq> Free \<Longrightarrow>
      \<exists>d sz s'. tst p True s = Some (Ret (ncclSuccess, d, sz, s')) \<and> ok s' \<and> live s' = live s \<and>
        (status s' p = Some Free \<longleftrightarrow> d \<noteq> 0) \<and>
        (\<forall>q. status s' q = None \<longleftrightarrow> status s q = None) \<and>
        (\<forall>q. q \<noteq> p \<longrightarrow> status s' q = Some Free \<longleftrightarrow> status s q = Some Free)"
begin

definition outstanding :: "'s \<Rightarrow> req_ptr set" where
  "outstanding s = {p. \<exists>st. status s p = Some st \<and> st \<noteq> Free}"

lemma outstanding_finite: "ok s \<Longrightarrow> finite (outstanding s)"
  by (rule finite_subset [OF _ status_finite [of s]]) (auto simp: outstanding_def)

lemma outstanding_post:
  assumes "ok s" and "status s p = Some Free" and "status s' = (status s)(p \<mapsto> InFlight t)"
  shows "card (outstanding s') = Suc (card (outstanding s))"
proof -
  have "outstanding s' = insert p (outstanding s)" and "p \<notin> outstanding s"
    using assms(2,3) by (auto simp: outstanding_def)
  then show ?thesis using outstanding_finite [OF assms(1)] by simp
qed

lemma outstanding_test:
  assumes "ok s" and "status s p = Some st" and "st \<noteq> Free"
    and "status s' p = Some Free \<longleftrightarrow> d \<noteq> 0"
    and "\<And>q. status s' q = None \<longleftrightarrow> status s q = None"
    and "\<And>q. q \<noteq> p \<Longrightarrow> status s' q = Some Free \<longleftrightarrow> status s q = Some Free"
  shows "card (outstanding s') + (if d = 0 then 0 else 1) = card (outstanding s)"
proof -
  have o: "q \<in> outstanding u \<longleftrightarrow> status u q \<noteq> None \<and> status u q \<noteq> Some Free" for q u
    by (auto simp: outstanding_def)
  have p: "p \<in> outstanding s" using assms(2,3) by (simp add: o)
  have "q \<in> outstanding s' \<longleftrightarrow> q \<in> outstanding s \<and> (d = 0 \<or> q \<noteq> p)" for q
  proof (cases "q = p")
    case True
    then show ?thesis using assms(4) assms(5) [of p] p by (simp add: o)
  next
    case False
    then show ?thesis using assms(5) [of q] assms(6) [of q] by (simp add: o)
  qed
  then have "outstanding s' = (if d = 0 then outstanding s else outstanding s - {p})"
    by (intro set_eqI) simp
  then show ?thesis
    using p outstanding_finite [OF assms(1)] card_Suc_Diff1 [of "outstanding s" p] by auto
qed

lemma outstanding_posted:
  assumes "ok s" and "case ro of None \<Rightarrow> status s' = status s
      | Some p \<Rightarrow> status s p = Some Free \<and> status s' = (status s)(p \<mapsto> InFlight t)"
  shows "card (outstanding s') = card (outstanding s) + (if ro = None then 0 else 1)"
proof (cases ro)
  case None
  then show ?thesis using assms(2) by (simp add: outstanding_def)
next
  case (Some p)
  then have "status s p = Some Free" and "status s' = (status s)(p \<mapsto> InFlight t)"
    using assms(2) by simp_all
  from outstanding_post [OF assms(1) this] show ?thesis using Some by simp
qed

lemma transfers_balance:
  assumes "transfers live status send recv tst n m s s'" and "ok s"
  shows "ok s' \<and> live s' = live s \<and> card (outstanding s') + m = card (outstanding s) + n"
  using assms
proof (induction rule: transfers.induct)
  case (t_none s)
  then show ?case by simp
next
  case (t_send n m s s1 c sz d r ro s2)
  then have s1: "ok s1" "live s1 = live s" "card (outstanding s1) + m = card (outstanding s) + n"
    by blast+
  from send_law [OF s1(1) t_send.hyps(2-4), of d] t_send.hyps(5)
  have "ok s2 \<and> live s2 = live s1" and "case ro of None \<Rightarrow> status s2 = status s1
      | Some p \<Rightarrow> status s1 p = Some Free \<and> status s2 = (status s1)(p \<mapsto> InFlight ReqSend)"
    by simp_all
  then show ?case using s1 outstanding_posted [OF s1(1)] by simp
next
  case (t_recv n m s s1 c sz d r ro s2)
  then have s1: "ok s1" "live s1 = live s" "card (outstanding s1) + m = card (outstanding s) + n"
    by blast+
  from recv_law [OF s1(1) t_recv.hyps(2-4), of d] t_recv.hyps(5)
  have "ok s2 \<and> live s2 = live s1" and "case ro of None \<Rightarrow> status s2 = status s1
      | Some p \<Rightarrow> status s1 p = Some Free \<and> status s2 = (status s1)(p \<mapsto> InFlight ReqRecv)"
    by simp_all
  then show ?case using s1 outstanding_posted [OF s1(1)] by simp
next
  case (t_test n m s s1 p st r d sz s2)
  then have s1: "ok s1" "live s1 = live s" "card (outstanding s1) + m = card (outstanding s) + n"
    by blast+
  from test_law [OF s1(1) t_test.hyps(2,3)] t_test.hyps(4)
  have t: "ok s2" "live s2 = live s1" "status s2 p = Some Free \<longleftrightarrow> d \<noteq> 0"
    "\<And>q. status s2 q = None \<longleftrightarrow> status s1 q = None"
    "\<And>q. q \<noteq> p \<Longrightarrow> status s2 q = Some Free \<longleftrightarrow> status s1 q = Some Free" by auto
  from outstanding_test [OF s1(1) t_test.hyps(2,3) t(3-5)] show ?case
    using s1 t(1,2) by auto
qed

lemma collected_all:
  assumes "transfers live status send recv tst n m s s'" and "ok s" and "outstanding s = {}"
  shows "m \<le> n" and "m = n \<longleftrightarrow> outstanding s' = {}"
proof -
  have "ok s'" and b: "card (outstanding s') + m = n"
    using transfers_balance [OF assms(1,2)] assms(3) by auto
  then show "m \<le> n" and "m = n \<longleftrightarrow> outstanding s' = {}"
    using outstanding_finite [of s'] by auto
qed

end

section \<open>The plugin implements it\<close>

lemma req_view_finite:
  assumes "plugin_ok P opened posted s"
  shows "finite {p. req_view s p \<noteq> None}"
proof (rule finite_subset)
  have "p \<in> dom (comms s) \<times> {..<NUM_REQUESTS}" if nn: "req_view s p \<noteq> None" for p
  proof -
    obtain c i where p: "p = (c, i)" by fastforce
    obtain cm where cm: "comms s c = Some cm"
      using nn by (cases "comms s c") (simp_all add: p)
    have i: "i < length (requests cm)" using nn cm by (simp add: p split: if_splits)
    have "length (requests cm) = NUM_REQUESTS"
      by (rule reqs_okD(1) [OF plugin_okD(4) [OF assms] cm])
    then show ?thesis using cm i by (auto simp: p)
  qed
  then show "{p. req_view s p \<noteq> None} \<subseteq> dom (comms s) \<times> {..<NUM_REQUESTS}" by blast
  have "finite (dom (comms s))"
    using plugin_okD(1) [OF assms] by (simp add: comms_ok_def ep_inv_def)
  then show "finite (dom (comms s) \<times> {..<NUM_REQUESTS})" by simp
qed

lemma spec_end_stable:
  "spec_end e v q = None \<longleftrightarrow> v q = None" "spec_end e v q = Some Free \<longleftrightarrow> v q = Some Free"
  by (auto simp: spec_end_def ends_kind)

lemma fold_spec_end_stable:
  "fold spec_end sts v q = None \<longleftrightarrow> v q = None"
  "fold spec_end sts v q = Some Free \<longleftrightarrow> v q = Some Free"
  by (induction sts arbitrary: v) (simp_all add: spec_end_stable)

lemma post_result_view:
  assumes "post_result posted c t l s r ro s'"
  shows "case ro of None \<Rightarrow> req_view s' = req_view s
    | Some p \<Rightarrow> req_view s p = Some Free \<and> req_view s' = (req_view s)(p \<mapsto> InFlight t)"
proof (cases ro)
  case None
  then have "if \<forall>i<NUM_REQUESTS. req_view s (c, i) \<noteq> Some Free
      then r = ncclSuccess \<and> s' = s
      else r = ncclInternalError \<and> s' = s\<lparr>world := world s'\<rparr> \<and>
        posted (world s') = posted (world s)" (is "if ?A then _ else _")
    using assms unfolding post_result_def by (simp only: option.case)
  then have "s' = s \<or> s' = s\<lparr>world := world s'\<rparr>"
    by (cases ?A) (simp_all only: if_True if_False simp_thms)
  then have "req_view s' = req_view s"
  proof
    assume "s' = s\<lparr>world := world s'\<rparr>"
    from arg_cong [OF this, of req_view] show ?thesis by (simp only: req_view_world)
  qed simp
  then show ?thesis using None by simp
next
  case (Some p)
  then show ?thesis using assms by (simp add: post_result_def del: req_view.simps)
qed

lemma view_v8_simps:
  "v_isend (view_v8 (ncclNetPlugin_v8 P)) = (\<lambda>c d sz. psm2_nccl_isend P c d sz 0 0)"
  "v_irecv (view_v8 (ncclNetPlugin_v8 P)) = (\<lambda>c d sz. psm2_nccl_irecv_v4 P c d sz 0)"
  "v_test (view_v8 (ncclNetPlugin_v8 P)) = psm2_nccl_test P"
  by (simp_all add: view_v8_def ncclNetPlugin_v8_def irecv_single)

lemma posted_returns:
  assumes "returns m (\<lambda>(r, ro, s'). plugin_ok P opened posted s' \<and> same_but_reqs s s' \<and>
    post_result posted c t l s r ro s')"
  shows "returns m (\<lambda>(r, ro, s'). plugin_ok P opened posted s' \<and> live_comms s' = live_comms s \<and>
    (case ro of None \<Rightarrow> req_view s' = req_view s
     | Some p \<Rightarrow> req_view s p = Some Free \<and> req_view s' = (req_view s)(p \<mapsto> InFlight t)))"
proof (rule returns3E [OF assms], elim conjE)
  fix r ro s'
  assume "m = Ret (r, ro, s')" and "plugin_ok P opened posted s'" and sb: "same_but_reqs s s'"
    and p: "post_result posted c t l s r ro s'"
  then show ?thesis
    using post_result_view [OF p] same_but_reqs_dom [OF sb]
    by (simp add: live_comms_def del: req_view.simps)
qed

lemma test_report_view:
  assumes "req_view s p = Some st" and "st \<noteq> Free" and "fold spec_end sts (req_view s) p = Some st1"
    and "spec_report st1 = ((d, sz), the (req_view s' p))" and "req_view s' p \<noteq> None"
    and "req_view s' = (fold spec_end sts (req_view s))(p := req_view s' p)"
  shows "req_view s' p = Some Free \<longleftrightarrow> d \<noteq> 0" and "req_view s' q = None \<longleftrightarrow> req_view s q = None"
    and "q \<noteq> p \<Longrightarrow> req_view s' q = Some Free \<longleftrightarrow> req_view s q = Some Free"
proof -
  have "fold spec_end sts (req_view s) p \<noteq> Some Free"
    using assms(1,2) unfolding fold_spec_end_stable(2) by simp
  then have "st1 \<noteq> Free" using assms(3) by auto
  then have "the (req_view s' p) = Free \<longleftrightarrow> d \<noteq> 0" using assms(4) by (cases st1) auto
  then show "req_view s' p = Some Free \<longleftrightarrow> d \<noteq> 0" using assms(5) by (metis option.exhaust_sel option.sel)
  have other: "req_view s' q = fold spec_end sts (req_view s) q" if "q \<noteq> p" for q
    using fun_upd_other [OF that] assms(6) by metis
  show "req_view s' q = None \<longleftrightarrow> req_view s q = None"
  proof (cases "q = p")
    case True
    then show ?thesis using assms(1,5) by (simp del: req_view.simps)
  next
    case False
    show ?thesis unfolding other [OF False] by (rule fold_spec_end_stable(1))
  qed
  show "q \<noteq> p \<Longrightarrow> req_view s' q = Some Free \<longleftrightarrow> req_view s q = Some Free"
    unfolding other by (rule fold_spec_end_stable(2))
qed

interpretation v8: nccl_data "plugin_ok P opened posted" live_comms req_view
  "v_isend (view_v8 (ncclNetPlugin_v8 P))" "v_irecv (view_v8 (ncclNetPlugin_v8 P))"
  "v_test (view_v8 (ncclNetPlugin_v8 P))" for P opened posted
  unfolding view_v8_simps
proof (unfold_locales, goal_cases)
  case (1 s)
  then show ?case by (rule req_view_finite)
next
  case (2 s c sz d)
  then obtain cm where cm: "comms s c = Some cm" by (auto simp: live_comms_def)
  from posted_returns [OF psm2_nccl_isend_returns [OF 2(1) cm 2(3,4)]] show ?case .
next
  case (3 s c sz d)
  then obtain cm where cm: "comms s c = Some cm" by (auto simp: live_comms_def)
  from posted_returns [OF psm2_nccl_irecv_v4_returns [OF 3(1) cm 3(3,4)]] show ?case .
next
  case (4 s p st)
  from psm2_nccl_test_returns [OF 4 disjI1 [OF TrueI]] obtain d sz s' s1 sts st1
    where e: "psm2_nccl_test P p True s = Some (Ret (ncclSuccess, d, sz, s'))"
      and ok: "plugin_ok P opened posted s'" and sb: "same_but_reqs s s'"
      and f: "fold spec_end sts (req_view s) p = Some st1"
      and r: "spec_report st1 = ((d, sz), the (req_view s' p))"
      and v: "req_view s' = (fold spec_end sts (req_view s))(p := req_view s' p)"
      and n: "req_view s' p \<noteq> None" by metis
  note t = test_report_view [OF 4(2,3) f r n v]
  show ?case
    using e ok t same_but_reqs_dom [OF sb] unfolding live_comms_def by blast
qed

section \<open>Properties\<close>

text \<open>The requests that the caller still has to test.\<close>

definition outstanding_reqs :: "'w plugin \<Rightarrow> req_ptr set" where
  "outstanding_reqs s = {p. \<exists>st. req_view s p = Some st \<and> st \<noteq> Free}"

text \<open>
  C12: no request is lost and none is reported twice. Over any sequence of sends, receives and
  tests through the exported table, the number of requests handed out is the number reported
  done plus the growth of the number outstanding; if nothing was outstanding at the start,
  everything has been collected exactly when nothing is outstanding at the end.
\<close>

theorem ncclNet_transfers_balance:
  assumes "plugin_ok P opened posted s"
    and "transfers live_comms req_view (v_isend (view_v8 (ncclNetPlugin_v8 P)))
      (v_irecv (view_v8 (ncclNetPlugin_v8 P))) (v_test (view_v8 (ncclNetPlugin_v8 P))) n m s s'"
  shows "plugin_ok P opened posted s' \<and>
    card (outstanding_reqs s') + m = card (outstanding_reqs s) + n \<and>
    (outstanding_reqs s = {} \<longrightarrow> m \<le> n \<and> (m = n \<longleftrightarrow> outstanding_reqs s' = {}))"
proof -
  have o: "outstanding_reqs u = v8.outstanding u" for u :: "'a plugin"
    by (simp add: outstanding_reqs_def v8.outstanding_def del: req_view.simps)
  show ?thesis
    unfolding o using v8.transfers_balance [OF assms(2,1)] v8.collected_all [OF assms(2,1)] by blast
qed

text \<open>A receive is posted and then found to be done.\<close>

lemma ncclNet_transfers_balance_witness:
  "\<exists>s'. transfers live_comms req_view (v_isend (view_v8 (ncclNetPlugin_v8 sim_platform)))
      (v_irecv (view_v8 (ncclNetPlugin_v8 sim_platform)))
      (v_test (view_v8 (ncclNetPlugin_v8 sim_platform))) 1 1 two_comms s' \<and>
    plugin_ok sim_platform (\<lambda>w. set (sim_eps w)) sim_view s' \<and>
    card (outstanding_reqs s') = card (outstanding_reqs two_comms)"
proof -
  let ?T = "transfers live_comms req_view (v_isend (view_v8 (ncclNetPlugin_v8 sim_platform)))
      (v_irecv (view_v8 (ncclNetPlugin_v8 sim_platform)))
      (v_test (view_v8 (ncclNetPlugin_v8 sim_platform)))"
  obtain s' where e: "psm2_nccl_test sim_platform (1, 0) True one_recv =
      Some (Ret (ncclSuccess, 1, Some 64, s'))" using one_recv_test by blast
  have "?T (0 + (if Some (1, 0) = (None :: req_ptr option) then 0 else 1)) 0 two_comms one_recv"
    by (rule t_recv [OF t_none])
      (use one_recv_posted in \<open>simp_all add: view_v8_simps live_comms_def INT_MAX_def\<close>)
  then have r: "?T 1 0 two_comms one_recv" by simp
  have "?T 1 (0 + (if (1::int) = 0 then 0 else 1)) two_comms s'"
    by (rule t_test [OF r one_recv_view]) (use e in \<open>simp_all add: view_v8_simps\<close>)
  then have t: "?T 1 1 two_comms s'" by simp
  then show ?thesis using ncclNet_transfers_balance [OF two_comms_plugin_ok t] by auto
qed

end
