(* ===== verification/Plugin_Spec.thy ===== *)
theory Plugin_Spec
  imports Client
begin

text \<open>
  What the plugin promises NCCL, without its data structures: the calls and their results, an
  abstract machine that says which results are possible and what they mean for the
  communicators and the requests, and runs of such machines. \<open>Plugin_System\<close> shows that the
  model of the code refines this machine.
\<close>

section \<open>The calls and their results\<close>

text \<open>The members of the exported table (version 8), with their arguments.\<close>

datatype api_call =
    Init addr
  | Devices
  | GetProperties int psm2_ncclNetProperties
  | Listen int
  | Connect int psm2comm_handle
  | Accept addr
  | RegMr addr addr "64 word" int bool
  | RegMrDmaBuf addr addr "64 word" int "64 word" int bool
  | DeregMr addr addr
  | ISend addr addr int int
  | IRecv addr int "addr list" "int list" "int list" "addr list"
  | IFlush addr int "addr list" "int list" "addr list" bool
  | Test req_ptr bool
  | CloseSend addr
  | CloseRecv addr
  | CloseListen addr

text \<open>What a call stores through its output parameters.\<close>

datatype api_out =
    NoOut
  | NDevs "int option"
  | Props psm2_ncclNetProperties
  | Listener addr "psm2comm_handle option"
  | Comm addr addr
  | Mhandle "addr option"
  | Request "req_ptr option"
  | Flushed "req_ptr option option"
  | Tested int "int option"

text \<open>An event: a call, the value that it returns, and what it stores.\<close>

type_synonym event = "api_call \<times> ncclResult \<times> api_out"

section \<open>The abstract machine\<close>

text \<open>The tag of each open communicator, the state of each request, and the next tag.\<close>

record spec_state =
  sp_tag :: "addr \<Rightarrow> 64 word option"
  sp_req :: "req_ptr \<Rightarrow> req_state option"
  sp_next :: "64 word"

definition spec_start :: spec_state where
  "spec_start = \<lparr>sp_tag = Map.empty, sp_req = Map.empty, sp_next = 0\<rparr>"

definition spec_fresh :: "addr \<Rightarrow> spec_state \<Rightarrow> bool" where
  "spec_fresh c a \<longleftrightarrow> c \<noteq> 0 \<and> sp_tag a c = None \<and> (\<forall>i. sp_req a (c, i) = None)"

definition spec_open :: "addr \<Rightarrow> 64 word \<Rightarrow> spec_state \<Rightarrow> spec_state" where
  "spec_open c t a = a\<lparr>sp_tag := (sp_tag a)(c \<mapsto> t),
     sp_req := \<lambda>p. if fst p = c then if snd p < NUM_REQUESTS then Some Free else None
       else sp_req a p\<rparr>"

definition spec_close :: "addr \<Rightarrow> spec_state \<Rightarrow> spec_state" where
  "spec_close c a = a\<lparr>sp_tag := (sp_tag a)(c := None),
     sp_req := \<lambda>p. if fst p = c then None else sp_req a p\<rparr>"

text \<open>The library may end any of the operations that are in flight.\<close>

definition some_end :: "(req_ptr \<Rightarrow> req_state option) \<Rightarrow> (req_ptr \<Rightarrow> req_state option) \<Rightarrow> bool" where
  "some_end v v' \<longleftrightarrow> (\<forall>q. v' q = v q \<or>
     (\<exists>t n. v q = Some (InFlight t) \<and> 0 \<le> n \<and> (t \<noteq> ReqRecv \<longrightarrow> n = 0) \<and> v' q = Some (Finished t n)))"

text \<open>
  The steps. A failing call changes nothing that NCCL can see, except that a communicator is
  closed whatever the library answers. A new communicator is different from those that are
  open; which free request is used is left open.
\<close>

inductive spec_step :: "spec_state \<Rightarrow> event \<Rightarrow> spec_state \<Rightarrow> bool" where
  sp_init: "r = ncclSuccess \<or> r = ncclInternalError \<Longrightarrow> spec_step a (Init f, r, NoOut) a"
| sp_devices: "n = None \<longleftrightarrow> r \<noteq> ncclSuccess \<Longrightarrow> spec_step a (Devices, r, NDevs n) a"
| sp_properties: "spec_step a (GetProperties dev props, r, Props props') a"
| sp_listen: "spec_fresh c a \<Longrightarrow> h_tag h = sp_next a \<Longrightarrow> spec_step a
    (Listen dev, ncclSuccess, Listener c (Some h)) (spec_open c (sp_next a) a\<lparr>sp_next := sp_next a + 1\<rparr>)"
| sp_listen_fail: "spec_step a (Listen dev, ncclInternalError, Listener 0 None) a"
| sp_connect: "spec_fresh c a \<Longrightarrow>
    spec_step a (Connect dev h, ncclSuccess, Comm c 0) (spec_open c (h_tag h) a)"
| sp_connect_fail: "spec_step a (Connect dev h, ncclInternalError, Comm 0 0) a"
| sp_accept: "spec_step a (Accept c, ncclSuccess, Comm c 0) a"
| sp_reg: "spec_step a (RegMr c d sz type mh, ncclSuccess, Mhandle (if mh then Some 0 else None)) a"
| sp_reg_dmabuf: "spec_step a (RegMrDmaBuf c d sz type off fd mh, ncclSuccess, Mhandle None) a"
| sp_dereg: "spec_step a (DeregMr c m, ncclSuccess, NoOut) a"
| sp_send: "fst p = c \<Longrightarrow> sp_req a p = Some Free \<Longrightarrow> spec_step a
    (ISend c d sz tg, ncclSuccess, Request (Some p)) (a\<lparr>sp_req := (sp_req a)(p \<mapsto> InFlight ReqSend)\<rparr>)"
| sp_recv: "fst p = c \<Longrightarrow> sp_req a p = Some Free \<Longrightarrow> spec_step a
    (IRecv c n ds szs tags mhs, ncclSuccess, Request (Some p))
    (a\<lparr>sp_req := (sp_req a)(p \<mapsto> InFlight ReqRecv)\<rparr>)"
| sp_send_none: "r = ncclSuccess \<longleftrightarrow> (\<forall>i<NUM_REQUESTS. sp_req a (c, i) \<noteq> Some Free) \<Longrightarrow>
    r = ncclSuccess \<or> r = ncclInternalError \<Longrightarrow> spec_step a (ISend c d sz tg, r, Request None) a"
| sp_recv_none: "r = ncclSuccess \<longleftrightarrow> (\<forall>i<NUM_REQUESTS. sp_req a (c, i) \<noteq> Some Free) \<Longrightarrow>
    r = ncclSuccess \<or> r = ncclInternalError \<Longrightarrow>
    spec_step a (IRecv c n ds szs tags mhs, r, Request None) a"
| sp_flush: "spec_step a
    (IFlush c n ds szs mhs request, ncclSuccess, Flushed (if request then Some None else None)) a"
| sp_test_free: "sp_req a p = Some Free \<Longrightarrow>
    spec_step a (Test p has_size, ncclInternalError, Tested 0 None) a"
| sp_test: "sp_req a p = Some st \<Longrightarrow> st \<noteq> Free \<Longrightarrow> some_end (sp_req a) v \<Longrightarrow> v p = Some st1 \<Longrightarrow>
    spec_report st1 = ((d, sz), st2) \<Longrightarrow>
    spec_step a (Test p has_size, ncclSuccess, Tested d sz) (a\<lparr>sp_req := v(p \<mapsto> st2)\<rparr>)"
| sp_close_send: "sp_tag a c \<noteq> None \<Longrightarrow> spec_step a (CloseSend c, r, NoOut) (spec_close c a)"
| sp_close_recv: "sp_tag a c \<noteq> None \<Longrightarrow> spec_step a (CloseRecv c, r, NoOut) (spec_close c a)"
| sp_close_listen: "spec_step a (CloseListen c, ncclSuccess, NoOut) a"

inductive_cases spec_testE: "spec_step a (Test p has_size, r, out) a'"

lemma some_end_refl [simp]: "some_end v v"
  by (simp add: some_end_def)

lemma some_end_trans:
  assumes "some_end u v" and "some_end v w"
  shows "some_end u w"
  unfolding some_end_def
proof
  fix q
  let ?E = "\<lambda>x y. y = x \<or> (\<exists>t n. x = Some (InFlight t) \<and> 0 \<le> n \<and> (t \<noteq> ReqRecv \<longrightarrow> n = 0) \<and>
    y = Some (Finished t n))"
  have "?E (u q) (v q)" and "?E (v q) (w q)" using assms unfolding some_end_def by blast+
  then show "?E (u q) (w q)" by auto
qed

lemma some_end_spec_end: "some_end v (spec_end e v)"
proof -
  have "map_option (ends n) x = x \<or> (\<exists>t k. x = Some (InFlight t) \<and> 0 \<le> k \<and>
      (t \<noteq> ReqRecv \<longrightarrow> k = 0) \<and> map_option (ends n) x = Some (Finished t k))" for x and n :: "32 word"
  proof (cases x)
    case (Some st)
    then show ?thesis by (cases st) auto
  qed simp
  then show ?thesis by (simp add: some_end_def spec_end_def)
qed

lemma some_end_fold: "some_end v (fold spec_end es v)"
  by (induction es arbitrary: v) (auto intro: some_end_trans [OF some_end_spec_end])

section \<open>Runs and refinement maps\<close>

inductive runs :: "('s \<Rightarrow> 'l \<Rightarrow> 's \<Rightarrow> bool) \<Rightarrow> 's \<Rightarrow> 'l list \<Rightarrow> 's \<Rightarrow> bool" for step where
  runs_none: "runs step s [] s"
| runs_more: "step s l s1 \<Longrightarrow> runs step s1 ls s2 \<Longrightarrow> runs step s (l # ls) s2"

inductive_cases runs_NilE [elim!]: "runs step s [] s'"
inductive_cases runs_ConsE: "runs step s (l # ls) s'"

lemma runs_append:
  "runs step s ls1 s1 \<Longrightarrow> runs step s1 ls2 s2 \<Longrightarrow> runs step s (ls1 @ ls2) s2"
  by (induction rule: runs.induct) (auto intro: runs_more)

lemma runs_split:
  assumes "runs step s (ls1 @ ls2) s2"
  obtains s1 where "runs step s ls1 s1" and "runs step s1 ls2 s2"
  using assms
proof (induction ls1 arbitrary: s thesis)
  case Nil
  then show ?case by (auto intro: runs_none)
next
  case (Cons l ls1)
  from Cons.prems(2) obtain s0 where s: "step s l s0" and r: "runs step s0 (ls1 @ ls2) s2"
    by (auto elim: runs_ConsE)
  show ?case
    by (rule Cons.IH [OF _ r]) (blast intro: Cons.prems(1) runs_more [where step = step, OF s])
qed

text \<open>A system with an invariant, and a function that maps its steps to steps of another.\<close>

locale refinement_map =
  fixes good :: "'s \<Rightarrow> bool"
    and step :: "'s \<Rightarrow> 'l \<Rightarrow> 's \<Rightarrow> bool"
    and abs :: "'s \<Rightarrow> 'a"
    and astep :: "'a \<Rightarrow> 'l \<Rightarrow> 'a \<Rightarrow> bool"
  assumes step_good: "good s \<Longrightarrow> step s l s' \<Longrightarrow> good s'"
    and step_abs: "good s \<Longrightarrow> step s l s' \<Longrightarrow> astep (abs s) l (abs s')"
begin

lemma runs_good: "runs step s ls s' \<Longrightarrow> good s \<Longrightarrow> good s'"
  by (induction rule: runs.induct) (auto dest: step_good)

lemma runs_refine: "runs step s ls s' \<Longrightarrow> good s \<Longrightarrow> runs astep (abs s) ls (abs s')"
proof (induction rule: runs.induct)
  case (runs_more s l s1 ls s2)
  from runs_more.IH step_good [OF runs_more.prems runs_more.hyps(1)]
  have "runs astep (abs s1) ls (abs s2)" by blast
  with step_abs [OF runs_more.prems runs_more.hyps(1)] show ?case by (rule runs.runs_more)
qed (rule runs.runs_none)

end

section \<open>What the abstract machine implies for a run\<close>

text \<open>The request that an event hands out, the one that it reports done, and what it closes.\<close>

fun ev_posts :: "event \<Rightarrow> req_ptr option" where
  "ev_posts (a, r, Request ro) = ro"
| "ev_posts _ = None"

fun ev_reports :: "event \<Rightarrow> req_ptr option" where
  "ev_reports (Test p has_size, r, Tested d sz) = (if d \<noteq> 0 then Some p else None)"
| "ev_reports _ = None"

fun ev_closes :: "event \<Rightarrow> addr option" where
  "ev_closes (CloseSend c, _) = Some c"
| "ev_closes (CloseRecv c, _) = Some c"
| "ev_closes _ = None"

text \<open>
  Following one request through a run: \<open>b\<close> says whether it is with NCCL, that is handed out
  and neither reported done nor closed with its communicator; \<open>None\<close> if it is handed out a
  second time or reported done a second time.
\<close>

fun follow :: "req_ptr \<Rightarrow> bool \<Rightarrow> event list \<Rightarrow> bool option" where
  "follow p b [] = Some b"
| "follow p b (e # es) =
     (if ev_posts e = Some p then (if b then None else follow p True es)
      else if ev_reports e = Some p then (if b then follow p False es else None)
      else if ev_closes e = Some (fst p) then follow p False es
      else follow p b es)"

definition sp_out :: "spec_state \<Rightarrow> req_ptr \<Rightarrow> bool" where
  "sp_out a p \<longleftrightarrow> sp_req a p \<noteq> None \<and> sp_req a p \<noteq> Some Free"

lemma some_end_out:
  assumes "some_end v v'"
  shows "v' q = None \<longleftrightarrow> v q = None" and "v' q = Some Free \<longleftrightarrow> v q = Some Free"
  using assms unfolding some_end_def by (metis option.distinct(1) option.inject req_state.distinct)+

lemma spec_open_out: "spec_fresh c a \<Longrightarrow> sp_out (spec_open c t a) p = sp_out a p"
  by (cases p) (auto simp: sp_out_def spec_open_def spec_fresh_def)

lemma sp_out_next [simp]: "sp_out (a\<lparr>sp_next := n\<rparr>) p = sp_out a p"
  by (simp add: sp_out_def)

lemma spec_step_follow:
  assumes "spec_step a e a'"
  shows "if ev_posts e = Some p then \<not> sp_out a p \<and> sp_out a' p
    else if ev_reports e = Some p then sp_out a p \<and> \<not> sp_out a' p
    else if ev_closes e = Some (fst p) then \<not> sp_out a' p
    else sp_out a' p = sp_out a p"
  using assms
proof cases
  case (sp_test q st v st1 d sz st2 has_size)
  note o = some_end_out [OF sp_test(5)]
  have q: "sp_out a q" using sp_test(3,4) by (simp add: sp_out_def)
  have "st1 \<noteq> Free" using o(2) [of q] sp_test(3,4,6) by auto
  then have "d \<noteq> 0 \<longleftrightarrow> st2 = Free" using sp_test(7) by (cases st1) auto
  then show ?thesis using sp_test(1,2) o [of p] q by (auto simp: sp_out_def)
next
  case sp_listen
  then show ?thesis by (simp add: spec_open_out)
next
  case sp_connect
  then show ?thesis by (simp add: spec_open_out)
qed (auto simp: sp_out_def spec_close_def)

lemma spec_runs_follow: "runs spec_step a es a' \<Longrightarrow> follow p (sp_out a p) es = Some (sp_out a' p)"
proof (induction rule: runs.induct)
  case (runs_more a e a1 es a2)
  then show ?case using spec_step_follow [of a e a1 p] by (auto split: if_splits)
qed simp

text \<open>A communicator keeps its tag until it is closed.\<close>

lemma spec_step_tag:
  assumes "spec_step a e a'" and "sp_tag a c = Some t" and "ev_closes e \<noteq> Some c"
  shows "sp_tag a' c = Some t"
  using assms by cases (auto simp: spec_open_def spec_close_def spec_fresh_def)

lemma spec_runs_tag:
  "runs spec_step a es a' \<Longrightarrow> sp_tag a c = Some t \<Longrightarrow> \<forall>e\<in>set es. ev_closes e \<noteq> Some c \<Longrightarrow>
     sp_tag a' c = Some t"
proof (induction rule: runs.induct)
  case (runs_more a e a1 es a2)
  then show ?case using spec_step_tag [of a e a1 c t] by simp
qed

text \<open>So the tag of a communicator that is open is the one that it was opened with.\<close>

fun ev_opens :: "event \<Rightarrow> (addr \<times> 64 word) option" where
  "ev_opens (Listen dev, _, Listener c (Some h)) = Some (c, h_tag h)"
| "ev_opens (Connect dev h, r, Comm c _) = (if r = ncclSuccess then Some (c, h_tag h) else None)"
| "ev_opens _ = None"

lemma spec_step_opens: "spec_step a e a' \<Longrightarrow> ev_opens e = Some (c, t) \<Longrightarrow> sp_tag a' c = Some t"
  by (erule spec_step.cases) (auto simp: spec_open_def)

lemma spec_runs_opened:
  assumes "runs spec_step a (es1 @ e # es2) a'" and "ev_opens e = Some (c, t)"
    and "\<forall>e\<in>set es2. ev_closes e \<noteq> Some c"
  shows "sp_tag a' c = Some t"
proof -
  from assms(1) obtain a1 where "runs spec_step a1 (e # es2) a'" by (rule runs_split)
  then obtain a2 where "spec_step a1 e a2" and r: "runs spec_step a2 es2 a'" by (rule runs_ConsE)
  from spec_step_opens [OF this(1) assms(2)] show ?thesis by (rule spec_runs_tag [OF r _ assms(3)])
qed

text \<open>The handles that a run hands out, the last one first.\<close>

fun ev_handles :: "event \<Rightarrow> psm2comm_handle list" where
  "ev_handles (_, _, Listener _ (Some h)) = [h]"
| "ev_handles _ = []"

end
