(* ===== verification/Init_Calls.thy ===== *)
theory Init_Calls
  imports Device_Calls
begin

text \<open>
  What \<open>psm2_nccl_init\<close> leaves alone, on every path, also when it is called again while there
  are communicators: endpoints, operations in flight, and, in an environment that does not
  change, the mode in which endpoints are shared.
\<close>

section \<open>Endpoints and operations\<close>

lemma init_finish_control: "control_calls P (world s) (world (snd (init_finish P c g s)))"
proof -
  obtain rc w' where i: "psm2_init P (PSM2_VERNO_MAJOR P) (PSM2_VERNO_MINOR P) (world s) = (rc, w')"
    by fastforce
  have "control_calls P (world s) w'" by (rule cc_quiet [OF cc_refl q_init [OF i]])
  then show ?thesis using i by (auto simp: init_finish_def Let_def)
qed

lemma init_gpudirect_control: "control_calls P (world s) (world (snd (init_gpudirect P s)))"
proof -
  have "control_calls P (world s) (world (snd (init_finish P c g (s\<lparr>use_gpudirect := d\<rparr>))))" for c g d
    using init_finish_control [of P "s\<lparr>use_gpudirect := d\<rparr>" c g] by simp
  then show ?thesis by (auto simp: init_gpudirect_def Let_def split: option.split)
qed

lemma init_control: "control_calls P (world s) (world (snd (psm2_nccl_init P f s)))"
proof -
  obtain lrc s1 where l: "psm2_nccl_init_logging P f s = (lrc, s1)" by fastforce
  then have w: "world s1 = world s" by (rule init_logging_world)
  have "control_calls P (world s) (world (snd (init_gpudirect P u)))" if "world u = world s" for u
    using init_gpudirect_control [of P u] that by simp
  then show ?thesis
    using l w by (auto simp: psm2_nccl_init_def Let_def split: option.split)
qed

lemma init_opened:
  assumes "ep_contract P opened"
  shows "opened (world (snd (psm2_nccl_init P f s))) = opened (world s)"
proof -
  have fin: "opened (world (snd (init_finish P c g u))) = opened (world u)" for c g u
  proof -
    obtain rc w' where i: "psm2_init P (PSM2_VERNO_MAJOR P) (PSM2_VERNO_MINOR P) (world u) = (rc, w')"
      by fastforce
    then show ?thesis
      using ep_contract_quiet(1) [OF assms q_init [OF i]] by (auto simp: init_finish_def Let_def)
  qed
  have gd: "opened (world (snd (init_gpudirect P u))) = opened (world u)" for u
    by (auto simp: init_gpudirect_def Let_def fin split: option.split)
  obtain lrc s1 where l: "psm2_nccl_init_logging P f s = (lrc, s1)" by fastforce
  then have "world s1 = world s" by (rule init_logging_world)
  then show ?thesis using l by (auto simp: psm2_nccl_init_def Let_def gd split: option.split)
qed

section \<open>The result, the log function, and the mode\<close>

lemma init_log_function:
  assumes "psm2_nccl_init P f s = (ncclSuccess, s1)"
  shows "pluginLogFunction s1 = f"
proof -
  from assms obtain sl dev shep pol where l: "psm2_nccl_init_logging P f s = (0, sl)"
    and g: "init_gpudirect P (sl\<lparr>jobkey := replicate 16 0, use_nccl_dev_num := dev,
      use_shared_ep := shep, shared_ep_multi_policy := pol\<rparr>) = (ncclSuccess, s1)"
    by (rule init_result)
  from g have "pluginLogFunction s1 = pluginLogFunction sl" by (rule init_gpudirect_result) simp
  then show ?thesis using init_logging_0 [OF l] by simp
qed

lemma init_finish_code: "fst (init_finish P c g s) \<in> {ncclSuccess, ncclInternalError}"
  by (auto simp: init_finish_def Let_def split: prod.splits)

lemma init_code: "fst (psm2_nccl_init P f s) \<in> {ncclSuccess, ncclInternalError}"
proof -
  have "fst (init_gpudirect P u) \<in> {ncclSuccess, ncclInternalError}" for u
    using init_finish_code by (auto simp: init_gpudirect_def Let_def split: option.split)
  then show ?thesis
    by (auto simp: psm2_nccl_init_def Let_def split: option.split prod.split)
qed

lemma init_logging_kept:
  "psm2_nccl_init_logging P f s = (rc, s') \<Longrightarrow>
     pluginLogFunction s' = f \<or> pluginLogFunction s' = pluginLogFunction s"
  by (auto simp: psm2_nccl_init_logging_def Let_def split: option.splits prod.splits if_splits)

lemma init_gpudirect_kept [frame_simps]:
  "pluginLogFunction (snd (init_gpudirect P s)) = pluginLogFunction s"
  "use_shared_ep (snd (init_gpudirect P s)) = use_shared_ep s"
  by (auto simp: init_gpudirect_def init_finish_def Let_def split: option.splits prod.splits)

lemma init_log_kept: "pluginLogFunction (snd (psm2_nccl_init P (pluginLogFunction s) s)) = pluginLogFunction s"
proof -
  obtain rc s1 where l: "psm2_nccl_init_logging P (pluginLogFunction s) s = (rc, s1)" by fastforce
  then have "pluginLogFunction s1 = pluginLogFunction s" using init_logging_kept by blast
  then show ?thesis
    using l by (simp add: psm2_nccl_init_def Let_def frame_simps split: option.split)
qed

text \<open>
  The configuration is settled if initialising again, in any state with this configuration,
  keeps it. In an environment that does not change, a successful initialisation settles it.
\<close>

definition settled :: "'w platform \<Rightarrow> 'w plugin \<Rightarrow> bool" where
  "settled P s \<longleftrightarrow>
     (\<forall>u. same_conf s u \<longrightarrow> same_conf s (snd (psm2_nccl_init P (pluginLogFunction s) u)))"

definition env_fixed :: "'w platform \<Rightarrow> bool" where
  "env_fixed P \<longleftrightarrow> (\<forall>n w w'. getenv P n w = getenv P n w')"

lemma init_settles:
  assumes "psm2_nccl_init P f s = (ncclSuccess, s1)" and "env_fixed P"
  shows "settled P s1"
  unfolding settled_def
proof (intro allI impI)
  fix u assume u: "same_conf s1 u"
  obtain rc w where i: "psm2_init P (PSM2_VERNO_MAJOR P) (PSM2_VERNO_MINOR P) (world u) = (rc, w)"
    by fastforce
  have "getenv P n (world u) = getenv P n (world s)" for n using assms(2) unfolding env_fixed_def by blast
  from init_again [OF assms(1) u this i]
  show "same_conf s1 (snd (psm2_nccl_init P (pluginLogFunction s1) u))"
    using same_conf_trans [OF u] init_log_function [OF assms(1)] by simp
qed

lemma settled_cong: "same_conf s s' \<Longrightarrow> settled P s \<Longrightarrow> settled P s'"
proof -
  assume c: "same_conf s s'" and s: "settled P s"
  have "pluginLogFunction s' = pluginLogFunction s" using c by (simp add: same_conf_def)
  then show "settled P s'"
    using s same_conf_trans [OF c] same_conf_trans [OF same_conf_sym [OF c]] unfolding settled_def by metis
qed

lemma init_conf_kept: "settled P s \<Longrightarrow> same_conf s (snd (psm2_nccl_init P (pluginLogFunction s) s))"
  unfolding settled_def by simp

end
