(* ===== verification/Plugin_System.thy ===== *)
theory Plugin_System
  imports Plugin_Spec Init_Calls
begin

text \<open>
  The plugin as a whole: NCCL's calls as a transition system over the model of the code, what
  NCCL has to respect, the invariant of every reachable state, and that every call is a step of
  the abstract machine of \<open>Plugin_Spec\<close>.
\<close>

section \<open>Making a call\<close>

text \<open>
  The members of the exported table (version 8). Making a call: the value that it returns,
  what it stores, and the new state. \<open>None\<close> is a call that does not return.
\<close>

fun run_call ::
  "'w platform \<Rightarrow> api_call \<Rightarrow> 'w plugin \<Rightarrow> (ncclResult \<times> api_out \<times> 'w plugin) outcome option" where
  "run_call P (Init f) s = Some (case psm2_nccl_init P f s of (r, s') \<Rightarrow> Ret (r, NoOut, s'))"
| "run_call P Devices s =
     Some (case psm2_nccl_devices P s of (r, n, s') \<Rightarrow> Ret (r, NDevs n, s'))"
| "run_call P (GetProperties dev props) s =
     Some (obind (psm2_nccl_getProperties P dev props s) (\<lambda>(r, ps, s'). Ret (r, Props ps, s')))"
| "run_call P (Listen dev) s =
     Some (obind (psm2_nccl_listen P dev s) (\<lambda>(r, c, h, s'). Ret (r, Listener c h, s')))"
| "run_call P (Connect dev h) s =
     Some (obind (psm2_nccl_connect_v8 P dev h s) (\<lambda>(r, c, d, s'). Ret (r, Comm c d, s')))"
| "run_call P (Accept l) s =
     Some (obind (psm2_nccl_accept_v8 l s) (\<lambda>(r, c, d, s'). Ret (r, Comm c d, s')))"
| "run_call P (RegMr c d sz type mh) s =
     Some (obind (psm2_nccl_regMr_v8 c d sz type mh s) (\<lambda>(r, m, s'). Ret (r, Mhandle m, s')))"
| "run_call P (RegMrDmaBuf c d sz type off fd mh) s =
     Some (obind (psm2_nccl_regMrDmaBuf c d sz type off fd mh s) (\<lambda>(r, m, s'). Ret (r, Mhandle m, s')))"
| "run_call P (DeregMr c m) s =
     Some (obind (psm2_nccl_deregMr c m s) (\<lambda>(r, s'). Ret (r, NoOut, s')))"
| "run_call P (ISend c d sz tg) s =
     Some (obind (psm2_nccl_isend P c d sz tg 0 s) (\<lambda>(r, ro, s'). Ret (r, Request ro, s')))"
| "run_call P (IRecv c n ds szs tags mhs) s =
     Some (obind (psm2_nccl_irecv P c n ds szs tags mhs s) (\<lambda>(r, ro, s'). Ret (r, Request ro, s')))"
| "run_call P (IFlush c n ds szs mhs request) s =
     Some (obind (psm2_nccl_iflush P c n ds szs mhs request s) (\<lambda>(r, f, s'). Ret (r, Flushed f, s')))"
| "run_call P (Test p has_size) s =
     map_option (\<lambda>m. obind m (\<lambda>(r, d, sz, s'). Ret (r, Tested d sz, s'))) (psm2_nccl_test P p has_size s)"
| "run_call P (CloseSend c) s =
     Some (obind (psm2_nccl_closeSend P c s) (\<lambda>(r, s'). Ret (r, NoOut, s')))"
| "run_call P (CloseRecv c) s =
     Some (obind (psm2_nccl_closeRecv P c s) (\<lambda>(r, s'). Ret (r, NoOut, s')))"
| "run_call P (CloseListen c) s =
     Some (obind (psm2_nccl_closeListen c s) (\<lambda>(r, s'). Ret (r, NoOut, s')))"

text \<open>
  What NCCL respects: a further initialisation (which it may make at any time, for each of its
  own communicators) passes the same log function; fewer than \<open>2 ^ 32 - 1\<close> communicators and fewer than \<open>2 ^ 64 - 2\<close>
  listeners, property structures whose \<open>pciPath\<close> is NULL, buffer lengths that are not
  negative, one buffer per receive, requests of live communicators, and no communicator is
  closed while an operation on it is in flight.
\<close>

definition live :: "addr \<Rightarrow> 'w plugin \<Rightarrow> bool" where
  "live c s \<longleftrightarrow> comms s c \<noteq> None"

definition idle :: "addr \<Rightarrow> 'w plugin \<Rightarrow> bool" where
  "idle c s \<longleftrightarrow> (\<forall>i < NUM_REQUESTS. \<not> pending s (c, i))"

fun allowed :: "'w plugin \<Rightarrow> api_call \<Rightarrow> bool" where
  "allowed s (Init f) \<longleftrightarrow> f = pluginLogFunction s"
| "allowed s Devices \<longleftrightarrow> True"
| "allowed s (GetProperties dev props) \<longleftrightarrow> v8_pciPath props = 0"
| "allowed s (Listen dev) \<longleftrightarrow> room s \<and> tags_left s"
| "allowed s (Connect dev h) \<longleftrightarrow> room s"
| "allowed s (Accept c) \<longleftrightarrow> live c s"
| "allowed s (RegMr c d sz type mh) \<longleftrightarrow> live c s"
| "allowed s (RegMrDmaBuf c d sz type off fd mh) \<longleftrightarrow> live c s"
| "allowed s (DeregMr c mh) \<longleftrightarrow> live c s"
| "allowed s (ISend c d sz tg) \<longleftrightarrow> live c s \<and> 0 \<le> sz \<and> sz \<le> INT_MAX"
| "allowed s (IRecv c n ds szs tags mhs) \<longleftrightarrow> live c s \<and> n \<le> 1 \<and> ds \<noteq> [] \<and> szs \<noteq> [] \<and> mhs \<noteq> [] \<and>
     0 \<le> hd szs \<and> hd szs \<le> INT_MAX"
| "allowed s (IFlush c n ds szs mhs request) \<longleftrightarrow>
     live c s \<and> n \<le> 1 \<and> ds \<noteq> [] \<and> szs \<noteq> [] \<and> mhs \<noteq> []"
| "allowed s (Test p has_size) \<longleftrightarrow>
     (case req_view s p of None \<Rightarrow> False | Some st \<Rightarrow> has_size \<or> req_kind st \<noteq> ReqRecv)"
| "allowed s (CloseSend c) \<longleftrightarrow> live c s \<and> idle c s"
| "allowed s (CloseRecv c) \<longleftrightarrow> live c s \<and> idle c s"
| "allowed s (CloseListen c) \<longleftrightarrow> True"

text \<open>A step of the plugin: an allowed call that returns.\<close>

definition plugin_step :: "'w platform \<Rightarrow> 'w plugin \<Rightarrow> event \<Rightarrow> 'w plugin \<Rightarrow> bool" where
  "plugin_step P s e s' \<longleftrightarrow>
     (case e of (a, r, out) \<Rightarrow> allowed s a \<and> run_call P a s = Some (Ret (r, out, s')))"

text \<open>
  The reachable states, with the handles that were handed out, the last one first. \<open>w0\<close> is
  the world in which the library is loaded and \<open>f\<close> NCCL's log function.
\<close>

inductive reachable :: "'w platform \<Rightarrow> addr \<Rightarrow> 'w \<Rightarrow> psm2comm_handle list \<Rightarrow> 'w plugin \<Rightarrow> bool"
  for P f w0 where
  r_init: "psm2_nccl_init P f (initial_plugin w0) = (ncclSuccess, s) \<Longrightarrow> reachable P f w0 [] s"
| r_call: "reachable P f w0 hs s \<Longrightarrow> plugin_step P s e s' \<Longrightarrow> reachable P f w0 (ev_handles e @ hs) s'"

section \<open>What the abstract machine sees\<close>

definition plugin_abs :: "'w plugin \<Rightarrow> spec_state" where
  "plugin_abs s = \<lparr>sp_tag = \<lambda>c. map_option tag (comms s c), sp_req = req_view s, sp_next = next_tag s\<rparr>"

lemma plugin_abs_simps [simp]:
  "sp_tag (plugin_abs s) c = map_option tag (comms s c)" "sp_req (plugin_abs s) = req_view s"
  "sp_next (plugin_abs s) = next_tag s"
  by (simp_all add: plugin_abs_def)

lemma spec_state_eqI:
  "\<lbrakk>sp_tag a = sp_tag b; sp_req a = sp_req b; sp_next a = sp_next b\<rbrakk> \<Longrightarrow> (a :: spec_state) = b"
  by simp

lemma plugin_abs_same:
  assumes "comms s' = comms s" and "next_tag s' = next_tag s"
  shows "plugin_abs s' = plugin_abs s"
proof -
  have "req_view s' p = req_view s p" for p using assms(1) by (cases p) simp
  then show ?thesis using assms by (auto simp: plugin_abs_def)
qed

lemma plugin_abs_fresh: "comms s c = None \<Longrightarrow> c \<noteq> 0 \<Longrightarrow> spec_fresh c (plugin_abs s)"
  by (simp add: spec_fresh_def)

lemma plugin_abs_open:
  assumes "comms s' = (comms s)(c \<mapsto> cm)" and "requests cm = replicate NUM_REQUESTS zero_req"
  shows "plugin_abs s' = spec_open c (tag cm) (plugin_abs s)\<lparr>sp_next := next_tag s'\<rparr>"
proof (rule spec_state_eqI)
  have "req_view s' p = sp_req (spec_open c (tag cm) (plugin_abs s)) p" for p
    using assms by (cases p) (simp add: spec_open_def)
  then show "sp_req (plugin_abs s') = sp_req (spec_open c (tag cm) (plugin_abs s)\<lparr>sp_next := next_tag s'\<rparr>)"
    by auto
qed (use assms in \<open>auto simp: spec_open_def\<close>)

lemma plugin_abs_close:
  assumes "comms s' = (comms s)(c := None)" and "next_tag s' = next_tag s"
  shows "plugin_abs s' = spec_close c (plugin_abs s)"
proof (rule spec_state_eqI)
  have "req_view s' p = sp_req (spec_close c (plugin_abs s)) p" for p
    using assms by (cases p) (simp add: spec_close_def)
  then show "sp_req (plugin_abs s') = sp_req (spec_close c (plugin_abs s))" by auto
qed (use assms in \<open>auto simp: spec_close_def\<close>)

lemma plugin_abs_reqs:
  assumes "same_but_reqs s s'"
  shows "plugin_abs s' = plugin_abs s\<lparr>sp_req := req_view s'\<rparr>"
proof (rule spec_state_eqI)
  have tag: "tag (no_reqs cm) = tag cm" for cm by (simp add: no_reqs_def)
  have "map_option tag (comms s' c) = map_option tag (comms s c)" for c
  proof -
    have "map_option (tag \<circ> no_reqs) (comms s' c) = map_option (tag \<circ> no_reqs) (comms s c)"
      using assms by (simp add: same_but_reqs_def flip: option.map_comp)
    then show ?thesis by (simp add: tag comp_def)
  qed
  then show "sp_tag (plugin_abs s') = sp_tag (plugin_abs s\<lparr>sp_req := req_view s'\<rparr>)"
    by (auto simp: plugin_abs_def)
qed (use assms in \<open>simp_all add: same_but_reqs_def same_globals_def\<close>)

section \<open>The invariant\<close>

text \<open>
  Every communicator has an endpoint. Whether it is the shared one is decided when the
  communicator is made; the setting changes only if the environment does.
\<close>

definition has_eps :: "'w plugin \<Rightarrow> bool" where
  "has_eps s \<longleftrightarrow> (\<forall>c cm. comms s c = Some cm \<longrightarrow> ep cm \<noteq> 0)"

definition modes_ok :: "'w plugin \<Rightarrow> bool" where
  "modes_ok s \<longleftrightarrow> (\<forall>c cm. comms s c = Some cm \<longrightarrow> has_shared_ep cm = (use_shared_ep s \<noteq> 0))"

definition system_ok ::
  "'w platform \<Rightarrow> ('w \<Rightarrow> addr set) \<Rightarrow> ('w \<Rightarrow> (req_ptr \<times> 32 word) multiset) \<Rightarrow> 'w plugin \<Rightarrow> bool" where
  "system_ok P opened posted s \<longleftrightarrow>
     plugin_ok P opened posted s \<and> has_eps s \<and> config_ok s \<and> realpath_contract P \<and>
     next_tag s < ULLONG_MAX"

lemma posted_ok_mono:
  assumes "posted_ok s pm" and "pm' \<subseteq># pm"
  shows "posted_ok s pm'"
proof -
  have "image_mset fst pm' \<subseteq># image_mset fst pm" using assms(2) by (rule image_mset_subseteq_mono)
  then have "count (image_mset fst pm') p \<le> count (image_mset fst pm) p" for p
    by (rule mset_subset_eq_count)
  moreover have "count (image_mset fst pm) p \<le> 1" for p
    using assms(1) unfolding posted_ok_def by blast
  ultimately have "count (image_mset fst pm') p \<le> 1" for p by (meson order_trans)
  moreover have "pending s p \<and> uint l \<le> INT_MAX" if "(p, l) \<in># pm'" for p l
    using posted_ok_pending [OF assms(1)] mset_subset_eqD [OF assms(2) that] .
  ultimately show ?thesis unfolding posted_ok_def by blast
qed

lemma posted_ok_comms:
  assumes "posted_ok s pm" and "\<And>p l. (p, l) \<in># pm \<Longrightarrow> comms s' (fst p) = comms s (fst p)"
  shows "posted_ok s' pm"
proof -
  have "pending s' p" if "(p, l) \<in># pm" for p l
  proof -
    obtain c i where p: "p = (c, i)" by fastforce
    have "pending s p" using posted_ok_pending [OF assms(1) that] by simp
    then show ?thesis using assms(2) [OF that] by (simp add: p)
  qed
  then show ?thesis using assms(1) unfolding posted_ok_def by blast
qed

text \<open>Adding a communicator with unused requests, removing one, and no change.\<close>

lemma plugin_ok_control:
  assumes "plugin_ok P opened posted s" and "comms_ok P opened s'"
    and "control_calls P (world s) (world s')" and "reqs_ok s'"
    and "\<And>p l. (p, l) \<in># posted (world s) \<Longrightarrow> comms s' (fst p) = comms s (fst p)"
  shows "plugin_ok P opened posted s'"
proof -
  note ok = plugin_okD [OF assms(1)]
  have "posted (world s') \<subseteq># posted (world s)" by (rule control_calls_posted [OF ok(2) assms(3)])
  from posted_ok_mono [OF posted_ok_comms [OF ok(5) assms(5)] this]
  show ?thesis using ok(2,3) assms(2,4) unfolding plugin_ok_def by simp
qed

lemma posted_live: "plugin_ok P opened posted s \<Longrightarrow> (p, l) \<in># posted (world s) \<Longrightarrow> pending s p"
  using posted_ok_pending plugin_okD(5) by blast

lemma plugin_ok_add:
  assumes "plugin_ok P opened posted s" and "comms_ok P opened s'"
    and "control_calls P (world s) (world s')" and "comms s c = None"
    and "comms s' = (comms s)(c \<mapsto> cm)" and "requests cm = replicate NUM_REQUESTS zero_req"
  shows "plugin_ok P opened posted s'"
proof (rule plugin_ok_control [OF assms(1-3)])
  show "reqs_ok s'"
    using plugin_okD(4) [OF assms(1)] assms(5,6)
    by (auto simp: reqs_ok_def req_array_ok_def split: if_splits)
  fix p l assume "(p, l) \<in># posted (world s)"
  then have "pending s p" by (rule posted_live [OF assms(1)])
  then have "fst p \<noteq> c" using assms(4) by (cases p) auto
  then show "comms s' (fst p) = comms s (fst p)" using assms(5) by simp
qed

lemma plugin_ok_remove:
  assumes "plugin_ok P opened posted s" and "comms_ok P opened s'"
    and "control_calls P (world s) (world s')" and "comms s' = (comms s)(c := None)" and "idle c s"
  shows "plugin_ok P opened posted s'"
proof (rule plugin_ok_control [OF assms(1-3)])
  show "reqs_ok s'"
    using plugin_okD(4) [OF assms(1)] assms(4) by (auto simp: reqs_ok_def split: if_splits)
  fix p l assume "(p, l) \<in># posted (world s)"
  then have pe: "pending s p" by (rule posted_live [OF assms(1)])
  obtain d i where p: "p = (d, i)" by fastforce
  have "d \<noteq> c"
  proof
    assume "d = c"
    moreover obtain cm where "comms s d = Some cm" and "i < length (requests cm)"
      using pe unfolding p by (rule pendingD)
    moreover from this have "length (requests cm) = NUM_REQUESTS"
      using reqs_okD(1) [OF plugin_okD(4) [OF assms(1)]] by blast
    ultimately show False using assms(5) pe unfolding p idle_def by auto
  qed
  then show "comms s' (fst p) = comms s (fst p)" using assms(4) by (simp add: p)
qed

lemma plugin_ok_same:
  assumes "plugin_ok P opened posted s" and "comms_ok P opened s'"
    and "control_calls P (world s) (world s')" and "comms s' = comms s"
  shows "plugin_ok P opened posted s'"
  by (rule plugin_ok_control [OF assms(1-3)])
    (use plugin_okD(4) [OF assms(1)] assms(4) in \<open>simp_all add: reqs_ok_def\<close>)

lemma made_comm_simps:
  assumes "made_comm sh cm"
  shows "ep cm \<noteq> 0" and "has_shared_ep cm = sh" and "requests cm = replicate NUM_REQUESTS zero_req"
  using assms unfolding made_comm_def zero_comm_def by auto

section \<open>Every call keeps the invariant and is a step of the abstract machine\<close>

definition same_config :: "'w plugin \<Rightarrow> 'w plugin \<Rightarrow> bool" where
  "same_config s s' \<longleftrightarrow> same_globals (s\<lparr>next_tag := next_tag s', strs := strs s'\<rparr>) s'"

lemma same_configI:
  "same_globals s s' \<Longrightarrow> same_config s s'"
  "same_globals (s\<lparr>next_tag := n\<rparr>) s' \<Longrightarrow> same_config s s'"
  "same_plugin s s' \<Longrightarrow> same_config s s'"
  by (simp_all add: same_config_def same_globals_def same_plugin_def)

lemma same_configD:
  assumes "same_config s s'"
  shows "use_shared_ep s' = use_shared_ep s" and "pluginLogFunction s' = pluginLogFunction s"
    and "config_ok s \<Longrightarrow> config_ok s'" and "same_conf s s'"
  using assms by (simp_all add: same_config_def same_globals_def config_ok_def log_ok_def same_conf_def)

text \<open>What a call returns to.\<close>

definition call_result ::
  "'w platform \<Rightarrow> ('w \<Rightarrow> addr set) \<Rightarrow> ('w \<Rightarrow> (req_ptr \<times> 32 word) multiset) \<Rightarrow> 'w plugin \<Rightarrow> api_call
    \<Rightarrow> ncclResult \<times> api_out \<times> 'w plugin \<Rightarrow> bool" where
  "call_result P opened posted s a x \<longleftrightarrow> (case x of (r, out, s') \<Rightarrow>
     system_ok P opened posted s' \<and> pluginLogFunction s' = pluginLogFunction s \<and>
     (settled P s \<and> modes_ok s \<longrightarrow> same_conf s s' \<and> modes_ok s') \<and>
     spec_step (plugin_abs s) (a, r, out) (plugin_abs s') \<and>
     (case ev_handles (a, r, out) of
        [] \<Rightarrow> next_tag s' = next_tag s
      | h # _ \<Rightarrow> h_tag h = next_tag s \<and> next_tag s < next_tag s'))"

lemma call_resultI:
  assumes "system_ok P opened posted s" and "plugin_ok P opened posted s'" and "same_config s s'"
    and "has_eps s'" and "modes_ok s \<Longrightarrow> modes_ok s'" and "next_tag s' < ULLONG_MAX"
    and "spec_step (plugin_abs s) (a, r, out) (plugin_abs s')"
    and "case ev_handles (a, r, out) of [] \<Rightarrow> next_tag s' = next_tag s
      | h # _ \<Rightarrow> h_tag h = next_tag s \<and> next_tag s < next_tag s'"
  shows "call_result P opened posted s a (r, out, s')"
  using assms same_configD [OF assms(3)] by (simp add: call_result_def system_ok_def)

text \<open>The cases of a new communicator, of one removed, and of none changed.\<close>

lemma has_eps_add:
  assumes "comms s' = (comms s)(c \<mapsto> cm)" and "has_eps s" and "ep cm \<noteq> 0"
  shows "has_eps s'"
  using assms by (simp add: has_eps_def)

lemma modes_ok_add:
  assumes "comms s' = (comms s)(c \<mapsto> cm)" and "modes_ok s"
    and "has_shared_ep cm = (use_shared_ep s \<noteq> 0)" and "use_shared_ep s' = use_shared_ep s"
  shows "modes_ok s'"
  using assms by (simp add: modes_ok_def)

lemma unchanged_result:
  assumes "system_ok P opened posted s" and "plugin_ok P opened posted s'" and "same_config s s'"
    and "comms s' = comms s" and "next_tag s' = next_tag s"
    and "spec_step (plugin_abs s) (a, r, out) (plugin_abs s)" and "ev_handles (a, r, out) = []"
  shows "call_result P opened posted s a (r, out, s')"
proof (rule call_resultI [OF assms(1-3)])
  show "has_eps s'" and "next_tag s' < ULLONG_MAX"
    using assms(1,4,5) by (simp_all add: system_ok_def has_eps_def)
  show "modes_ok s'" if "modes_ok s"
    using that assms(4) same_configD(1) [OF assms(3)] by (simp add: modes_ok_def)
qed (use assms plugin_abs_same [OF assms(4,5)] in simp_all)

lemma nothing_result:
  assumes "system_ok P opened posted s" and "spec_step (plugin_abs s) (a, r, out) (plugin_abs s)"
    and "ev_handles (a, r, out) = []"
  shows "call_result P opened posted s a (r, out, s)"
  by (rule unchanged_result [OF assms(1) _ _ _ _ assms(2,3)])
    (use assms(1) in \<open>simp_all add: system_ok_def same_config_def\<close>)

lemma listen_call:
  assumes "system_ok P opened posted s" and "room s" and "tags_left s"
  shows "\<exists>x. run_call P (Listen dev) s = Some (Ret x) \<and> call_result P opened posted s (Listen dev) x"
proof -
  have pl: "plugin_ok P opened posted s" and he: "has_eps s" and nt: "next_tag s < ULLONG_MAX"
    using assms(1) by (simp_all add: system_ok_def)
  note co = plugin_okD(1) [OF pl]
  show ?thesis
  proof (rule returns4E [OF psm2_nccl_listen_returns [OF co assms(2,3), of dev]], elim conjE)
    fix r c h s'
    assume e: "psm2_nccl_listen P dev s = Ret (r, c, h, s')" and ok: "comms_ok P opened s'"
      and cc: "control_calls P (world s) (world s')" and g: "same_globals (s\<lparr>next_tag := next_tag s'\<rparr>) s'"
      and r: "if r = ncclSuccess
       then c = Suc (allocs s) \<and> next_tag s' = next_tag s + 1 \<and>
         (\<exists>m. made_comm (use_shared_ep s \<noteq> 0) m \<and>
            comms s' = (comms s)(c \<mapsto> m\<lparr>tag := next_tag s\<rparr>) \<and>
            h = Some \<lparr>h_epid = epid m, h_tag = next_tag s\<rparr>)
       else r = ncclInternalError \<and> c = 0 \<and> h = None \<and> comms s' = comms s \<and>
         next_tag s' = next_tag s"
    note sc = same_configI(2) [OF g]
    show ?thesis
    proof (cases "r = ncclSuccess")
      case True
      with r obtain m where m: "made_comm (use_shared_ep s \<noteq> 0) m"
        and c: "c = Suc (allocs s)" and t: "next_tag s' = next_tag s + 1"
        and cs: "comms s' = (comms s)(c \<mapsto> m\<lparr>tag := next_tag s\<rparr>)"
        and h: "h = Some \<lparr>h_epid = epid m, h_tag = next_tag s\<rparr>" by auto
      note ms = made_comm_simps [OF m]
      have new: "comms s c = None"
        using co c heap_ok_fresh [of s] by (simp add: comms_ok_def)
      have "plugin_ok P opened posted s'"
        by (rule plugin_ok_add [OF pl ok cc new cs]) (simp add: ms)
      moreover have "plugin_abs s' = spec_open c (next_tag s) (plugin_abs s)\<lparr>sp_next := next_tag s + 1\<rparr>"
        using plugin_abs_open [OF cs] ms t by simp
      then have "spec_step (plugin_abs s) (Listen dev, r, Listener c h) (plugin_abs s')"
        using sp_listen [OF plugin_abs_fresh [OF new], of "the h" dev] h c True by simp
      moreover have "modes_ok s'" if "modes_ok s"
        by (rule modes_ok_add [OF cs that]) (simp_all add: ms same_configD(1) [OF sc])
      moreover have "has_eps s'" by (rule has_eps_add [OF cs he]) (simp add: ms)
      ultimately have "call_result P opened posted s (Listen dev) (r, Listener c h, s')"
        using h t next_tag_less [OF nt] assms(3)
        by (intro call_resultI [OF assms(1) _ sc]) (simp_all add: tags_left_def)
      then show ?thesis using e by simp
    next
      case False
      with r have h: "r = ncclInternalError" "c = 0" "h = None" and cs: "comms s' = comms s"
        and t: "next_tag s' = next_tag s" by simp_all
      have "plugin_ok P opened posted s'" by (rule plugin_ok_same [OF pl ok cc cs])
      from unchanged_result [OF assms(1) this sc cs t sp_listen_fail] show ?thesis
        using e h by simp
    qed
  qed
qed

lemma connect_call:
  assumes "system_ok P opened posted s" and "room s"
  shows "\<exists>x. run_call P (Connect dev h) s = Some (Ret x) \<and> call_result P opened posted s (Connect dev h) x"
proof -
  have pl: "plugin_ok P opened posted s" and he: "has_eps s" and nt: "next_tag s < ULLONG_MAX"
    using assms(1) by (simp_all add: system_ok_def)
  note co = plugin_okD(1) [OF pl]
  show ?thesis
  proof (rule returns3E [OF psm2_nccl_connect_returns [OF co assms(2), of dev h]], elim conjE)
    fix r c s'
    assume e: "psm2_nccl_connect P dev h s = Ret (r, c, s')" and ok: "comms_ok P opened s'"
      and cc: "control_calls P (world s) (world s')" and g: "same_globals s s'"
      and r: "if r = ncclSuccess
       then c = Suc (allocs s) \<and> (\<exists>cm. comms s' = (comms s)(c \<mapsto> cm) \<and>
         connected h (use_shared_ep s \<noteq> 0) cm)
       else r = ncclInternalError \<and> c = 0 \<and> comms s' = comms s"
    note sc = same_configI(1) [OF g]
    have t: "next_tag s' = next_tag s" using g by (simp add: same_globals_def)
    have "call_result P opened posted s (Connect dev h) (r, Comm c 0, s')"
    proof (cases "r = ncclSuccess")
      case True
      with r obtain m a where m: "made_comm (use_shared_ep s \<noteq> 0) m" and c: "c = Suc (allocs s)"
        and cs: "comms s' = (comms s)(c \<mapsto> m\<lparr>rem_epid := h_epid h, tag := h_tag h, rem_epaddr := a\<rparr>)"
        unfolding connected_def by auto
      note ms = made_comm_simps [OF m]
      have new: "comms s c = None"
        using co c heap_ok_fresh [of s] by (simp add: comms_ok_def)
      have "plugin_ok P opened posted s'"
        by (rule plugin_ok_add [OF pl ok cc new cs]) (simp add: ms)
      moreover have "plugin_abs s' = spec_open c (h_tag h) (plugin_abs s)"
        using plugin_abs_open [OF cs] ms t by (simp add: spec_open_def)
      then have "spec_step (plugin_abs s) (Connect dev h, r, Comm c 0) (plugin_abs s')"
        using sp_connect [OF plugin_abs_fresh [OF new], of dev h] c True by simp
      moreover have "modes_ok s'" if "modes_ok s"
        by (rule modes_ok_add [OF cs that]) (simp_all add: ms same_configD(1) [OF sc])
      moreover have "has_eps s'" by (rule has_eps_add [OF cs he]) (simp add: ms)
      ultimately show ?thesis
        using t nt by (intro call_resultI [OF assms(1) _ sc]) simp_all
    next
      case False
      with r have f: "r = ncclInternalError" "c = 0" and cs: "comms s' = comms s" by simp_all
      have "plugin_ok P opened posted s'" by (rule plugin_ok_same [OF pl ok cc cs])
      from unchanged_result [OF assms(1) this sc cs t sp_connect_fail] show ?thesis using f by simp
    qed
    then show ?thesis using e by (simp add: psm2_nccl_connect_v8_def)
  qed
qed

lemma fini_call:
  assumes "system_ok P opened posted s" and "live c s" and "idle c s"
    and "a = CloseSend c \<or> a = CloseRecv c"
  shows "\<exists>x. obind (psm2comm_fini P c s) (\<lambda>(r, s'). Ret (r, NoOut, s')) = Ret x \<and>
    call_result P opened posted s a x"
proof -
  have pl: "plugin_ok P opened posted s" and he: "has_eps s" and nt: "next_tag s < ULLONG_MAX"
    using assms(1) by (simp_all add: system_ok_def)
  note co = plugin_okD(1) [OF pl]
  obtain cm where cm: "comms s c = Some cm" using assms(2) by (auto simp: live_def)
  have "ep_inv (opened (world s)) s" using co by (simp add: comms_ok_def)
  from psm2comm_fini_returns [OF plugin_okD(6) [OF pl] this cm]
  obtain r s' where e: "psm2comm_fini P c s = Ret (r, s')" by (rule returns2E)
  note f = psm2comm_fini_ok [OF co cm e]
  note g = comm_step_facts [OF f(2)]
  note sc = same_configI(1) [OF g(1)]
  have t: "next_tag s' = next_tag s" using g(1) by (simp add: same_globals_def)
  have "plugin_ok P opened posted s'"
    by (rule plugin_ok_remove [OF pl f(1) g(2) f(3) assms(3)])
  moreover have "spec_step (plugin_abs s) (a, r, NoOut) (plugin_abs s')"
    using assms(4) cm plugin_abs_close [OF f(3) t] by (auto intro: sp_close_send sp_close_recv)
  moreover have "modes_ok s'" if "modes_ok s"
    using that f(3) same_configD(1) [OF sc] by (simp add: modes_ok_def)
  moreover have "has_eps s'" using he f(3) by (simp add: has_eps_def)
  ultimately have "call_result P opened posted s a (r, NoOut, s')"
    using t nt assms(4) by (intro call_resultI [OF assms(1) _ sc]) auto
  then show ?thesis using e by simp
qed

text \<open>The data calls change requests only.\<close>

lemma data_result:
  assumes "system_ok P opened posted s" and "plugin_ok P opened posted s'" and "same_but_reqs s s'"
    and "spec_step (plugin_abs s) (a, r, out) (plugin_abs s\<lparr>sp_req := req_view s'\<rparr>)"
    and "ev_handles (a, r, out) = []"
  shows "call_result P opened posted s a (r, out, s')"
proof -
  have "same_globals s s'" using assms(3) by (simp add: same_but_reqs_def)
  then have g: "use_shared_ep s' = use_shared_ep s" "next_tag s' = next_tag s"
    by (simp_all add: same_globals_def)
  have eq: "\<exists>cm. comms s c = Some cm \<and> ep cm = ep cm' \<and> has_shared_ep cm = has_shared_ep cm'"
    if cm: "comms s' c = Some cm'" for c cm'
  proof -
    obtain rs where "comms s c = Some (cm'\<lparr>requests := rs\<rparr>)"
      using same_but_reqs_comm [OF same_but_reqs_sym [OF assms(3)] cm] .
    then show ?thesis by simp
  qed
  have "has_eps s" and "next_tag s < ULLONG_MAX" using assms(1) by (simp_all add: system_ok_def)
  then have "has_eps s'" using eq unfolding has_eps_def by metis
  moreover have "modes_ok s'" if "modes_ok s" using that eq g(1) unfolding modes_ok_def by metis
  moreover have "spec_step (plugin_abs s) (a, r, out) (plugin_abs s')"
    using assms(4) plugin_abs_reqs [OF assms(3)] by simp
  ultimately show ?thesis
    using g \<open>next_tag s < ULLONG_MAX\<close> assms(5)
    by (intro call_resultI [OF assms(1,2) same_configI(1) [OF \<open>same_globals s s'\<close>]]) simp_all
qed

lemma send_result:
  assumes "system_ok P opened posted s" and "plugin_ok P opened posted s'" and "same_but_reqs s s'"
    and "post_result posted c ReqSend l s r ro s'"
  shows "call_result P opened posted s (ISend c d sz tg) (r, Request ro, s')"
proof (rule data_result [OF assms(1-3)])
  show "spec_step (plugin_abs s) (ISend c d sz tg, r, Request ro) (plugin_abs s\<lparr>sp_req := req_view s'\<rparr>)"
  proof (cases ro)
    case None
    then have "req_view s' = req_view s" using post_result_view [OF assms(4)] by simp
    then have same: "plugin_abs s\<lparr>sp_req := req_view s'\<rparr> = plugin_abs s" by (simp add: plugin_abs_def)
    have "spec_step (plugin_abs s) (ISend c d sz tg, r, Request None) (plugin_abs s)"
      by (rule sp_send_none) (use assms(4) None in \<open>auto simp: post_result_def simp del: req_view.simps split: if_splits\<close>)
    then show ?thesis using None same by simp
  next
    case (Some p)
    then show ?thesis
      using assms(4) sp_send [of p c "plugin_abs s" d sz tg] by (simp add: post_result_def)
  qed
qed simp

lemma recv_result:
  assumes "system_ok P opened posted s" and "plugin_ok P opened posted s'" and "same_but_reqs s s'"
    and "post_result posted c ReqRecv l s r ro s'"
  shows "call_result P opened posted s (IRecv c n ds szs tags mhs) (r, Request ro, s')"
proof (rule data_result [OF assms(1-3)])
  show "spec_step (plugin_abs s) (IRecv c n ds szs tags mhs, r, Request ro)
      (plugin_abs s\<lparr>sp_req := req_view s'\<rparr>)"
  proof (cases ro)
    case None
    then have "req_view s' = req_view s" using post_result_view [OF assms(4)] by simp
    then have same: "plugin_abs s\<lparr>sp_req := req_view s'\<rparr> = plugin_abs s" by (simp add: plugin_abs_def)
    have "spec_step (plugin_abs s) (IRecv c n ds szs tags mhs, r, Request None) (plugin_abs s)"
      by (rule sp_recv_none) (use assms(4) None in \<open>auto simp: post_result_def simp del: req_view.simps split: if_splits\<close>)
    then show ?thesis using None same by simp
  next
    case (Some p)
    then show ?thesis
      using assms(4) sp_recv [of p c "plugin_abs s" n ds szs tags mhs] by (simp add: post_result_def)
  qed
qed simp

lemma test_free:
  assumes "req_view s p = Some Free"
  shows "psm2_nccl_test P p has_size s = Some (Ret (ncclInternalError, 0, None, s))"
proof -
  obtain c i where p: "p = (c, i)" by fastforce
  from assms obtain cm where "comms s c = Some cm" and "i < length (requests cm)"
    and "used (requests cm ! i) = 0"
    by (auto simp: p abs_req_def split: option.splits if_splits)
  then show ?thesis by (simp add: psm2_nccl_test_def p)
qed

lemma test_done_world: "test_done P p hs rc r s = Ret (x, d, sz, s') \<Longrightarrow> world s' = world s"
  by (auto simp: test_done_def put_req_def outcome_simps store_req_world Let_def split: if_splits
      simp del: store_req.simps load_req.simps)

text \<open>The call polls the queue of the request's communicator, and makes no other call.\<close>

lemma test_polls:
  assumes "reqs_ok s" and "comms s c = Some cm"
    and "psm2_nccl_test P (c, i) has_size s = Some (Ret (r, d, sz, s'))"
    and "req_view s (c, i) = Some st" and "st \<noteq> Free"
  obtains rc s1 where "mq_progress_loop P (mq cm) s = Some (Ret (rc, s1))" and "world s' = world s1"
proof -
  have i: "i < length (requests cm)" and st: "st = abs_req (requests cm ! i)"
    using assms(2,4) by (auto split: if_splits)
  let ?r = "requests cm ! i"
  have ld: "load_req (c, i) s = Ret ?r" using assms(2) i by simp
  have u: "used ?r \<noteq> 0" using st assms(5) by (auto simp: abs_req_def)
  have "r_mq ?r = mq cm"
    using reqs_okD(3) [OF assms(1,2) i] u by (auto simp: req_wf_def zero_req_def)
  then show thesis
    using assms(3) ld u that
    by (auto simp: psm2_nccl_test_def obind_eq_Ret dest!: test_done_world split: if_splits)
qed

lemma test_call:
  assumes "system_ok P opened posted s" and "req_view s p = Some st"
    and "has_size \<or> req_kind st \<noteq> ReqRecv"
  shows "\<exists>x. run_call P (Test p has_size) s = Some (Ret x) \<and>
    call_result P opened posted s (Test p has_size) x"
proof (cases "st = Free")
  case True
  have "spec_step (plugin_abs s) (Test p has_size, ncclInternalError, Tested 0 None) (plugin_abs s)"
    by (rule sp_test_free) (use assms(2) True in simp)
  then show ?thesis
    using nothing_result [OF assms(1)] test_free [of s p P has_size] assms(2) True by simp
next
  case False
  have pl: "plugin_ok P opened posted s" using assms(1) by (simp add: system_ok_def)
  from psm2_nccl_test_returns [OF pl assms(2) False assms(3)] obtain d sz s' s1 sts st1
    where e: "psm2_nccl_test P p has_size s = Some (Ret (ncclSuccess, d, sz, s'))"
      and ok: "plugin_ok P opened posted s'" "same_but_reqs s s'"
      and f: "fold spec_end sts (req_view s) p = Some st1"
      and r: "spec_report st1 = ((d, sz), the (req_view s' p))"
      and v: "req_view s' = (fold spec_end sts (req_view s))(p := req_view s' p)"
      and n: "req_view s' p \<noteq> None" by metis
  have "req_view s' = (fold spec_end sts (req_view s))(p \<mapsto> the (req_view s' p))"
    using v n by (metis option.exhaust_sel)
  then have "spec_step (plugin_abs s) (Test p has_size, ncclSuccess, Tested d sz)
      (plugin_abs s\<lparr>sp_req := req_view s'\<rparr>)"
    using sp_test [of "plugin_abs s" p st "fold spec_end sts (req_view s)", OF _ False _ f r, of has_size]
      assms(2) some_end_fold by simp
  from data_result [OF assms(1) ok this] show ?thesis using e by simp
qed

text \<open>The device queries change strings and the outside world.\<close>

lemma query_result:
  assumes "system_ok P opened posted s" and "same_plugin s s'" and "heap_ok s'"
    and "sys_calls P (world s) (world s')"
    and "spec_step (plugin_abs s) (a, r, out) (plugin_abs s)" and "ev_handles (a, r, out) = []"
  shows "call_result P opened posted s a (r, out, s')"
proof -
  have pl: "plugin_ok P opened posted s" using assms(1) by (simp add: system_ok_def)
  note co = plugin_okD(1) [OF pl]
  note cc = sys_calls_control [OF assms(4)]
  have eq: "comms s' = comms s" "shared_ep s' = shared_ep s" "next_tag s' = next_tag s"
    "shared_ep_multi_policy s' = shared_ep_multi_policy s"
    using assms(2) by (simp_all add: same_plugin_def)
  have op: "opened (world s') = opened (world s)"
    by (rule sys_calls_opened [OF plugin_okD(6) [OF pl] assms(4)])
  have "comms_ok P opened s'"
    using co eq op assms(3) by (simp add: comms_ok_def policy_ok_def ep_inv_def)
  then have "plugin_ok P opened posted s'" using plugin_ok_same [OF pl _ cc eq(1)] by blast
  then show ?thesis
    using unchanged_result [OF assms(1) _ same_configI(3) [OF assms(2)] eq(1,3) assms(5,6)] by blast
qed

text \<open>A further initialisation, with any result.\<close>

lemma init_call:
  assumes "system_ok P opened posted s" and "f = pluginLogFunction s"
  shows "\<exists>x. run_call P (Init f) s = Some (Ret x) \<and> call_result P opened posted s (Init f) x"
proof -
  have pl: "plugin_ok P opened posted s" and he: "has_eps s" and nt: "next_tag s < ULLONG_MAX"
    and cf: "config_ok s" and rp: "realpath_contract P"
    using assms(1) by (simp_all add: system_ok_def)
  note co = plugin_okD(1) [OF pl]
  obtain r s' where i: "psm2_nccl_init P f s = (r, s')" by fastforce
  then have s': "s' = snd (psm2_nccl_init P f s)" and r: "r = fst (psm2_nccl_init P f s)" by simp_all
  have eq: "comms s' = comms s" "strs s' = strs s" "allocs s' = allocs s" "next_tag s' = next_tag s"
    "shared_ep s' = shared_ep s"
    unfolding s' using psm2_nccl_init_frame [of P f s] by simp_all
  have cf': "config_ok s'" unfolding s' by (rule psm2_nccl_init_config_ok [OF cf])
  have op: "opened (world s') = opened (world s)"
    unfolding s' by (rule init_opened [OF plugin_okD(6) [OF pl]])
  have "comms_ok P opened s'"
    using co eq op cf' by (simp add: comms_ok_def policy_ok_def ep_inv_def heap_ok_def config_ok_def)
  then have "plugin_ok P opened posted s'"
    using plugin_ok_same [OF pl _ _ eq(1)] init_control [of P s f] unfolding s' by blast
  moreover have "has_eps s'" using he eq by (simp add: has_eps_def)
  ultimately have "system_ok P opened posted s'" using cf' rp nt eq by (simp add: system_ok_def)
  moreover have "pluginLogFunction s' = pluginLogFunction s"
    unfolding s' assms(2) by (rule init_log_kept)
  moreover have "same_conf s s' \<and> modes_ok s'" if "settled P s" and "modes_ok s"
    using that(2) init_conf_kept [OF that(1)] eq(1) unfolding s' assms(2)
    by (simp add: same_conf_def modes_ok_def)
  moreover have "r = ncclSuccess \<or> r = ncclInternalError" unfolding r using init_code by blast
  then have "spec_step (plugin_abs s) (Init f, r, NoOut) (plugin_abs s')"
    using sp_init plugin_abs_same [OF eq(1,4)] by simp
  ultimately show ?thesis using i eq by (simp add: call_result_def)
qed

lemma call_keeps:
  assumes "system_ok P opened posted s" and "allowed s a"
  shows "\<exists>x. run_call P a s = Some (Ret x) \<and> call_result P opened posted s a x"
proof -
  have pl: "plugin_ok P opened posted s" using assms(1) by (simp add: system_ok_def)
  note same = nothing_result [OF assms(1)]
  show ?thesis
  proof (cases a)
    case (Init f)
    then show ?thesis using init_call [OF assms(1)] assms(2) by simp
  next
    case Devices
    obtain r n s' where d: "psm2_nccl_devices P s = (r, n, s')" by (metis surj_pair)
    have st: "spec_step (plugin_abs s) (Devices, r, NDevs n) (plugin_abs s)"
      by (rule sp_devices) (use d in \<open>auto simp: psm2_nccl_devices_def Let_def split: prod.splits if_splits\<close>)
    have "call_result P opened posted s a (r, NDevs n, s\<lparr>world := world s'\<rparr>)"
      unfolding Devices by (rule query_result [OF assms(1) _ _ _ st])
        (use plugin_okD(1) [OF pl] devices_sys(1) [OF d] in \<open>simp_all add: comms_ok_def\<close>)
    then show ?thesis using Devices d devices_sys(2) [OF d] by simp
  next
    case (GetProperties dev props)
    then have "v8_pciPath props = 0" using assms(2) by simp
    then obtain r props' s' where p: "psm2_nccl_getProperties P dev props s = Ret (r, props', s')"
      and "same_plugin s s'" and "heap_ok s'"
      using getProperties_returns [of s P props dev] assms(1) pl
      by (auto simp: system_ok_def plugin_ok_def comms_ok_def elim: returns3E)
    from query_result [OF assms(1) this(2,3) getProperties_sys [OF p] sp_properties]
    show ?thesis using GetProperties p by simp
  next
    case (Listen dev)
    then show ?thesis using listen_call [OF assms(1)] assms(2) by simp
  next
    case (Connect dev h)
    then show ?thesis using connect_call [OF assms(1)] assms(2) by simp
  next
    case (Accept c)
    then show ?thesis
      using same [OF sp_accept] by (simp add: psm2_nccl_accept_v8_def psm2_nccl_accept_def)
  next
    case (RegMr c d sz type mh)
    then show ?thesis using same [OF sp_reg] by (simp add: psm2_nccl_regMr_v8_def)
  next
    case (RegMrDmaBuf c d sz type off fd mh)
    then show ?thesis using same [OF sp_reg_dmabuf] by (simp add: psm2_nccl_regMrDmaBuf_def)
  next
    case (DeregMr c mh)
    then show ?thesis using same [OF sp_dereg] by (simp add: psm2_nccl_deregMr_def)
  next
    case (ISend c d sz tg)
    then obtain cm where cm: "comms s c = Some cm" and sz: "0 \<le> sz" "sz \<le> INT_MAX"
      using assms(2) by (auto simp: live_def)
    from psm2_nccl_isend_returns [OF pl cm sz, of d tg 0]
    obtain r ro s' where e: "psm2_nccl_isend P c d sz tg 0 s = Ret (r, ro, s')"
      and "plugin_ok P opened posted s' \<and> same_but_reqs s s' \<and>
        post_result posted c ReqSend (int_to_u32 sz) s r ro s'" by (rule returns3E)
    then have "call_result P opened posted s a (r, Request ro, s')"
      unfolding ISend by (blast intro: send_result [OF assms(1)])
    then show ?thesis using ISend e by simp
  next
    case (IRecv c n ds szs tags mhs)
    then obtain cm d ds' sz szs' mh mhs' where cm: "comms s c = Some cm" and n: "n \<le> 1"
      and l: "ds = d # ds'" "szs = sz # szs'" "mhs = mh # mhs'" and sz: "0 \<le> sz" "sz \<le> INT_MAX"
      using assms(2) by (auto simp: live_def neq_Nil_conv)
    from psm2_nccl_irecv_v4_returns [OF pl cm sz, of d mh]
    obtain r ro s' where e: "psm2_nccl_irecv_v4 P c d sz mh s = Ret (r, ro, s')"
      and "plugin_ok P opened posted s' \<and> same_but_reqs s s' \<and>
        post_result posted c ReqRecv (int_to_u32 sz) s r ro s'" by (rule returns3E)
    then have "call_result P opened posted s a (r, Request ro, s')"
      unfolding IRecv by (blast intro: recv_result [OF assms(1)])
    then show ?thesis using IRecv n l e
      by (simp add: psm2_nccl_irecv_def NCCL_NET_PSM2_MAX_RECVS_def)
  next
    case (IFlush c n ds szs mhs request)
    then have "n \<le> 1" "ds \<noteq> []" "szs \<noteq> []" "mhs \<noteq> []" using assms(2) by simp_all
    then have "run_call P a s = Some (Ret (ncclSuccess, Flushed (if request then Some None else None), s))"
      unfolding IFlush by (auto simp: psm2_nccl_iflush_def psm2_nccl_iflush_v4_def
          NCCL_NET_PSM2_MAX_RECVS_def neq_Nil_conv)
    then show ?thesis using same [OF sp_flush] IFlush by simp
  next
    case (Test p has_size)
    then obtain st where "req_view s p = Some st" and "has_size \<or> req_kind st \<noteq> ReqRecv"
      using assms(2) by (auto split: option.splits simp del: req_view.simps)
    from test_call [OF assms(1) this] show ?thesis using Test by simp
  next
    case (CloseSend c)
    then have "live c s" and "idle c s" using assms(2) by simp_all
    from fini_call [OF assms(1) this, of a] show ?thesis using CloseSend
      by (auto simp: psm2_nccl_closeSend_def)
  next
    case (CloseRecv c)
    then have "live c s" and "idle c s" using assms(2) by simp_all
    from fini_call [OF assms(1) this, of a] show ?thesis using CloseRecv
      by (auto simp: psm2_nccl_closeRecv_def)
  next
    case (CloseListen c)
    then show ?thesis using same [OF sp_close_listen] by (simp add: psm2_nccl_closeListen_def)
  qed
qed

section \<open>The plugin refines the abstract machine\<close>

lemma plugin_step_result:
  assumes "system_ok P opened posted s" and "plugin_step P s (a, r, out) s'"
  shows "call_result P opened posted s a (r, out, s')"
proof -
  have "allowed s a" and e: "run_call P a s = Some (Ret (r, out, s'))"
    using assms(2) by (simp_all add: plugin_step_def)
  from call_keeps [OF assms(1) this(1)] e show ?thesis by auto
qed

lemma plugin_step_ok:
  assumes "system_ok P opened posted s" and "plugin_step P s e s'"
  shows "system_ok P opened posted s'" and "pluginLogFunction s' = pluginLogFunction s"
    and "settled P s \<and> modes_ok s \<Longrightarrow> settled P s' \<and> modes_ok s' \<and> same_conf s s'"
    and "spec_step (plugin_abs s) e (plugin_abs s')"
    and "case ev_handles e of [] \<Rightarrow> next_tag s' = next_tag s
      | h # _ \<Rightarrow> h_tag h = next_tag s \<and> next_tag s < next_tag s'"
proof -
  obtain a r out where e: "e = (a, r, out)" by (cases e)
  note c = plugin_step_result [OF assms(1) assms(2) [unfolded e], unfolded call_result_def prod.case]
  show "system_ok P opened posted s'" and "pluginLogFunction s' = pluginLogFunction s"
    and "spec_step (plugin_abs s) e (plugin_abs s')"
    using c unfolding e by blast+
  show "settled P s' \<and> modes_ok s' \<and> same_conf s s'" if "settled P s \<and> modes_ok s"
    using c that settled_cong by blast
  show "case ev_handles e of [] \<Rightarrow> next_tag s' = next_tag s
      | h # _ \<Rightarrow> h_tag h = next_tag s \<and> next_tag s < next_tag s'"
    using c unfolding e by blast
qed

interpretation plugin: refinement_map "system_ok P opened posted" "plugin_step P" plugin_abs spec_step
  for P :: "'w platform" and opened posted
  by unfold_locales (rule plugin_step_ok(1) plugin_step_ok(4); assumption)+

section \<open>Reachable states\<close>

text \<open>The contracts, and what the library has open and posted when it is loaded: nothing.\<close>

definition library_ok ::
  "'w platform \<Rightarrow> ('w \<Rightarrow> addr set) \<Rightarrow> ('w \<Rightarrow> (req_ptr \<times> 32 word) multiset) \<Rightarrow> 'w \<Rightarrow> bool" where
  "library_ok P opened posted w0 \<longleftrightarrow>
     ep_contract P opened \<and> mq_contract P posted \<and> consts_ok P \<and> realpath_contract P \<and>
     opened w0 = {} \<and> posted w0 = {#}"

lemma init_system_ok:
  assumes "library_ok P opened posted w0"
    and "psm2_nccl_init P f (initial_plugin w0) = (ncclSuccess, s)"
  shows "system_ok P opened posted s"
proof -
  have lib: "ep_contract P opened" "mq_contract P posted" "consts_ok P" "opened w0 = {}"
    "posted w0 = {#}" "realpath_contract P"
    using assms(1) by (simp_all add: library_ok_def)
  have s: "s = snd (psm2_nccl_init P f (initial_plugin w0))" using assms(2) by simp
  have fr: "comms s = Map.empty" "strs s = Map.empty" "allocs s = 0" "next_tag s = 0"
    "shared_ep s = zero_shared_ep"
    unfolding s using psm2_nccl_init_frame [of P f "initial_plugin w0"] by simp_all
  have "config_ok (initial_plugin w0)"
    by (simp add: config_ok_def is_bit_def log_ok_def initial_plugin_def)
  then have co: "config_ok s" unfolding s by (rule psm2_nccl_init_config_ok)
  then have "policy_ok s" by (simp add: config_ok_def policy_ok_def)
  moreover have op: "opened (world s) = {}"
    unfolding s using init_opened [OF lib(1), of f "initial_plugin w0"] lib(4) by simp
  moreover have "ep_inv (opened (world s)) s"
    using fr by (simp add: ep_inv_def sharers_def zero_shared_ep_def sharing_ok_def private_ok_def)
  moreover have "heap_ok s" using fr by (simp add: heap_ok_def)
  ultimately have "comms_ok P opened s"
    using lib(1) by (simp add: comms_ok_def no_stray_ep_def)
  moreover have "posted (world s) \<subseteq># {#}"
    using control_calls_posted [OF lib(2) init_control [of P "initial_plugin w0" f]] lib(5)
    unfolding s by simp
  then have "posted_ok s (posted (world s))" by (simp add: posted_ok_def)
  moreover have "reqs_ok s" using fr by (simp add: reqs_ok_def)
  ultimately have "plugin_ok P opened posted s" using lib(2,3) by (simp add: plugin_ok_def)
  then show ?thesis
    using fr co lib(6) by (simp add: system_ok_def has_eps_def ULLONG_MAX_def)
qed

text \<open>The abstract machine starts where the plugin does.\<close>

lemma init_abs:
  assumes "psm2_nccl_init P f (initial_plugin w0) = (ncclSuccess, s)"
  shows "plugin_abs s = spec_start"
proof -
  have "s = snd (psm2_nccl_init P f (initial_plugin w0))" using assms by simp
  then have eq: "comms s = Map.empty" "next_tag s = 0"
    using psm2_nccl_init_frame [of P f "initial_plugin w0"] by simp_all
  have "req_view s p = None" for p using eq by (cases p) simp
  then show ?thesis using eq by (auto simp: plugin_abs_def spec_start_def)
qed

lemma started_runs:
  assumes "library_ok P opened posted w0"
    and "psm2_nccl_init P f (initial_plugin w0) = (ncclSuccess, s)" and "runs (plugin_step P) s es s'"
  shows "runs spec_step spec_start es (plugin_abs s')"
  using plugin.runs_refine [OF assms(3) init_system_ok [OF assms(1,2)]] init_abs [OF assms(2)] by simp

lemma reachable_ok:
  assumes "reachable P f w0 hs s" and "library_ok P opened posted w0"
  shows "system_ok P opened posted s \<and> pluginLogFunction s = f \<and>
    (env_fixed P \<longrightarrow> settled P s \<and> modes_ok s \<and>
       same_conf (snd (psm2_nccl_init P f (initial_plugin w0))) s) \<and>
    distinct (map h_tag hs) \<and> (\<forall>h \<in> set hs. h_tag h < next_tag s)"
  using assms(1)
proof (induction rule: reachable.induct)
  case (r_init s)
  have "s = snd (psm2_nccl_init P f (initial_plugin w0))" using r_init by simp
  then have "modes_ok s" using psm2_nccl_init_frame [of P f "initial_plugin w0"] by (simp add: modes_ok_def)
  then show ?case
    using init_system_ok [OF assms(2) r_init] init_log_function [OF r_init] init_settles [OF r_init] r_init
    by simp
next
  case (r_call hs s e s')
  then have sys: "system_ok P opened posted s" by blast
  note st = plugin_step_ok [OF sys r_call.hyps(2)]
  have hs: "ev_handles e = [] \<or> (\<exists>h. ev_handles e = [h])" by (cases e rule: ev_handles.cases) auto
  have "distinct (map h_tag (ev_handles e @ hs)) \<and> (\<forall>h \<in> set (ev_handles e @ hs). h_tag h < next_tag s')"
    using hs r_call.IH st(5) by (auto intro: order.strict_trans [of _ "next_tag s"])
  moreover have "settled P s' \<and> modes_ok s' \<and> same_conf (snd (psm2_nccl_init P f (initial_plugin w0))) s'"
    if "env_fixed P"
    using st(3) r_call.IH that same_conf_trans by blast
  ultimately show ?case using st r_call.IH by simp
qed

text \<open>Reachable states are those that runs lead to.\<close>

lemma runs_reachable:
  "runs (plugin_step P) s es s' \<Longrightarrow> reachable P f w0 hs s \<Longrightarrow>
     reachable P f w0 (concat (rev (map ev_handles es)) @ hs) s'"
proof (induction arbitrary: hs rule: runs.induct)
  case (runs_more s e s1 es s2)
  from runs_more.IH [OF r_call [OF runs_more.prems runs_more.hyps(1)]] show ?case by simp
qed simp

end
