(* ===== verification/Lib_Protocol.thy ===== *)
theory Lib_Protocol
  imports Plugin_System
begin

text \<open>
  The protocol of libpsm2: which calls its documentation allows in which order, as a machine
  over the calls that are made, and the same platform with every call recorded.
  \<open>Lib_Steps\<close> shows that the plugin keeps to the protocol.
\<close>

section \<open>The protocol\<close>

text \<open>
  The calls with what matters of their results: whether \<open>psm2_init\<close> succeeded, the endpoint
  opened, the queue made, and the finished request that was found, if any.
\<close>

datatype lib_event =
    LInit bool
  | LOpen "addr option"
  | LConnect addr
  | LMqInit addr "addr option"
  | LMqFinalize addr
  | LClose addr
  | LSend addr
  | LRecv addr
  | LPeek addr "addr option"
  | LTest addr

text \<open>
  What is known of the library from the calls: whether it is initialised, the endpoints that
  are open, each queue in use with its endpoint (once for each time it was made), and the request that was
  found finished and not yet tested.
\<close>

record lib_state =
  lib_ready :: bool
  lib_eps :: "addr set"
  lib_queues :: "(addr \<times> addr) multiset"
  lib_found :: "addr option"

definition lib_start :: lib_state where
  "lib_start = \<lparr>lib_ready = False, lib_eps = {}, lib_queues = {#}, lib_found = None\<rparr>"

text \<open>
  A request that was found finished must be tested by the next call: while one is found, the
  machine has no other step. So a poll that finds a request and is followed by anything but
  the test of that request is not a run.
\<close>

inductive lib_step :: "lib_state \<Rightarrow> lib_event \<Rightarrow> lib_state \<Rightarrow> bool" where
  ls_init: "lib_found L = None \<Longrightarrow> lib_step L (LInit ok) (L\<lparr>lib_ready := lib_ready L \<or> ok\<rparr>)"
| ls_open: "lib_found L = None \<Longrightarrow> lib_ready L \<Longrightarrow> e \<noteq> 0 \<Longrightarrow> e \<notin> lib_eps L \<Longrightarrow>
    lib_step L (LOpen (Some e)) (L\<lparr>lib_eps := insert e (lib_eps L)\<rparr>)"
| ls_open_fail: "lib_found L = None \<Longrightarrow> lib_ready L \<Longrightarrow> lib_step L (LOpen None) L"
| ls_connect: "lib_found L = None \<Longrightarrow> e \<in> lib_eps L \<Longrightarrow> lib_step L (LConnect e) L"
| ls_mq_init: "lib_found L = None \<Longrightarrow> e \<in> lib_eps L \<Longrightarrow> q \<noteq> 0 \<Longrightarrow>
    lib_step L (LMqInit e (Some q)) (L\<lparr>lib_queues := add_mset (e, q) (lib_queues L)\<rparr>)"
| ls_mq_init_fail: "lib_found L = None \<Longrightarrow> e \<in> lib_eps L \<Longrightarrow> lib_step L (LMqInit e None) L"
| ls_mq_finalize: "lib_found L = None \<Longrightarrow> (e, q) \<in># lib_queues L \<Longrightarrow>
    lib_step L (LMqFinalize q) (L\<lparr>lib_queues := lib_queues L - {#(e, q)#}\<rparr>)"
| ls_close: "lib_found L = None \<Longrightarrow> e \<in> lib_eps L \<Longrightarrow> \<forall>q. (e, q) \<notin># lib_queues L \<Longrightarrow>
    lib_step L (LClose e) (L\<lparr>lib_eps := lib_eps L - {e}\<rparr>)"
| ls_send: "lib_found L = None \<Longrightarrow> (e, q) \<in># lib_queues L \<Longrightarrow> lib_step L (LSend q) L"
| ls_recv: "lib_found L = None \<Longrightarrow> (e, q) \<in># lib_queues L \<Longrightarrow> lib_step L (LRecv q) L"
| ls_peek: "lib_found L = None \<Longrightarrow> (e, q) \<in># lib_queues L \<Longrightarrow>
    lib_step L (LPeek q h) (L\<lparr>lib_found := h\<rparr>)"
| ls_test: "lib_found L = Some h \<Longrightarrow> lib_step L (LTest h) (L\<lparr>lib_found := None\<rparr>)"

lemma found_tested_next:
  assumes "runs lib_step L (tr1 @ LPeek q (Some h) # tr2) L'" and "lib_found L' = None"
  shows "\<exists>tr3. tr2 = LTest h # tr3"
proof -
  from assms(1) obtain L1 where "runs lib_step L1 (LPeek q (Some h) # tr2) L'" by (rule runs_split)
  then obtain L2 where "lib_step L1 (LPeek q (Some h)) L2" and r: "runs lib_step L2 tr2 L'"
    by (rule runs_ConsE)
  then have f: "lib_found L2 = Some h" by (auto elim: lib_step.cases)
  from r show ?thesis
  proof (cases rule: runs.cases)
    case runs_none
    then show ?thesis using f assms(2) by simp
  next
    case (runs_more ev L3 tr3)
    from runs_more(2) f have "ev = LTest h" by (auto elim: lib_step.cases)
    then show ?thesis using runs_more(1) by simp
  qed
qed

section \<open>Calls and their labels\<close>

inductive lib_call :: "'w platform \<Rightarrow> 'w \<Rightarrow> lib_event \<Rightarrow> 'w \<Rightarrow> bool" for P where
  lc_init: "psm2_init P ma mi w = (rc, w') \<Longrightarrow> lib_call P w (LInit (rc = PSM2_OK P)) w'"
| lc_open: "psm2_ep_open P u opts w = (rc, e, i, w') \<Longrightarrow>
    lib_call P w (LOpen (if rc = PSM2_OK P then Some e else None)) w'"
| lc_connect: "psm2_ep_connect P e i m t w = (rc, err, a, w') \<Longrightarrow> lib_call P w (LConnect e) w'"
| lc_mq_init: "psm2_mq_init P e om w = (rc, q, w') \<Longrightarrow>
    lib_call P w (LMqInit e (if rc = PSM2_OK P then Some q else None)) w'"
| lc_mq_finalize: "psm2_mq_finalize P q w = (rc, w') \<Longrightarrow> lib_call P w (LMqFinalize q) w'"
| lc_close: "psm2_ep_close P e m t w = (rc, w') \<Longrightarrow> lib_call P w (LClose e) w'"
| lc_send: "psm2_mq_isend P q a f t d l c w = (rc, h, w') \<Longrightarrow> lib_call P w (LSend q) w'"
| lc_recv: "psm2_mq_irecv P q t ts f d l c w = (rc, h, w') \<Longrightarrow> lib_call P w (LRecv q) w'"
| lc_peek: "psm2_mq_ipeek P q w = (rc, h, w') \<Longrightarrow>
    lib_call P w (LPeek q (if rc = PSM2_OK P then Some h else None)) w'"
| lc_test: "psm2_mq_test P h w = (rc, st, w') \<Longrightarrow> lib_call P w (LTest h) w'"

text \<open>A sequence of calls, each of them allowed by the protocol.\<close>

inductive lib_calls :: "'w platform \<Rightarrow> lib_state \<Rightarrow> 'w \<Rightarrow> lib_state \<Rightarrow> 'w \<Rightarrow> bool" for P where
  lib_none: "lib_calls P L w L w"
| lib_sys: "lib_calls P L w L1 w1 \<Longrightarrow> sys_call P w1 w2 \<Longrightarrow> lib_calls P L w L1 w2"
| lib_more: "lib_calls P L w L1 w1 \<Longrightarrow> lib_call P w1 e w2 \<Longrightarrow> lib_step L1 e L2 \<Longrightarrow>
    lib_calls P L w L2 w2"

lemmas lib_one = lib_more [OF lib_none]

lemma lib_calls_trans:
  assumes "lib_calls P L w L1 w1" and "lib_calls P L1 w1 L2 w2"
  shows "lib_calls P L w L2 w2"
  using assms(2,1) by (induction rule: lib_calls.induct) (blast intro: lib_calls.intros)+

lemma sys_calls_lib: "sys_calls P w w' \<Longrightarrow> lib_calls P L w L w'"
  by (induction rule: rtranclp_induct) (blast intro: lib_calls.intros)+

section \<open>Recording the calls\<close>

text \<open>
  The same platform over worlds with a list of the calls made so far, the last one at the
  end. Nothing else differs: each function calls the one of \<open>P\<close> and records the call.
\<close>

definition traced :: "'w platform \<Rightarrow> ('w \<times> lib_event list) platform" where
  "traced P = \<lparr>
     ndebug = ndebug P,
     alloc_ok = alloc_ok P,
     getenv = (\<lambda>n (w, tr). getenv P n w),
     os_open = (\<lambda>p (w, tr). case os_open P p w of (fd, w') \<Rightarrow> (fd, w', tr)),
     os_read = (\<lambda>fd n (w, tr). case os_read P fd n w of (k, bs, w') \<Rightarrow> (k, bs, w', tr)),
     os_close = (\<lambda>fd (w, tr). (os_close P fd w, tr)),
     os_lstat = (\<lambda>p (w, tr). case os_lstat P p w of (rc, w') \<Rightarrow> (rc, w', tr)),
     os_realpath = (\<lambda>p (w, tr). case os_realpath P p w of (r, w') \<Rightarrow> (r, w', tr)),
     PSM2_OK = PSM2_OK P,
     PSM2_MQ_INCOMPLETE = PSM2_MQ_INCOMPLETE P,
     PSM2_VERNO_MAJOR = PSM2_VERNO_MAJOR P,
     PSM2_VERNO_MINOR = PSM2_VERNO_MINOR P,
     PSM2_EP_CLOSE_GRACEFUL = PSM2_EP_CLOSE_GRACEFUL P,
     PSM2_MQ_ORDERMASK_NONE = PSM2_MQ_ORDERMASK_NONE P,
     PSM2_MQ_FLAG_GDRCPY_ONLY = PSM2_MQ_FLAG_GDRCPY_ONLY P,
     psm2_init = (\<lambda>ma mi (w, tr). case psm2_init P ma mi w of (rc, w') \<Rightarrow>
       (rc, w', tr @ [LInit (rc = PSM2_OK P)])),
     psm2_info_query = (\<lambda>q a (w, tr). case psm2_info_query P q a w of (rc, x, w') \<Rightarrow> (rc, x, w', tr)),
     psm2_ep_open_opts_get_defaults = (\<lambda>(w, tr). case psm2_ep_open_opts_get_defaults P w of
       (rc, opts, w') \<Rightarrow> (rc, opts, w', tr)),
     psm2_ep_open = (\<lambda>u opts (w, tr). case psm2_ep_open P u opts w of (rc, e, i, w') \<Rightarrow>
       (rc, e, i, w', tr @ [LOpen (if rc = PSM2_OK P then Some e else None)])),
     psm2_ep_close = (\<lambda>e m t (w, tr). case psm2_ep_close P e m t w of (rc, w') \<Rightarrow>
       (rc, w', tr @ [LClose e])),
     psm2_ep_connect = (\<lambda>e i m t (w, tr). case psm2_ep_connect P e i m t w of (rc, err, a, w') \<Rightarrow>
       (rc, err, a, w', tr @ [LConnect e])),
     psm2_mq_init = (\<lambda>e om (w, tr). case psm2_mq_init P e om w of (rc, q, w') \<Rightarrow>
       (rc, q, w', tr @ [LMqInit e (if rc = PSM2_OK P then Some q else None)])),
     psm2_mq_finalize = (\<lambda>q (w, tr). case psm2_mq_finalize P q w of (rc, w') \<Rightarrow>
       (rc, w', tr @ [LMqFinalize q])),
     psm2_mq_isend = (\<lambda>q a f t d l c (w, tr). case psm2_mq_isend P q a f t d l c w of (rc, h, w') \<Rightarrow>
       (rc, h, w', tr @ [LSend q])),
     psm2_mq_irecv = (\<lambda>q t ts f d l c (w, tr). case psm2_mq_irecv P q t ts f d l c w of (rc, h, w') \<Rightarrow>
       (rc, h, w', tr @ [LRecv q])),
     psm2_mq_ipeek = (\<lambda>q (w, tr). case psm2_mq_ipeek P q w of (rc, h, w') \<Rightarrow>
       (rc, h, w', tr @ [LPeek q (if rc = PSM2_OK P then Some h else None)])),
     psm2_mq_test = (\<lambda>h (w, tr). case psm2_mq_test P h w of (rc, st, w') \<Rightarrow>
       (rc, st, w', tr @ [LTest h]))\<rparr>"

lemma traced_consts [simp]:
  "PSM2_OK (traced P) = PSM2_OK P" "PSM2_MQ_INCOMPLETE (traced P) = PSM2_MQ_INCOMPLETE P"
  "getenv (traced P) n x = getenv P n (fst x)" "ndebug (traced P) = ndebug P"
  by (simp_all add: traced_def split: prod.split)

lemma traced_iff:
  "psm2_ep_open (traced P) u opts x = (rc, e, i, y) \<longleftrightarrow> psm2_ep_open P u opts (fst x) = (rc, e, i, fst y) \<and>
     snd y = snd x @ [LOpen (if rc = PSM2_OK P then Some e else None)]"
  "psm2_ep_close (traced P) e m t x = (rc, y) \<longleftrightarrow> psm2_ep_close P e m t (fst x) = (rc, fst y) \<and>
     snd y = snd x @ [LClose e]"
  "psm2_mq_init (traced P) e om x = (rc, q, y) \<longleftrightarrow> psm2_mq_init P e om (fst x) = (rc, q, fst y) \<and>
     snd y = snd x @ [LMqInit e (if rc = PSM2_OK P then Some q else None)]"
  "psm2_mq_finalize (traced P) q x = (rc, y) \<longleftrightarrow> psm2_mq_finalize P q (fst x) = (rc, fst y) \<and>
     snd y = snd x @ [LMqFinalize q]"
  "psm2_mq_isend (traced P) q a f tg d l c x = (rc, h, y) \<longleftrightarrow>
     psm2_mq_isend P q a f tg d l c (fst x) = (rc, h, fst y) \<and> snd y = snd x @ [LSend q]"
  "psm2_mq_irecv (traced P) q tg ts f d l c x = (rc, h, y) \<longleftrightarrow>
     psm2_mq_irecv P q tg ts f d l c (fst x) = (rc, h, fst y) \<and> snd y = snd x @ [LRecv q]"
  "psm2_mq_ipeek (traced P) q x = (rc, h, y) \<longleftrightarrow> psm2_mq_ipeek P q (fst x) = (rc, h, fst y) \<and>
     snd y = snd x @ [LPeek q (if rc = PSM2_OK P then Some h else None)]"
  "psm2_mq_test (traced P) h x = (rc, st, y) \<longleftrightarrow> psm2_mq_test P h (fst x) = (rc, st, fst y) \<and>
     snd y = snd x @ [LTest h]"
  "os_realpath (traced P) path x = (r, y) \<longleftrightarrow> os_realpath P path (fst x) = (r, fst y) \<and> snd y = snd x"
  by (cases x; cases y; auto simp: traced_def split: prod.split)+

lemma traced_sys: "sys_call (traced P) x y \<Longrightarrow> sys_call P (fst x) (fst y) \<and> snd y = snd x"
  by (erule sys_call.cases)
    (auto simp: traced_def split: prod.splits intro: sys_call.intros)

lemma traced_call: "lib_call (traced P) x e y \<Longrightarrow> lib_call P (fst x) e (fst y) \<and> snd y = snd x @ [e]"
  by (erule lib_call.cases)
    (auto simp: traced_def split: prod.splits split del: if_split intro: lib_call.intros)

text \<open>What is recorded between two worlds is a run of the protocol.\<close>

lemma traced_runs:
  "lib_calls (traced P) L x L' y \<Longrightarrow> \<exists>tr. snd y = snd x @ tr \<and> runs lib_step L tr L'"
proof (induction rule: lib_calls.induct)
  case (lib_none L x)
  then show ?case by (auto intro: runs_none)
next
  case (lib_sys L x L1 y z)
  then show ?case using traced_sys [OF lib_sys.hyps(2)] by simp
next
  case (lib_more L x L1 y e z L2)
  from lib_more.IH obtain tr where "snd y = snd x @ tr" and r: "runs lib_step L tr L1" by blast
  then have "snd z = snd x @ (tr @ [e])" using traced_call [OF lib_more.hyps(2)] by simp
  moreover have "runs lib_step L (tr @ [e]) L2"
    using lib_more.hyps(3) by (intro runs_append [OF r]) (blast intro: runs_more runs_none)
  ultimately show ?case by blast
qed

section \<open>The contracts of the recorded platform\<close>

text \<open>A queue that is made successfully is not NULL, and a failure leaves NULL.\<close>

definition queue_contract :: "'w platform \<Rightarrow> bool" where
  "queue_contract P \<longleftrightarrow> (\<forall>e om w rc q w'. e \<noteq> 0 \<longrightarrow> psm2_mq_init P e om w = (rc, q, w') \<longrightarrow>
     (q \<noteq> 0 \<longleftrightarrow> rc = PSM2_OK P))"

lemma traced_quiet: "quiet_call (traced P) x y \<Longrightarrow> quiet_call P (fst x) (fst y)"
proof (erule quiet_call.cases)
  fix w w' assume "x = w" "y = w'" "sys_call (traced P) w w'"
  then show ?thesis using traced_sys by (blast intro: q_sys)
qed (auto simp: traced_def split: prod.splits intro: quiet_call.intros)

lemma traced_ep_contract:
  assumes "ep_contract P opened"
  shows "ep_contract (traced P) (\<lambda>x. opened (fst x))"
  unfolding ep_contract_def traced_iff traced_consts
  using ep_contract_open [OF assms] ep_contract_close [OF assms] ep_contract_quiet [OF assms]
    traced_quiet [of P]
  by (intro conjI allI impI; (elim conjE)?) (simp_all, blast+)

lemma traced_peek:
  assumes "mq_contract P posted" and "psm2_mq_ipeek (traced P) q x = (rc, h, y)"
  shows "(rc = PSM2_MQ_INCOMPLETE P \<and> posted (fst y) = posted (fst x)) \<or>
    (rc = PSM2_OK P \<and> (\<exists>l st z. psm2_mq_test (traced P) h y = (PSM2_OK P, st, z) \<and>
      (s_context st, l) \<in># posted (fst x) \<and> s_nbytes st \<le> l \<and>
      posted (fst z) = posted (fst x) - {#(s_context st, l)#}))"
proof -
  have "psm2_mq_ipeek P q (fst x) = (rc, h, fst y)" using assms(2) by (simp add: traced_iff)
  from mq_contract_peek [OF assms(1) this] show ?thesis
  proof (elim disjE conjE exE)
    fix l st w2
    assume rc: "rc = PSM2_OK P" and t: "psm2_mq_test P h (fst y) = (PSM2_OK P, st, w2)"
      and p: "(s_context st, l) \<in># posted (fst x)" "s_nbytes st \<le> l"
        "posted w2 = posted (fst x) - {#(s_context st, l)#}"
    have "psm2_mq_test (traced P) h y = (PSM2_OK P, st, w2, snd y @ [LTest h])"
      using t by (simp add: traced_iff)
    then show ?thesis using rc p by (metis fst_conv)
  qed blast
qed

lemma traced_mq_contract:
  assumes "mq_contract P posted"
  shows "mq_contract (traced P) (\<lambda>x. posted (fst x))"
proof -
  have send: "psm2_mq_isend (traced P) q a f t d l c x = (rc, h, y) \<Longrightarrow>
      posted (fst y) = (if rc = PSM2_OK P then add_mset (c, l) (posted (fst x)) else posted (fst x))"
    for q a f t d l c x rc h y unfolding traced_iff by (elim conjE) (rule mq_contract_post(1) [OF assms])
  have recv: "psm2_mq_irecv (traced P) q t ts f d l c x = (rc, h, y) \<Longrightarrow>
      posted (fst y) = (if rc = PSM2_OK P then add_mset (c, l) (posted (fst x)) else posted (fst x))"
    for q t ts f d l c x rc h y unfolding traced_iff by (elim conjE) (rule mq_contract_post(2) [OF assms])
  have quiet: "quiet_call (traced P) x y \<Longrightarrow> posted (fst y) = posted (fst x)" for x y
    by (rule mq_contract_control(1) [OF assms traced_quiet])
  have opn: "psm2_ep_open (traced P) u opts x = (rc, e, i, y) \<Longrightarrow> posted (fst y) = posted (fst x)"
    for u opts x rc e i y unfolding traced_iff by (elim conjE) (rule mq_contract_control(2) [OF assms])
  have cls: "psm2_ep_close (traced P) e m t x = (rc, y) \<Longrightarrow> posted (fst y) \<subseteq># posted (fst x)"
    for e m t x rc y unfolding traced_iff by (elim conjE) (rule mq_contract_control(3) [OF assms])
  have fin: "psm2_mq_finalize (traced P) q x = (rc, y) \<Longrightarrow> posted (fst y) \<subseteq># posted (fst x)"
    for q x rc y unfolding traced_iff by (elim conjE) (rule mq_contract_control(4) [OF assms])
  show ?thesis
    unfolding mq_contract_def traced_consts
    by (intro conjI allI impI)
      (erule send recv traced_peek [OF assms] quiet opn cls fin)+
qed

lemma traced_library_ok:
  assumes "library_ok P opened posted w0"
  shows "library_ok (traced P) (\<lambda>x. opened (fst x)) (\<lambda>x. posted (fst x)) (w0, [])"
  using assms traced_ep_contract [of P opened] traced_mq_contract [of P posted]
  by (simp add: library_ok_def consts_ok_def realpath_contract_def traced_iff)

end
