(* ===== verification/Lib_Steps.thy ===== *)
theory Lib_Steps
  imports Lib_Protocol
begin

text \<open>
  The plugin keeps to the protocol of libpsm2: every operation makes a sequence of calls that
  the protocol allows, from what the communicators say before to what they say afterwards.
\<close>

section \<open>What the communicators say about the library\<close>

definition eps_of :: "(addr \<Rightarrow> psm2comm option) \<Rightarrow> addr set" where
  "eps_of cs = {e. e \<noteq> 0 \<and> (\<exists>c cm. cs c = Some cm \<and> ep cm = e)}"

definition queues_of :: "(addr \<Rightarrow> psm2comm option) \<Rightarrow> (addr \<times> addr) multiset" where
  "queues_of cs = image_mset (\<lambda>c. (ep (the (cs c)), mq (the (cs c))))
     (mset_set {c. \<exists>cm. cs c = Some cm \<and> mq cm \<noteq> 0})"

definition lib_view :: "'w plugin \<Rightarrow> lib_state" where
  "lib_view s = \<lparr>lib_ready = True, lib_eps = eps_of (comms s), lib_queues = queues_of (comms s),
     lib_found = None\<rparr>"

lemma lib_view_simps [simp]:
  "lib_ready (lib_view s)" "lib_eps (lib_view s) = eps_of (comms s)"
  "lib_queues (lib_view s) = queues_of (comms s)" "lib_found (lib_view s) = None"
  by (simp_all add: lib_view_def)

lemma lib_view_cong: "comms s' = comms s \<Longrightarrow> lib_view s' = lib_view s"
  by (simp add: lib_view_def)

lemma eps_of_upd: "eps_of (cs(c \<mapsto> cm)) = (if ep cm = 0 then {} else {ep cm}) \<union> eps_of (cs(c := None))"
  by (auto simp: eps_of_def split: if_splits)

lemma queues_finite: "finite (dom cs) \<Longrightarrow> finite {c. \<exists>cm. cs c = Some cm \<and> mq cm \<noteq> 0}"
  by (erule rev_finite_subset) auto

lemma queues_of_upd:
  assumes "finite (dom cs)"
  shows "queues_of (cs(c \<mapsto> cm)) =
    (if mq cm = 0 then {#} else {#(ep cm, mq cm)#}) + queues_of (cs(c := None))"
proof -
  let ?live = "\<lambda>cs. {c. \<exists>cm. cs c = Some cm \<and> mq cm \<noteq> 0}"
  have fin: "finite (?live (cs(c := None)))" by (rule queues_finite, rule finite_subset [OF _ assms]) (auto split: if_splits)
  have c: "c \<notin> ?live (cs(c := None))" by simp
  have new: "?live (cs(c \<mapsto> cm)) = (if mq cm = 0 then {} else {c}) \<union> ?live (cs(c := None))"
    by (auto split: if_splits)
  have "image_mset (\<lambda>d. (ep (the ((cs(c \<mapsto> cm)) d)), mq (the ((cs(c \<mapsto> cm)) d))))
      (mset_set (?live (cs(c := None)))) = queues_of (cs(c := None))"
    unfolding queues_of_def
  proof (rule image_mset_cong)
    fix d assume "d \<in># mset_set (?live (cs(c := None)))"
    then have "d \<noteq> c" using c unfolding finite_set_mset_mset_set [OF fin] by blast
    then show "(ep (the ((cs(c \<mapsto> cm)) d)), mq (the ((cs(c \<mapsto> cm)) d))) =
        (ep (the ((cs(c := None)) d)), mq (the ((cs(c := None)) d)))" by simp
  qed
  moreover have "mset_set (?live (cs(c \<mapsto> cm))) =
      (if mq cm = 0 then {#} else {#c#}) + mset_set (?live (cs(c := None)))"
    unfolding new using mset_set.insert [OF fin c] by simp
  ultimately show ?thesis unfolding queues_of_def [of "cs(c \<mapsto> cm)"] by simp
qed

lemma in_queues_of:
  assumes "finite (dom cs)"
  shows "(e, q) \<in># queues_of cs \<longleftrightarrow> (\<exists>c cm. cs c = Some cm \<and> q \<noteq> 0 \<and> ep cm = e \<and> mq cm = q)"
  using queues_finite [OF assms] unfolding queues_of_def by force

lemma map_remove: "cs c = None \<Longrightarrow> cs(c := None) = cs"
  by (rule fun_upd_idem)

section \<open>Destroying a communicator\<close>

lemma closes_iff:
  assumes "ep_inv op s" and "comms s c = Some cm" and "ep cm \<noteq> 0"
  shows "(\<not> has_shared_ep cm \<or> refcount (shared_ep s) - 1 = 0) \<longleftrightarrow> \<not> used_by_other (ep cm) c s"
proof (cases "has_shared_ep cm")
  case True
  then show ?thesis
    using release_last(2) [OF assms(1,2) True] used_by_other_sharers [OF assms(1,2) True] by blast
next
  case False
  then show ?thesis using used_by_other_own [OF assms(1,2) False assms(3)] by blast
qed

lemma eps_of_remove:
  assumes "comms s c = Some cm"
  shows "eps_of ((comms s)(c := None)) =
    (if ep cm = 0 \<or> used_by_other (ep cm) c s then eps_of (comms s) else eps_of (comms s) - {ep cm})"
proof -
  have "comms s = (comms s)(c \<mapsto> cm)" using assms by (rule fun_upd_idem [symmetric])
  then have e: "eps_of (comms s) = (if ep cm = 0 then {} else {ep cm}) \<union> eps_of ((comms s)(c := None))"
    using eps_of_upd by metis
  have "ep cm \<in> eps_of ((comms s)(c := None)) \<longleftrightarrow> ep cm \<noteq> 0 \<and> used_by_other (ep cm) c s"
    by (auto simp: eps_of_def used_by_other_def split: if_splits)
  then show ?thesis unfolding e by auto
qed

lemma finalize_mq_lib:
  assumes "finite (dom (comms s))" and "comms s c = Some cm" and "finalize_mq P c cm s = (rc, s1)"
  shows "lib_calls P (lib_view s) (world s)
      (lib_view s\<lparr>lib_queues := queues_of ((comms s)(c := None))\<rparr>) (world s1)"
    and "shared_ep s1 = shared_ep s"
proof -
  have same: "comms s = (comms s)(c \<mapsto> cm)" using assms(2) by (rule fun_upd_idem [symmetric])
  have q: "queues_of (comms s) =
      (if mq cm = 0 then {#} else {#(ep cm, mq cm)#}) + queues_of ((comms s)(c := None))"
    using queues_of_upd [OF assms(1)] same by metis
  show "lib_calls P (lib_view s) (world s)
      (lib_view s\<lparr>lib_queues := queues_of ((comms s)(c := None))\<rparr>) (world s1)"
  proof (cases "mq cm = 0")
    case True
    then have "s1 = s" using assms(3) by (simp add: finalize_mq_def)
    moreover have "lib_view s\<lparr>lib_queues := queues_of ((comms s)(c := None))\<rparr> = lib_view s"
      using q True by (simp add: lib_view_def)
    ultimately show ?thesis by (simp add: lib_none)
  next
    case False
    obtain mrc w' where m: "psm2_mq_finalize P (mq cm) (world s) = (mrc, w')" by fastforce
    have "world s1 = w'" using False assms(3) m by (auto simp: finalize_mq_def)
    moreover have "(ep cm, mq cm) \<in># lib_queues (lib_view s)" using q False by simp
    from ls_mq_finalize [OF lib_view_simps(4) this]
    have "lib_step (lib_view s) (LMqFinalize (mq cm))
        (lib_view s\<lparr>lib_queues := queues_of ((comms s)(c := None))\<rparr>)"
      using q False by simp
    ultimately show ?thesis using lib_one [OF lc_mq_finalize [OF m]] by simp
  qed
  show "shared_ep s1 = shared_ep s"
    using assms(3) by (auto simp: finalize_mq_def split: if_splits prod.splits)
qed

lemma psm2comm_fini_lib:
  assumes "ep_contract P opened" and "ep_inv (opened (world s)) s" and "comms s c = Some cm"
    and "psm2comm_fini P c s = Ret (r, s')"
  shows "lib_calls P (lib_view s) (world s) (lib_view s') (world s')"
proof -
  have fin: "finite (dom (comms s))" using assms(2) by (simp add: ep_inv_def)
  have cs: "comms s' = (comms s)(c := None)"
    using psm2comm_fini_basic [OF assms(1-3)] assms(4) by simp
  obtain mrc s1 where f: "finalize_mq P c cm s = (mrc, s1)" by fastforce
  note f1 = finalize_mq_lib [OF fin assms(3) f]
  obtain erc s2 where r: "release_ep P cm (detach_ep cm s1) = (erc, s2)" by fastforce
  have w': "world s' = world s2"
    using assms(3,4) f r by (auto simp: psm2comm_fini_def load_comm_def free_comm_def split: option.splits)
  let ?L1 = "lib_view s\<lparr>lib_queues := queues_of ((comms s)(c := None))\<rparr>"
  have d: "world (detach_ep cm s1) = world s1"
    "refcount (shared_ep (detach_ep cm s1)) =
       (if has_shared_ep cm then refcount (shared_ep s) - 1 else refcount (shared_ep s))"
    using f1(2) by (simp_all add: detach_ep_def)
  show ?thesis
  proof (cases "ep cm = 0 \<or> used_by_other (ep cm) c s")
    case True
    then have "\<not> (ep cm \<noteq> 0 \<and> (\<not> has_shared_ep cm \<or> refcount (shared_ep s) - 1 = 0))"
      using closes_iff [OF assms(2,3)] by metis
    then have "world s2 = world s1"
      using r d by (auto simp: release_ep_def split: if_splits)
    moreover have "lib_view s' = ?L1"
      using True eps_of_remove [OF assms(3)] cs by (simp add: lib_view_def)
    ultimately show ?thesis using f1(1) w' by simp
  next
    case False
    then have cl: "ep cm \<noteq> 0" "\<not> has_shared_ep cm \<or> refcount (shared_ep s) - 1 = 0"
      using closes_iff [OF assms(2,3)] by metis+
    obtain erc' w1 where k: "psm2_ep_close P (ep cm) (PSM2_EP_CLOSE_GRACEFUL P)
        COMM_EP_CLOSE_TIMEOUT (world s1) = (erc', w1)" by fastforce
    have "world s2 = w1"
      using r d k cl by (auto simp: release_ep_def Let_def split: if_splits)
    moreover have "ep cm \<in> eps_of (comms s)" using cl(1) assms(3) by (auto simp: eps_of_def)
    moreover have "(ep cm, q) \<notin># queues_of ((comms s)(c := None))" for q
      using False by (subst in_queues_of) (use fin in \<open>auto simp: used_by_other_def split: if_splits\<close>)
    ultimately have "lib_step ?L1 (LClose (ep cm)) (?L1\<lparr>lib_eps := eps_of (comms s) - {ep cm}\<rparr>)"
      using ls_close [of ?L1 "ep cm"] by simp
    moreover have "lib_view s' = ?L1\<lparr>lib_eps := eps_of (comms s) - {ep cm}\<rparr>"
      using False eps_of_remove [OF assms(3)] cs by (simp add: lib_view_def)
    ultimately show ?thesis
      using lib_more [OF f1(1) lc_close [OF k]] w' \<open>world s2 = w1\<close> by simp
  qed
qed

section \<open>Making a communicator\<close>

lemma eps_of_opened:
  assumes "ep_inv op s"
  shows "eps_of (comms s) \<subseteq> op"
  using ep_inv_open [OF assms] by (auto simp: eps_of_def)

lemma obtain_ep_lib:
  assumes "ep_contract P opened" and "ep_inv (opened (world s)) s"
    and "obtain_ep P dev uuid s = (r, s1)"
  shows "lib_calls P (lib_view s) (world s)
    (case r of None \<Rightarrow> lib_view s
     | Some (e, i) \<Rightarrow> lib_view s\<lparr>lib_eps := insert e (eps_of (comms s))\<rparr>) (world s1)"
proof (cases "use_shared_ep s = 0 \<or> refcount (shared_ep s) = 0")
  case False
  then obtain c cm where "comms s c = Some cm" and "has_shared_ep cm"
    using refcount_0_iff [OF assms(2)] by (auto simp: sharers_def)
  note sh = ep_inv_shared [OF assms(2) this]
  have "sh_ep (shared_ep s) \<in> eps_of (comms s)"
    using sh(1,3) \<open>comms s c = Some cm\<close> by (auto simp: eps_of_def)
  then have "lib_view s\<lparr>lib_eps := insert (sh_ep (shared_ep s)) (eps_of (comms s))\<rparr> = lib_view s"
    by (simp add: lib_view_def insert_absorb)
  then show ?thesis using False assms(3) lib_none by (auto simp: obtain_ep_def)
next
  case new: True
  obtain rc opts w1 where d: "psm2_ep_open_opts_get_defaults P (world s) = (rc, opts, w1)"
    by (metis prod_cases3)
  note c1 = lib_sys [OF lib_none [where L = "lib_view s"] s_opts [OF d]]
  have o1: "opened w1 = opened (world s)"
    using ep_contract_quiet(1) [OF assms(1) q_sys [OF s_opts [OF d]]] .
  let ?opts = "if use_nccl_dev_num s \<noteq> 0 then opts\<lparr>opt_unit := dev\<rparr> else opts"
  obtain rc2 e i w2 where op: "psm2_ep_open P uuid ?opts w1 = (rc2, e, i, w2)"
    by (metis prod_cases4)
  note c2 = lib_more [OF c1 lc_open [OF op]]
  consider (bad) "rc \<noteq> PSM2_OK P" | (bad2) "rc = PSM2_OK P" "rc2 \<noteq> PSM2_OK P"
    | (ok) "rc = PSM2_OK P" "rc2 = PSM2_OK P" by blast
  then show ?thesis
  proof cases
    case bad
    then show ?thesis using new assms(3) d c1 by (auto simp: obtain_ep_def)
  next
    case bad2
    then have "r = None" and "world s1 = w2"
      using new assms(3) d op by (auto simp: obtain_ep_def Let_def)
    then show ?thesis using c2 [of "lib_view s"] bad2 ls_open_fail [of "lib_view s"] by simp
  next
    case ok
    then have r: "r = Some (e, i)" and w: "world s1 = w2"
      using new assms(3) d op by (auto simp: obtain_ep_def Let_def split: if_splits)
    have "e \<noteq> 0" and "e \<notin> eps_of (comms s)"
      using ep_contract_open(1) [OF assms(1) op ok(2)] eps_of_opened [OF assms(2)] o1 by auto
    then have "lib_step (lib_view s) (LOpen (Some e)) (lib_view s\<lparr>lib_eps := insert e (eps_of (comms s))\<rparr>)"
      using ls_open [of "lib_view s" e] by simp
    then show ?thesis using c2 r w ok by simp
  qed
qed

lemma init_ep_lib:
  assumes "ep_contract P opened" and "ep_inv (opened (world s)) s"
    and "comms s c = Some cm" and "bare cm" and "mq cm = 0"
    and "psm2comm_init_ep P dev uuid c s = Ret (r, s')"
  shows "lib_calls P (lib_view s) (world s) (lib_view s') (world s')"
proof (cases "check_unit P dev s = Ret None")
  case False
  then have "s' = s" using assms(6) by (auto simp: psm2comm_init_ep_def outcome_simps split: option.splits)
  then show ?thesis by (simp add: lib_none)
next
  case True
  have fin: "finite (dom (comms s))" using assms(2) by (simp add: ep_inv_def)
  obtain x s1 where o: "obtain_ep P dev uuid s = (x, s1)" by fastforce
  note l = obtain_ep_lib [OF assms(1,2) o]
  have cs1: "comms s1 = comms s" using obtain_ep_inv [OF assms(1,2) o] by blast
  show ?thesis
  proof (cases x)
    case None
    then have "s' = s1" using True o assms(6) by (simp add: psm2comm_init_ep_def)
    then show ?thesis using l None lib_view_cong [OF cs1] by simp
  next
    case (Some ei)
    then obtain e i where ei: "x = Some (e, i)" by (cases ei) auto
    then have e0: "e \<noteq> 0" using obtain_ep_inv [OF assms(1,2) o] by (auto simp: ep_ready_def)
    have l1: "comms s1 c = Some cm" using cs1 assms(3) by simp
    note at = attach_ep_effect [OF l1 assms(4) e0]
    have s': "s' = attach_ep c cm e i s1"
      using True o ei l1 assms(6) by (simp add: psm2comm_init_ep_def load_comm_def)
    obtain cm' where cs: "comms s' = (comms s)(c \<mapsto> cm')" and we: "with_ep cm e cm' (use_shared_ep s1 \<noteq> 0)"
      using at(4) cs1 s' by auto
    have m: "ep cm' = e" "mq cm' = 0" using we assms(5) by (auto simp: with_ep_def)
    have same: "comms s = (comms s)(c \<mapsto> cm)" using assms(3) by (rule fun_upd_idem [symmetric])
    have "eps_of (comms s) = eps_of ((comms s)(c := None))"
      using eps_of_upd [of "comms s" c cm] assms(4) same by (simp add: bare_def)
    moreover have "queues_of (comms s) = queues_of ((comms s)(c := None))"
      using queues_of_upd [OF fin, of c cm] assms(5) same by simp
    ultimately have "lib_view s' = lib_view s\<lparr>lib_eps := insert e (eps_of (comms s))\<rparr>"
      using eps_of_upd [of "comms s" c cm'] queues_of_upd [OF fin, of c cm'] e0 m
      by (simp add: lib_view_def cs)
    then show ?thesis using l ei at(1) s' by simp
  qed
qed

text \<open>A communicator that gets its queue.\<close>

lemma lib_view_queue:
  assumes "finite (dom (comms s))" and "comms s c = Some cm" and "mq cm = 0"
    and "comms s' = (comms s)(c \<mapsto> cm\<lparr>mq := q\<rparr>)"
  shows "lib_view s' = lib_view s\<lparr>lib_queues :=
    (if q = 0 then queues_of (comms s) else add_mset (ep cm, q) (queues_of (comms s)))\<rparr>"
proof -
  have same: "comms s = (comms s)(c \<mapsto> cm)" using assms(2) by (rule fun_upd_idem [symmetric])
  have "queues_of (comms s) = queues_of ((comms s)(c := None))"
    using queues_of_upd [OF assms(1), of c cm] assms(3) same by simp
  moreover have "eps_of (comms s') = eps_of (comms s)"
    using eps_of_upd [of "comms s" c cm] eps_of_upd [of "comms s" c "cm\<lparr>mq := q\<rparr>"] same assms(4) by simp
  ultimately show ?thesis
    using queues_of_upd [OF assms(1), of c "cm\<lparr>mq := q\<rparr>"] by (simp add: lib_view_def assms(4))
qed

lemma bail_lib:
  assumes "ep_contract P opened" and "ep_inv (opened (world s)) s" and "comms s c = Some cm"
    and "psm2comm_bail P c s = Ret (r, c', s')"
  shows "lib_calls P (lib_view s) (world s) (lib_view s') (world s')" and "r = ncclInternalError"
proof -
  obtain x where "psm2comm_fini P c s = Ret (x, s')"
    using assms(4) by (auto simp: psm2comm_bail_def obind_eq_Ret)
  then show "lib_calls P (lib_view s) (world s) (lib_view s') (world s')"
    by (rule psm2comm_fini_lib [OF assms(1-3)])
  show "r = ncclInternalError" using assms(4) by (auto simp: psm2comm_bail_def obind_eq_Ret)
qed

lemma init_mq_lib:
  assumes "ep_contract P opened" and "ep_inv (opened (world s)) s" and "queue_contract P"
    and "comms s c = Some cm" and "ep cm \<noteq> 0" and "mq cm = 0" and "init_mq P c s = Ret (r, c', s')"
  shows "lib_calls P (lib_view s) (world s) (lib_view s') (world s')"
    and "r = ncclSuccess \<Longrightarrow> \<exists>cm'. comms s' = (comms s)(c \<mapsto> cm') \<and> mq cm' \<noteq> 0"
proof -
  have fin: "finite (dom (comms s))" using assms(2) by (simp add: ep_inv_def)
  obtain rc q w' where m: "psm2_mq_init P (ep cm) (PSM2_MQ_ORDERMASK_NONE P) (world s) = (rc, q, w')"
    by (metis prod_cases3)
  let ?s2 = "store_comm c (cm\<lparr>mq := q\<rparr>) (s\<lparr>world := w'\<rparr>)"
  have q: "q \<noteq> 0 \<longleftrightarrow> rc = PSM2_OK P"
    using assms(3,5) m unfolding queue_contract_def by blast
  have e: "ep cm \<in> lib_eps (lib_view s)" using assms(4,5) by (auto simp: eps_of_def)
  have "lib_step (lib_view s) (LMqInit (ep cm) (if rc = PSM2_OK P then Some q else None)) (lib_view ?s2)"
    using ls_mq_init [OF lib_view_simps(4) e, of q] ls_mq_init_fail [OF lib_view_simps(4) e] q
    by (subst lib_view_queue [OF fin assms(4,6), of _ q]) (auto simp: lib_view_def)
  then have l: "lib_calls P (lib_view s) (world s) (lib_view ?s2) (world ?s2)"
    using lib_one [OF lc_mq_init [OF m]] by simp
  have i: "init_mq P c s = (if rc \<noteq> PSM2_OK P then psm2comm_bail P c ?s2 else Ret (ncclSuccess, c, ?s2))"
    using m assms(4) by (simp add: init_mq_def load_comm_def Let_def)
  have "opened (world ?s2) = opened (world s)"
    using ep_contract_quiet(1) [OF assms(1) q_mq_init [OF m]] by simp
  then have i2: "ep_inv (opened (world ?s2)) ?s2"
    using ep_inv_view [OF assms(2,4), of "cm\<lparr>mq := q\<rparr>" ?s2] by (simp add: ep_view_def)
  have c2: "comms ?s2 c = Some (cm\<lparr>mq := q\<rparr>)" by simp
  show "lib_calls P (lib_view s) (world s) (lib_view s') (world s')"
  proof (cases "rc = PSM2_OK P")
    case True
    then show ?thesis using l i assms(7) by simp
  next
    case False
    then have "psm2comm_bail P c ?s2 = Ret (r, c', s')" using i assms(7) by simp
    from lib_calls_trans [OF l bail_lib(1) [OF assms(1) i2 c2 this]] show ?thesis .
  qed
  assume r: "r = ncclSuccess"
  have ok: "rc = PSM2_OK P"
  proof (rule ccontr)
    assume "rc \<noteq> PSM2_OK P"
    then have "psm2comm_bail P c ?s2 = Ret (r, c', s')" using i assms(7) by simp
    from bail_lib(2) [OF assms(1) i2 c2 this] r show False by simp
  qed
  then have "s' = ?s2" using i assms(7) by simp
  then have "comms s' = (comms s)(c \<mapsto> cm\<lparr>mq := q\<rparr>)" by simp
  then show "\<exists>cm'. comms s' = (comms s)(c \<mapsto> cm') \<and> mq cm' \<noteq> 0" using q ok by auto
qed

text \<open>The block that \<open>calloc\<close> returns has neither endpoint nor queue.\<close>

lemma zero_comm_lib:
  assumes "ep_inv op s" and "comms s c = None" and "comms s1 = (comms s)(c \<mapsto> zero_comm)"
    and "shared_ep s1 = shared_ep s"
  shows "lib_view s1 = lib_view s" and "ep_inv op s1"
proof -
  have fin: "finite (dom (comms s))" using assms(1) by (simp add: ep_inv_def)
  have "ep zero_comm = 0" and "mq zero_comm = 0" and bare: "bare zero_comm"
    by (simp_all add: zero_comm_def bare_def)
  then show "lib_view s1 = lib_view s"
    using eps_of_upd [of "comms s" c zero_comm] queues_of_upd [OF fin, of c zero_comm]
      map_remove [of "comms s" c, OF assms(2)] by (simp add: lib_view_def assms(3))
  show "ep_inv op s1" by (rule ep_inv_add_bare [OF assms(1,2) bare assms(3,4)])
qed

lemma psm2comm_made_lib:
  assumes "ep_contract P opened" and "policy_ok s" and "ep_inv (opened (world s)) s"
    and "queue_contract P" and "comms s c = Some zero_comm" and "card (dom (comms s)) < 2 ^ 32"
    and "psm2comm_init_ep P dev uuid c s = Ret (x, s2)"
    and "(if x \<noteq> ncclSuccess then psm2comm_bail P c s2 else init_mq P c s2) = Ret (r, c', s')"
  shows "lib_calls P (lib_view s) (world s) (lib_view s') (world s')"
    and "r = ncclSuccess \<Longrightarrow> \<exists>cm. comms s' = (comms s)(c \<mapsto> cm) \<and> mq cm \<noteq> 0"
proof -
  have bare: "bare zero_comm" and z: "mq zero_comm = 0" by (simp_all add: zero_comm_def bare_def)
  from psm2comm_init_ep_returns [OF assms(1,2,3,5) bare assms(6), of dev uuid]
  have st: "comm_step P opened s s2" and x: "if x = ncclSuccess
      then \<exists>e cm'. comms s2 = (comms s)(c \<mapsto> cm') \<and> with_ep zero_comm e cm' (use_shared_ep s \<noteq> 0)
      else x = ncclInternalError \<and> comms s2 = comms s"
    by (simp_all add: assms(7))
  have i2: "ep_inv (opened (world s2)) s2" using st unfolding comm_step_def by blast
  note l2 = init_ep_lib [OF assms(1,3,5) bare z assms(7)]
  have "lib_calls P (lib_view s) (world s) (lib_view s') (world s') \<and>
    (r = ncclSuccess \<longrightarrow> (\<exists>cm. comms s' = (comms s)(c \<mapsto> cm) \<and> mq cm \<noteq> 0))"
  proof (cases "x = ncclSuccess")
    case True
    then obtain cm' ea where c2: "comms s2 = (comms s)(c \<mapsto> cm')"
      and we: "with_ep zero_comm ea cm' (use_shared_ep s \<noteq> 0)" using x by auto
    have m: "ep cm' \<noteq> 0" "mq cm' = 0" using we z by (auto simp: with_ep_def)
    have l: "comms s2 c = Some cm'" and im: "init_mq P c s2 = Ret (r, c', s')"
      using c2 assms(8) True by simp_all
    note k = init_mq_lib [OF assms(1) i2 assms(4) l m im]
    show ?thesis using lib_calls_trans [OF l2 k(1)] k(2) c2 by auto
  next
    case False
    then have c2: "comms s2 c = Some zero_comm" and b: "psm2comm_bail P c s2 = Ret (r, c', s')"
      using x assms(5,8) by simp_all
    note k = bail_lib [OF assms(1) i2 c2 b]
    show ?thesis using lib_calls_trans [OF l2 k(1)] k(2) by simp
  qed
  then show "lib_calls P (lib_view s) (world s) (lib_view s') (world s')"
    and "r = ncclSuccess \<Longrightarrow> \<exists>cm. comms s' = (comms s)(c \<mapsto> cm) \<and> mq cm \<noteq> 0" by blast+
qed

lemma psm2comm_init_lib:
  assumes "comms_ok P opened s" and "room s" and "queue_contract P"
    and "psm2comm_init P dev uuid s = Ret (r, c, s')"
  shows "lib_calls P (lib_view s) (world s) (lib_view s') (world s')"
    and "r = ncclSuccess \<Longrightarrow> \<exists>cm. comms s' = (comms s)(c \<mapsto> cm) \<and> mq cm \<noteq> 0"
proof -
  have a: "ep_contract P opened" "policy_ok s" "ep_inv (opened (world s)) s" "heap_ok s"
    "Suc (card (dom (comms s))) < 2 ^ 32"
    using assms(1,2) by (simp_all add: comms_ok_def room_def)
  have sz: "sizeof_psm2comm_handle \<le> NCCL_NET_HANDLE_MAXSIZE"
    by (simp add: sizeof_psm2comm_handle_def NCCL_NET_HANDLE_MAXSIZE_def)
  have "lib_calls P (lib_view s) (world s) (lib_view s') (world s') \<and>
    (r = ncclSuccess \<longrightarrow> (\<exists>cm. comms s' = (comms s)(c \<mapsto> cm) \<and> mq cm \<noteq> 0))"
  proof (cases "alloc_ok P (allocs s)")
    case False
    then have cs: "comms s' = comms s" and w: "world s' = world s" and r: "r \<noteq> ncclSuccess"
      using assms(4) sz by (auto simp: psm2comm_init_def calloc_comm_def)
    show ?thesis unfolding w lib_view_cong [OF cs] using r by (simp add: lib_none)
  next
    case True
    let ?c = "Suc (allocs s)"
    let ?s1 = "s\<lparr>allocs := Suc (allocs s), comms := (comms s)(?c \<mapsto> zero_comm)\<rparr>"
    have new: "comms s ?c = None" using heap_ok_fresh [OF a(4)] by simp
    note z = zero_comm_lib [OF a(3) new, of ?s1, simplified]
    have l1: "comms ?s1 ?c = Some zero_comm" by simp
    have "card (dom (comms ?s1)) \<le> Suc (card (dom (comms s)))" using card_dom_upd_bound by simp
    then have d1: "card (dom (comms ?s1)) < 2 ^ 32" using a(5) by linarith
    have p1: "policy_ok ?s1" using a(2) by (simp add: policy_ok_def)
    have i1: "ep_inv (opened (world ?s1)) ?s1" using z(2) by simp
    obtain x s2 where ie: "psm2comm_init_ep P dev uuid ?c ?s1 = Ret (x, s2)"
      using psm2comm_init_ep_returns [OF a(1) p1 i1 l1 _ d1, of dev uuid]
      by (auto simp: returns_iff bare_def zero_comm_def)
    then have e: "(if x \<noteq> ncclSuccess then psm2comm_bail P ?c s2 else init_mq P ?c s2) = Ret (r, c, s')"
      using assms(4) True sz by (simp add: psm2comm_init_def calloc_comm_def Let_def)
    note m = psm2comm_made_lib [OF a(1) p1 i1 assms(3) l1 d1 ie e]
    have "r = ncclSuccess \<Longrightarrow> c = ?c"
      using psm2comm_init_ok(3) [OF assms(1,2,4)] by blast
    then show ?thesis using m z(1) by auto
  qed
  then show "lib_calls P (lib_view s) (world s) (lib_view s') (world s')"
    and "r = ncclSuccess \<Longrightarrow> \<exists>cm. comms s' = (comms s)(c \<mapsto> cm) \<and> mq cm \<noteq> 0" by blast+
qed

section \<open>Listening and connecting\<close>

text \<open>Every communicator that NCCL has been given has a queue.\<close>

definition has_queues :: "'w plugin \<Rightarrow> bool" where
  "has_queues s \<longleftrightarrow> (\<forall>c cm. comms s c = Some cm \<longrightarrow> mq cm \<noteq> 0)"

text \<open>Only these two members of a communicator matter.\<close>

definition lib_part :: "psm2comm \<Rightarrow> addr \<times> addr" where
  "lib_part cm = (ep cm, mq cm)"

lemma lib_part_eq:
  assumes "\<And>c. map_option lib_part (comms s' c) = map_option lib_part (comms s c)"
  shows "lib_view s' = lib_view s" and "has_queues s' = has_queues s"
proof -
  have d: "(\<exists>cm. comms s' c = Some cm \<and> Q (ep cm) (mq cm)) \<longleftrightarrow>
      (\<exists>cm. comms s c = Some cm \<and> Q (ep cm) (mq cm))" for c and Q :: "addr \<Rightarrow> addr \<Rightarrow> bool"
    using assms [of c] by (cases "comms s' c"; cases "comms s c") (simp_all add: lib_part_def)
  have "eps_of (comms s') = eps_of (comms s)"
    unfolding eps_of_def using d [where Q = "\<lambda>a b. a = _"] by simp
  moreover have "queues_of (comms s') = queues_of (comms s)"
    unfolding queues_of_def d [where Q = "\<lambda>a b. b \<noteq> 0"]
  proof (rule image_mset_cong)
    fix c
    show "(ep (the (comms s' c)), mq (the (comms s' c))) = (ep (the (comms s c)), mq (the (comms s c)))"
      using assms [of c] by (cases "comms s' c"; cases "comms s c") (simp_all add: lib_part_def)
  qed
  ultimately show "lib_view s' = lib_view s" by (simp add: lib_view_def)
  show "has_queues s' = has_queues s"
    unfolding has_queues_def using d [where Q = "\<lambda>a b. b = 0"] by metis
qed

lemma lib_part_store:
  assumes "comms s c = Some cm" and "lib_part cm' = lib_part cm"
    and "comms s' = (comms s)(c \<mapsto> cm')"
  shows "lib_view s' = lib_view s" and "has_queues s' = has_queues s"
proof -
  have "map_option lib_part (comms s' d) = map_option lib_part (comms s d)" for d
    using assms by simp
  then show "lib_view s' = lib_view s" and "has_queues s' = has_queues s"
    by (rule lib_part_eq)+
qed

lemma has_queues_add:
  "has_queues s \<Longrightarrow> comms s' = (comms s)(c \<mapsto> cm) \<Longrightarrow> mq cm \<noteq> 0 \<Longrightarrow> has_queues s'"
  by (simp add: has_queues_def)

lemma listen_lib:
  assumes "comms_ok P opened s" and "room s" and "tags_left s" and "queue_contract P"
    and "has_queues s" and "psm2_nccl_listen P dev s = Ret (r, c, h, s')"
  shows "lib_calls P (lib_view s) (world s) (lib_view s') (world s')" and "has_queues s'"
proof -
  have a: "ep_contract P opened" "policy_ok s" "ep_inv (opened (world s)) s" "heap_ok s"
    "Suc (card (dom (comms s))) < 2 ^ 32"
    using assms(1,2) by (simp_all add: comms_ok_def room_def)
  from psm2comm_init_returns [OF this, of dev "jobkey s"]
  obtain x k s1 where i: "psm2comm_init P dev (jobkey s) s = Ret (x, k, s1)"
    by (auto simp: returns_iff)
  note ok = psm2comm_init_ok [OF assms(1,2) i]
  note l = psm2comm_init_lib [OF assms(1,2,4) i]
  have t: "next_tag s + 1 < ULLONG_MAX" "\<not> ULLONG_MAX \<le> next_tag s + 1"
    using assms(3) by (simp_all add: tags_left_def)
  have "lib_calls P (lib_view s) (world s) (lib_view s') (world s') \<and> has_queues s'"
  proof (cases "x = ncclSuccess")
    case True
    then obtain cm where cm: "comms s1 = (comms s)(k \<mapsto> cm)" "mq cm \<noteq> 0" using l(2) by blast
    have k: "k \<noteq> 0" using ok(3) True by simp
    have w: "world s' = world s1" and cs: "comms s' = (comms s1)(k \<mapsto> cm\<lparr>tag := next_tag s1\<rparr>)"
      using assms(6) t i k cm by (auto simp: psm2_nccl_listen_def load_comm_def Let_def)
    have c1: "comms s1 k = Some cm" using cm by simp
    note p = lib_part_store [OF c1 _ cs]
    have "has_queues s1" by (rule has_queues_add [OF assms(5) cm])
    then show ?thesis using l(1) w p by (simp add: lib_part_def)
  next
    case False
    then have cs: "comms s1 = comms s" and "k = 0" using ok(4) by simp_all
    then have "s' = s1" using assms(6) t i by (simp add: psm2_nccl_listen_def)
    then show ?thesis using l(1) assms(5) cs by (simp add: has_queues_def)
  qed
  then show "lib_calls P (lib_view s) (world s) (lib_view s') (world s')" and "has_queues s'" by blast+
qed

text \<open>The part of connecting that follows the making of the communicator.\<close>

lemma connect_bail_lib:
  assumes "ep_contract P opened" and "ep_inv (opened (world s)) s" and "comms s = cs(k \<mapsto> cm)"
    and "cs k = None" and "k \<noteq> 0" and "connect_bail P k rc s = Ret (r, c, s')"
  shows "lib_calls P (lib_view s) (world s) (lib_view s') (world s')" and "comms s' = cs"
proof -
  have c: "comms s k = Some cm" using assms(3) by simp
  obtain x where f: "psm2comm_fini P k s = Ret (x, s')"
    using assms(5,6) by (auto simp: connect_bail_def obind_eq_Ret)
  show "lib_calls P (lib_view s) (world s) (lib_view s') (world s')"
    by (rule psm2comm_fini_lib [OF assms(1,2) c f])
  have "comms s' = (comms s)(k := None)" using psm2comm_fini_basic [OF assms(1,2) c] f by simp
  then show "comms s' = cs" using assms(3,4) by (simp add: fun_upd_idem)
qed

lemma connect_tail_lib:
  assumes "ep_contract P opened" and "ep_inv (opened (world s)) s" and "comms s = cs(k \<mapsto> cm)"
    and "cs k = None" and "k \<noteq> 0" and "ep cm \<noteq> 0"
    and "psm2_ep_connect P (ep cm) i 1 t (world s) = (prc, err, ad, w')"
    and "lib_part m1 = lib_part cm" and "ep_view m1 = ep_view cm"
    and "(if prc \<noteq> PSM2_OK P \<or> err \<noteq> PSM2_OK P
      then connect_bail P k ncclInternalError (store_comm k m1 s\<lparr>world := w'\<rparr>)
      else Ret (ncclSuccess, k, store_comm k (m1\<lparr>rem_epaddr := ad\<rparr>) (store_comm k m1 s\<lparr>world := w'\<rparr>))) =
      Ret (r, c, s')"
  shows "lib_calls P (lib_view s) (world s) (lib_view s') (world s')"
    and "comms s' = cs \<or> (\<exists>cm'. comms s' = cs(k \<mapsto> cm') \<and> mq cm' = mq cm)"
proof -
  let ?s3 = "store_comm k m1 s\<lparr>world := w'\<rparr>"
  have c: "comms s k = Some cm" using assms(3) by simp
  have c3: "comms ?s3 = cs(k \<mapsto> m1)" and m: "mq m1 = mq cm" "ep m1 = ep cm"
    using assms(3,8) by (simp_all add: lib_part_def)
  have v3: "lib_view ?s3 = lib_view s" by (rule lib_part_store(1) [OF c assms(8)]) simp
  have "ep cm \<in> lib_eps (lib_view s)" using c assms(6) by (auto simp: eps_of_def)
  from lib_one [OF lc_connect [OF assms(7)] ls_connect [OF lib_view_simps(4) this]]
  have l3: "lib_calls P (lib_view s) (world s) (lib_view ?s3) (world ?s3)" using v3 by simp
  have "opened w' = opened (world s)" by (rule ep_contract_quiet(1) [OF assms(1) q_connect [OF assms(7)]])
  then have i3: "ep_inv (opened (world ?s3)) ?s3"
    using ep_inv_view [OF assms(2) c assms(9), of ?s3] by simp
  have "lib_calls P (lib_view s) (world s) (lib_view s') (world s') \<and>
    (comms s' = cs \<or> (\<exists>cm'. comms s' = cs(k \<mapsto> cm') \<and> mq cm' = mq cm))"
  proof (cases "prc \<noteq> PSM2_OK P \<or> err \<noteq> PSM2_OK P")
    case True
    then have "connect_bail P k ncclInternalError ?s3 = Ret (r, c, s')" using assms(10) by simp
    from connect_bail_lib [OF assms(1) i3 c3 assms(4,5) this] show ?thesis
      using lib_calls_trans [OF l3] by blast
  next
    case False
    then have s': "s' = store_comm k (m1\<lparr>rem_epaddr := ad\<rparr>) ?s3" using assms(10) by auto
    have "comms ?s3 k = Some m1" by simp
    from lib_part_store(1) [OF this, of "m1\<lparr>rem_epaddr := ad\<rparr>" s'] have "lib_view s' = lib_view ?s3"
      by (simp add: lib_part_def s')
    moreover have "comms s' = cs(k \<mapsto> m1\<lparr>rem_epaddr := ad\<rparr>)" using s' assms(3) by simp
    ultimately show ?thesis using l3 m s' by auto
  qed
  then show "lib_calls P (lib_view s) (world s) (lib_view s') (world s')"
    and "comms s' = cs \<or> (\<exists>cm'. comms s' = cs(k \<mapsto> cm') \<and> mq cm' = mq cm)" by blast+
qed

lemma connect_lib:
  assumes "comms_ok P opened s" and "room s" and "queue_contract P"
    and "has_queues s" and "psm2_nccl_connect P dev h s = Ret (r, c, s')"
  shows "lib_calls P (lib_view s) (world s) (lib_view s') (world s')" and "has_queues s'"
proof -
  have a: "ep_contract P opened" "policy_ok s" "ep_inv (opened (world s)) s" "heap_ok s"
    "Suc (card (dom (comms s))) < 2 ^ 32"
    using assms(1,2) by (simp_all add: comms_ok_def room_def)
  from psm2comm_init_returns [OF this, of dev "jobkey s"]
  obtain x k s1 where i: "psm2comm_init P dev (jobkey s) s = Ret (x, k, s1)"
    by (auto simp: returns_iff)
  note ok = psm2comm_init_ok [OF assms(1,2) i]
  note l = psm2comm_init_lib [OF assms(1-3) i]
  have "lib_calls P (lib_view s) (world s) (lib_view s') (world s') \<and> has_queues s'"
  proof (cases "x = ncclSuccess")
    case False
    then have cs: "comms s1 = comms s" and "k = 0" using ok(4) by simp_all
    then have "s' = s1" using assms(5) i False
      by (simp add: psm2_nccl_connect_def connect_bail_def)
    then show ?thesis using l(1) assms(4) cs by (simp add: has_queues_def)
  next
    case True
    then obtain cm where cm: "comms s1 = (comms s)(k \<mapsto> cm)" "mq cm \<noteq> 0" using l(2) by blast
    obtain m where m: "comms s1 = (comms s)(k \<mapsto> m)" and "made_comm (use_shared_ep s \<noteq> 0) m"
      and k: "comms s k = None" "k \<noteq> 0" using ok(3) True by auto
    then have e: "ep cm \<noteq> 0" using cm made_comm_simps(1) by (metis fun_upd_same option.inject)
    let ?m1 = "cm\<lparr>rem_epid := h_epid h, tag := h_tag h\<rparr>"
    obtain prc err ad w' where cn: "psm2_ep_connect P (ep cm) (h_epid h) 1
        COMM_EP_CONNECT_TIMEOUT (world s1) = (prc, err, ad, w')"
      by (metis prod_cases4)
    have i1: "ep_inv (opened (world s1)) s1" using ok(1) by (simp add: comms_ok_def)
    have c1: "comms s1 k = Some cm" using cm by simp
    have "(if prc \<noteq> PSM2_OK P \<or> err \<noteq> PSM2_OK P
        then connect_bail P k ncclInternalError (store_comm k ?m1 s1\<lparr>world := w'\<rparr>)
        else Ret (ncclSuccess, k,
          store_comm k (?m1\<lparr>rem_epaddr := ad\<rparr>) (store_comm k ?m1 s1\<lparr>world := w'\<rparr>))) = Ret (r, c, s')"
      using assms(5) i True c1 cn by (simp add: psm2_nccl_connect_def load_comm_def Let_def)
    note t = connect_tail_lib [OF a(1) i1 cm(1) k e cn _ _ this]
    have "lib_part ?m1 = lib_part cm" and "ep_view ?m1 = ep_view cm"
      by (simp_all add: lib_part_def ep_view_def)
    note t = t [OF this]
    have "has_queues s'" using t(2) assms(4) cm(2) by (auto simp: has_queues_def split: if_splits)
    then show ?thesis using lib_calls_trans [OF l(1) t(1)] by blast
  qed
  then show "lib_calls P (lib_view s) (world s) (lib_view s') (world s')" and "has_queues s'" by blast+
qed

section \<open>Sending, receiving, testing\<close>

lemma same_but_reqs_lib:
  assumes "same_but_reqs s s'"
  shows "lib_view s' = lib_view s" and "has_queues s' = has_queues s"
proof -
  have "lib_part \<circ> no_reqs = lib_part" by (auto simp: lib_part_def no_reqs_def)
  moreover have "map_option (lib_part \<circ> no_reqs) (comms s' c) = map_option (lib_part \<circ> no_reqs) (comms s c)" for c
    using assms by (simp add: same_but_reqs_def flip: option.map_comp)
  ultimately have "map_option lib_part (comms s' c) = map_option lib_part (comms s c)" for c by simp
  then show "lib_view s' = lib_view s" and "has_queues s' = has_queues s" by (rule lib_part_eq)+
qed

lemma own_queue:
  assumes "reqs_ok s" and "finite (dom (comms s))" and "has_queues s" and "comms s c = Some cm"
  shows "(ep cm, mq cm) \<in># lib_queues (lib_view s)"
  using in_queues_of [OF assms(2)] assms(3,4) by (auto simp: has_queues_def)

lemma post_request_lib:
  assumes "reqs_ok s" and "finite (dom (comms s))" and "has_queues s" and "comms s c = Some cm"
    and "type = ReqSend \<or> type = ReqRecv" and "post_request P c type call s = Ret (r, ro, s')"
    and "\<And>rs p w rc h w'. call (cm\<lparr>requests := rs\<rparr>) p w = (rc, h, w') \<Longrightarrow>
      lib_call P w (e (mq cm)) w'"
    and "\<And>L q x. (x, q) \<in># lib_queues L \<Longrightarrow> lib_found L = None \<Longrightarrow> lib_step L (e q) L"
  shows "lib_calls P (lib_view s) (world s) (lib_view s) (world s')"
proof (cases "find_unused 0 (requests cm)")
  case None
  then have "s' = s" using post_request_eval(1) [OF assms(1,4,5) None] assms(6) by simp
  then show ?thesis by (simp add: lib_none)
next
  case (Some i)
  let ?rs = "(requests cm)[i := new_req c cm type]"
  obtain rc h w' where k: "call (cm\<lparr>requests := ?rs\<rparr>) (c, i) (world s) = (rc, h, w')"
    by (metis prod_cases3)
  have "world s' = w'"
    using post_request_eval(2) [where call = call, OF assms(1,4,5) Some k] assms(6)
    by (auto simp: store_req_world simp del: store_req.simps split: if_splits)
  then show ?thesis
    using lib_one [OF assms(7) [OF k] assms(8) [OF own_queue [OF assms(1-4)] lib_view_simps(4)]] by simp
qed

lemma isend_lib:
  assumes "reqs_ok s" and "finite (dom (comms s))" and "has_queues s" and "comms s c = Some cm"
    and "psm2_nccl_isend P c d sz tg m s = Ret (r, ro, s')"
  shows "lib_calls P (lib_view s) (world s) (lib_view s) (world s')"
  by (rule post_request_lib [where e = LSend, OF assms(1-4) _ assms(5) [unfolded psm2_nccl_isend_def]])
    (auto intro: lc_send ls_send)

lemma irecv_v4_lib:
  assumes "reqs_ok s" and "finite (dom (comms s))" and "has_queues s" and "comms s c = Some cm"
    and "psm2_nccl_irecv_v4 P c d sz m s = Ret (r, ro, s')"
  shows "lib_calls P (lib_view s) (world s) (lib_view s) (world s')"
  by (rule post_request_lib [where e = LRecv, OF assms(1-4) _ assms(5) [unfolded psm2_nccl_irecv_v4_def]])
    (auto intro: lc_recv ls_recv)

text \<open>Polling a queue: what is found is tested at once, and nothing else is.\<close>

lemma progress_round_lib:
  assumes "consts_ok P" and "progress_round P q s = Ret (x, s')" and "(e, q) \<in># lib_queues L"
    and "lib_found L = None"
  shows "lib_calls P L (world s) L (world s')"
proof -
  obtain rc h w1 where pk: "psm2_mq_ipeek P q (world s) = (rc, h, w1)" by (metis prod_cases3)
  obtain trc st w2 where t: "psm2_mq_test P h w1 = (trc, st, w2)" by (metis prod_cases3)
  note l1 = lib_one [OF lc_peek [OF pk] ls_peek [OF assms(4,3)]]
  have L: "L\<lparr>lib_found := None\<rparr> = L" using assms(4) by simp
  have ne: "PSM2_OK P \<noteq> PSM2_MQ_INCOMPLETE P" using assms(1) by (simp add: consts_ok_def)
  show ?thesis
  proof (cases "rc = PSM2_OK P")
    case True
    then have "world s' = w2"
      using assms(2) pk t ne
      by (auto simp: progress_round_def outcome_simps dest!: complete_req_world_eq split: if_splits)
    moreover have "lib_step (L\<lparr>lib_found := Some h\<rparr>) (LTest h) L"
      using ls_test [of "L\<lparr>lib_found := Some h\<rparr>" h] L by simp
    ultimately show ?thesis using l1 lib_more [OF _ lc_test [OF t]] True by simp
  next
    case False
    then have "world s' = w1"
      using assms(2) pk by (auto simp: progress_round_def outcome_simps split: if_splits)
    then show ?thesis using l1 L False by simp
  qed
qed

lemma mq_progress_loop_lib:
  assumes "mq_progress_loop P q s = Some (Ret (rc, s'))" and "consts_ok P"
    and "(e, q) \<in># lib_queues L" and "lib_found L = None"
  shows "lib_calls P L (world s) L (world s')"
  using mq_progress_loop_rounds [OF assms(1)]
proof (induction rule: rtranclp_induct)
  case base
  show ?case by (rule lib_none)
next
  case (step s1 s2)
  then obtain x where r: "progress_round P q s1 = Ret (x, s2)" by blast
  from lib_calls_trans [OF step.IH progress_round_lib [OF assms(2) r assms(3,4)]] show ?case .
qed

lemma test_lib:
  assumes "reqs_ok s" and "finite (dom (comms s))" and "has_queues s" and "consts_ok P"
    and "psm2_nccl_test P (c, i) hs s = Some (Ret (r, d, sz, s'))"
    and "req_view s (c, i) = Some st" and "st \<noteq> Free"
  shows "lib_calls P (lib_view s) (world s) (lib_view s) (world s')"
proof -
  obtain cm where cm: "comms s c = Some cm" using assms(6) by (auto split: option.splits)
  obtain rc s1 where l: "mq_progress_loop P (mq cm) s = Some (Ret (rc, s1))" and "world s' = world s1"
    by (rule test_polls [OF assms(1) cm assms(5-7)])
  then show ?thesis
    using mq_progress_loop_lib [OF l assms(4) own_queue [OF assms(1-3) cm]] by simp
qed

section \<open>Initialising\<close>

lemma init_finish_lib:
  assumes "lib_found L = None"
  shows "\<exists>ok. lib_calls P L (world s) (L\<lparr>lib_ready := lib_ready L \<or> ok\<rparr>) (world (snd (init_finish P c g s))) \<and>
     (fst (init_finish P c g s) = ncclSuccess \<longrightarrow> ok)"
proof -
  obtain rc w' where i: "psm2_init P (PSM2_VERNO_MAJOR P) (PSM2_VERNO_MINOR P) (world s) = (rc, w')"
    by fastforce
  have "world (snd (init_finish P c g s)) = w'" and "fst (init_finish P c g s) = ncclSuccess \<longleftrightarrow> rc = PSM2_OK P"
    using i by (simp_all add: init_finish_def Let_def)
  then show ?thesis using lib_one [OF lc_init [OF i] ls_init [OF assms]] by auto
qed

lemma init_gpudirect_lib:
  assumes "lib_found L = None"
  shows "\<exists>ok. lib_calls P L (world s) (L\<lparr>lib_ready := lib_ready L \<or> ok\<rparr>) (world (snd (init_gpudirect P s))) \<and>
     (fst (init_gpudirect P s) = ncclSuccess \<longrightarrow> ok)"
proof -
  have none: "\<exists>ok. lib_calls P L w (L\<lparr>lib_ready := lib_ready L \<or> ok\<rparr>) w \<and> (False \<longrightarrow> ok)" for w
    by (rule exI [of _ False]) (simp add: lib_none)
  have fin: "\<exists>ok. lib_calls P L (world s) (L\<lparr>lib_ready := lib_ready L \<or> ok\<rparr>)
      (world (snd (init_finish P c g (s\<lparr>use_gpudirect := d\<rparr>)))) \<and>
     (fst (init_finish P c g (s\<lparr>use_gpudirect := d\<rparr>)) = ncclSuccess \<longrightarrow> ok)" for c g d
    using init_finish_lib [OF assms, of P "s\<lparr>use_gpudirect := d\<rparr>" c g] by simp
  show ?thesis
    unfolding init_gpudirect_def Let_def using none [of "world s"] fin
    by (auto split: option.split)
qed

lemma init_lib:
  assumes "psm2_nccl_init P f s = (r, s')" and "lib_found L = None"
  obtains ok where "lib_calls P L (world s) (L\<lparr>lib_ready := lib_ready L \<or> ok\<rparr>) (world s')"
    and "r = ncclSuccess \<Longrightarrow> ok"
proof -
  obtain lrc s1 where l: "psm2_nccl_init_logging P f s = (lrc, s1)" by fastforce
  then have w: "world s1 = world s" by (rule init_logging_world)
  have "(r = ncclInternalError \<and> world s' = world s) \<or>
      (\<exists>u. world u = world s \<and> init_gpudirect P u = (r, s'))"
    using assms l w by (auto simp: psm2_nccl_init_def Let_def split: option.splits if_splits)
  then show thesis
  proof (elim disjE conjE exE)
    assume "r = ncclInternalError" and "world s' = world s"
    then show thesis using that [of False] by (simp add: lib_none)
  next
    fix u assume "world u = world s" and "init_gpudirect P u = (r, s')"
    then show thesis using init_gpudirect_lib [OF assms(2), of P u] that by auto
  qed
qed

section \<open>Every step\<close>

lemma plugin_step_lib:
  assumes "system_ok P opened posted s" and "queue_contract P" and "has_queues s"
    and "plugin_step P s (a, r, out) s'"
  shows "lib_calls P (lib_view s) (world s) (lib_view s') (world s') \<and> has_queues s'"
proof -
  have pl: "plugin_ok P opened posted s" using assms(1) by (simp add: system_ok_def)
  note ok = plugin_okD [OF pl]
  have fin: "finite (dom (comms s))" and inv: "ep_inv (opened (world s)) s"
    using ok(1) by (simp_all add: comms_ok_def ep_inv_def)
  have al: "allowed s a" and e: "run_call P a s = Some (Ret (r, out, s'))"
    using assms(4) by (simp_all add: plugin_step_def)
  have same: ?thesis if "s' = s" using that assms(3) by (simp add: lib_none)
  have data: ?thesis if "same_but_reqs s s'" and "lib_calls P (lib_view s) (world s) (lib_view s) (world s')"
    using that same_but_reqs_lib [OF that(1)] assms(3) by simp
  have query: ?thesis if "comms s' = comms s" and "sys_calls P (world s) (world s')"
    unfolding lib_view_cong [OF that(1)]
    using sys_calls_lib [OF that(2)] assms(3) that(1) by (simp add: has_queues_def)
  have fini: ?thesis if c: "live c s" and f: "psm2comm_fini P c s = Ret (r, s')" for c
  proof -
    obtain cm where cm: "comms s c = Some cm" using c by (auto simp: live_def)
    have "comms s' = (comms s)(c := None)" using psm2comm_fini_basic [OF ok(6) inv cm] f by simp
    then show ?thesis
      using psm2comm_fini_lib [OF ok(6) inv cm f] assms(3) by (simp add: has_queues_def)
  qed
  show ?thesis
  proof (cases a)
    case (Init f)
    then have i: "psm2_nccl_init P f s = (r, s')" using e by (simp split: prod.splits)
    have cs: "comms s' = comms s" using psm2_nccl_init_frame [of P f s] i by simp
    obtain b where "lib_calls P (lib_view s) (world s) (lib_view s\<lparr>lib_ready := lib_ready (lib_view s) \<or> b\<rparr>)
        (world s')" using i lib_view_simps(4) by (rule init_lib)
    moreover have "lib_view s\<lparr>lib_ready := lib_ready (lib_view s) \<or> b\<rparr> = lib_view s" by (simp add: lib_view_def)
    ultimately have "lib_calls P (lib_view s) (world s) (lib_view s) (world s')" by metis
    then show ?thesis unfolding lib_view_cong [OF cs] using assms(3) cs by (simp add: has_queues_def)
  next
    case Devices
    obtain r' n s1 where d: "psm2_nccl_devices P s = (r', n, s1)" by (metis surj_pair)
    then have "s1 = s'" using e Devices by simp
    moreover have "comms s1 = comms s" by (subst devices_sys(2) [OF d]) simp
    ultimately show ?thesis using query devices_sys(1) [OF d] by simp
  next
    case (GetProperties dev props)
    then obtain ps where p: "psm2_nccl_getProperties P dev props s = Ret (r, ps, s')"
      using e by (auto simp: obind_eq_Ret)
    have "v8_pciPath props = 0" and "heap_ok s" and "realpath_contract P"
      using al GetProperties ok(1) assms(1) by (simp_all add: comms_ok_def system_ok_def)
    then have "same_plugin s s'" using getProperties_returns [of s P props dev] p by simp
    then show ?thesis using query getProperties_sys [OF p] by (simp add: same_plugin_def)
  next
    case (Listen dev)
    then obtain c h where l: "psm2_nccl_listen P dev s = Ret (r, c, h, s')"
      using e by (auto simp: obind_eq_Ret)
    have "room s" and "tags_left s" using al Listen by simp_all
    from listen_lib [OF ok(1) this assms(2,3) l] show ?thesis by blast
  next
    case (Connect dev h)
    then obtain c where l: "psm2_nccl_connect P dev h s = Ret (r, c, s')"
      using e by (auto simp: obind_eq_Ret psm2_nccl_connect_v8_def)
    have "room s" using al Connect by simp
    from connect_lib [OF ok(1) this assms(2,3) l] show ?thesis by blast
  next
    case (Accept c)
    then show ?thesis using e by (intro same) (simp add: psm2_nccl_accept_v8_def psm2_nccl_accept_def)
  next
    case (RegMr c d sz type mh)
    then show ?thesis using e by (intro same) (simp add: psm2_nccl_regMr_v8_def)
  next
    case (RegMrDmaBuf c d sz type off fd mh)
    then show ?thesis using e by (intro same) (simp add: psm2_nccl_regMrDmaBuf_def)
  next
    case (DeregMr c mh)
    then show ?thesis using e by (intro same) (simp add: psm2_nccl_deregMr_def)
  next
    case (ISend c d sz tg)
    then obtain ro where p: "psm2_nccl_isend P c d sz tg 0 s = Ret (r, ro, s')"
      using e by (auto simp: obind_eq_Ret)
    obtain cm where cm: "comms s c = Some cm" and sz: "0 \<le> sz" "sz \<le> INT_MAX"
      using al ISend by (auto simp: live_def)
    have "same_but_reqs s s'" using psm2_nccl_isend_returns [OF pl cm sz, of d tg 0] p by simp
    then show ?thesis by (rule data) (rule isend_lib [OF ok(4) fin assms(3) cm p])
  next
    case (IRecv c n ds szs tags mhs)
    then obtain cm d ds' sz szs' mh mhs' where cm: "comms s c = Some cm" and n: "n \<le> 1"
      and l: "ds = d # ds'" "szs = sz # szs'" "mhs = mh # mhs'" and sz: "0 \<le> sz" "sz \<le> INT_MAX"
      using al by (auto simp: live_def neq_Nil_conv)
    then obtain ro where p: "psm2_nccl_irecv_v4 P c d sz mh s = Ret (r, ro, s')"
      using e IRecv by (auto simp: obind_eq_Ret psm2_nccl_irecv_def NCCL_NET_PSM2_MAX_RECVS_def)
    have "same_but_reqs s s'" using psm2_nccl_irecv_v4_returns [OF pl cm sz, of d mh] p by simp
    then show ?thesis by (rule data) (rule irecv_v4_lib [OF ok(4) fin assms(3) cm p])
  next
    case (IFlush c n ds szs mhs request)
    then have "n \<le> 1" "ds \<noteq> []" "szs \<noteq> []" "mhs \<noteq> []" using al by simp_all
    then show ?thesis using e IFlush
      by (intro same) (auto simp: psm2_nccl_iflush_def psm2_nccl_iflush_v4_def
          NCCL_NET_PSM2_MAX_RECVS_def neq_Nil_conv)
  next
    case (Test p hs)
    obtain st where v: "req_view s p = Some st" and h: "hs \<or> req_kind st \<noteq> ReqRecv"
      using al Test by (auto split: option.splits simp del: req_view.simps)
    obtain d sz where t: "psm2_nccl_test P p hs s = Some (Ret (r, d, sz, s'))"
      using e Test by (auto simp: obind_eq_Ret)
    show ?thesis
    proof (cases "st = Free")
      case True
      then show ?thesis using test_free [of s p P hs] v t by (intro same) simp
    next
      case False
      obtain c i where p: "p = (c, i)" by fastforce
      have "same_but_reqs s s'"
        using psm2_nccl_test_returns [OF pl v False h] t by auto
      then show ?thesis
        by (rule data) (rule test_lib [OF ok(4) fin assms(3) ok(3) t [unfolded p] v [unfolded p] False])
    qed
  next
    case (CloseSend c)
    then show ?thesis using e al by (intro fini [of c]) (auto simp: psm2_nccl_closeSend_def obind_eq_Ret)
  next
    case (CloseRecv c)
    then show ?thesis using e al by (intro fini [of c]) (auto simp: psm2_nccl_closeRecv_def obind_eq_Ret)
  next
    case (CloseListen c)
    then show ?thesis using e by (intro same) (simp add: psm2_nccl_closeListen_def)
  qed
qed

section \<open>Every run\<close>

lemma plugin_runs_lib:
  assumes "queue_contract P"
  shows "runs (plugin_step P) s es s' \<Longrightarrow> system_ok P opened posted s \<Longrightarrow> has_queues s \<Longrightarrow>
    lib_calls P (lib_view s) (world s) (lib_view s') (world s') \<and> has_queues s'"
proof (induction rule: runs.induct)
  case (runs_none s)
  then show ?case by (simp add: lib_none)
next
  case (runs_more s e s1 es s2)
  obtain a r out where e: "e = (a, r, out)" by (cases e)
  note st = plugin_step_lib [OF runs_more.prems(1) assms runs_more.prems(2)
      runs_more.hyps(1) [unfolded e]]
  have "system_ok P opened posted s1"
    by (rule plugin_step_ok(1) [OF runs_more.prems(1) runs_more.hyps(1)])
  then have "lib_calls P (lib_view s1) (world s1) (lib_view s2) (world s2)" and "has_queues s2"
    using st runs_more.IH by blast+
  then show ?case using st by (blast intro: lib_calls_trans)
qed

text \<open>From the start of the process: the first initialisation succeeds, then any run.\<close>

lemma started_lib:
  assumes "library_ok P opened posted w0" and "queue_contract P"
    and "psm2_nccl_init P f (initial_plugin w0) = (ncclSuccess, s)" and "runs (plugin_step P) s es s'"
  shows "lib_calls P lib_start w0 (lib_view s') (world s')" and "has_queues s'"
proof -
  obtain ok where i: "lib_calls P lib_start (world (initial_plugin w0))
      (lib_start\<lparr>lib_ready := lib_ready lib_start \<or> ok\<rparr>) (world s)" and ok
    using init_lib [OF assms(3), where L = lib_start] by (auto simp: lib_start_def)
  have "s = snd (psm2_nccl_init P f (initial_plugin w0))" using assms(3) by simp
  then have cs: "comms s = Map.empty" using psm2_nccl_init_frame [of P f "initial_plugin w0"] by simp
  have "lib_view s = lib_start\<lparr>lib_ready := lib_ready lib_start \<or> ok\<rparr>"
    using \<open>ok\<close> cs by (simp add: lib_view_def lib_start_def eps_of_def queues_of_def)
  then have "lib_calls P lib_start w0 (lib_view s) (world s)" using i by (simp add: initial_plugin_def)
  moreover have "has_queues s" using cs by (simp add: has_queues_def)
  with plugin_runs_lib [OF assms(2,4) init_system_ok [OF assms(1,3)]]
  have "lib_calls P (lib_view s) (world s) (lib_view s') (world s')" and "has_queues s'" by blast+
  ultimately show "lib_calls P lib_start w0 (lib_view s') (world s')" and "has_queues s'"
    by (blast intro: lib_calls_trans)+
qed

text \<open>The same over the platform that records its calls.\<close>

lemma traced_queue_contract: "queue_contract P \<Longrightarrow> queue_contract (traced P)"
  unfolding queue_contract_def traced_iff traced_consts by blast

lemma started_traced:
  assumes "library_ok P opened posted w0" and "queue_contract P"
    and "psm2_nccl_init (traced P) f (initial_plugin (w0, [])) = (ncclSuccess, s)"
    and "runs (plugin_step (traced P)) s es s'"
  shows "runs lib_step lib_start (snd (world s')) (lib_view s')" and "has_queues s'"
proof -
  note l = started_lib [OF traced_library_ok [OF assms(1)] traced_queue_contract [OF assms(2)] assms(3,4)]
  show "runs lib_step lib_start (snd (world s')) (lib_view s')" using traced_runs [OF l(1)] by simp
  show "has_queues s'" by (rule l(2))
qed

end
