(* ===== verification/Completion.thy ===== *)
theory Completion
  imports Plugin_System
begin

text \<open>
  That no operation is lost and none is left behind: the requests in flight are those whose
  operations the library has, and, once the library has completed these, testing each request
  once and closing the communicators, in any order, takes the plugin down to where it started.
\<close>

section \<open>No operation is lost\<close>

text \<open>
  Closing an endpoint or finalising a queue drops no operation. This is assumed of every close
  and every queue, without a condition on what is outstanding, which is more than the
  plugin needs: it is asked to close a communicator only when none of the operations posted on
  it is outstanding.
\<close>

definition keeps_posted ::
  "'w platform \<Rightarrow> ('w \<Rightarrow> (req_ptr \<times> 32 word) multiset) \<Rightarrow> bool" where
  "keeps_posted P posted \<longleftrightarrow>
     (\<forall>e m t w rc w'. psm2_ep_close P e m t w = (rc, w') \<longrightarrow> posted w' = posted w) \<and>
     (\<forall>q w rc w'. psm2_mq_finalize P q w = (rc, w') \<longrightarrow> posted w' = posted w)"

lemma control_calls_keep:
  assumes "mq_contract P posted" and "keeps_posted P posted" and "control_calls P w w'"
  shows "posted w' = posted w"
  using assms(3)
proof (induction rule: control_calls.induct)
  case (cc_quiet w w1 w2)
  then show ?case using mq_contract_control(1) [OF assms(1)] by metis
next
  case (cc_open w w1 u opts rc e i w2)
  then show ?case using mq_contract_control(2) [OF assms(1)] by metis
next
  case (cc_close w w1 e m t rc w2)
  then show ?case using assms(2) unfolding keeps_posted_def by metis
next
  case (cc_finalize w w1 q rc w2)
  then show ?case using assms(2) unfolding keeps_posted_def by metis
qed simp

definition all_posted :: "('w \<Rightarrow> (req_ptr \<times> 32 word) multiset) \<Rightarrow> 'w plugin \<Rightarrow> bool" where
  "all_posted posted s \<longleftrightarrow> (\<forall>p. pending s p \<longrightarrow> (\<exists>l. (p, l) \<in># posted (world s)))"

text \<open>A request that is in flight after a step either was before, or the step handed it out.\<close>

lemma spec_step_inflight:
  assumes "spec_step a e a'" and "sp_req a' p = Some (InFlight t)" and "ev_posts e \<noteq> Some p"
  shows "sp_req a p = Some (InFlight t)"
  using assms(1)
proof cases
  case (sp_test q st v st1 d sz st2 has_size)
  have e: "v x = Some (InFlight t) \<Longrightarrow> sp_req a x = Some (InFlight t)" for x
    using sp_test(5) unfolding some_end_def by (metis option.inject req_state.distinct(5))
  show ?thesis
  proof (cases "p = q")
    case True
    then have "st2 = InFlight t" using sp_test(2) assms(2) by simp
    then have "st1 = InFlight t" using sp_test(7) by (cases st1) auto
    then show ?thesis using e sp_test(6) True by blast
  qed (use e sp_test(2) assms(2) in simp)
qed (use assms(2,3) in \<open>auto simp: spec_open_def spec_close_def split: if_splits\<close>)

lemma pending_spec: "pending s p \<longleftrightarrow> (\<exists>t. sp_req (plugin_abs s) p = Some (InFlight t))"
  by (simp add: pending_view del: req_view.simps)

lemma pending_step:
  assumes "spec_step (plugin_abs s) e (plugin_abs s')" and "pending s' p" and "ev_posts e \<noteq> Some p"
  shows "pending s p"
  using spec_step_inflight [OF assms(1) _ assms(3)] assms(2) unfolding pending_spec by blast

text \<open>What a step does to the operations that the library has.\<close>

definition posted_step ::
  "('w \<Rightarrow> (req_ptr \<times> 32 word) multiset) \<Rightarrow> 'w plugin \<Rightarrow> event \<Rightarrow> 'w plugin \<Rightarrow> bool" where
  "posted_step posted s e s' \<longleftrightarrow> (\<exists>new ended. posted (world s') + ended = posted (world s) + new \<and>
     fst ` set_mset new = set_option (ev_posts e) \<and> (\<forall>(p, l) \<in># ended. \<not> pending s' p))"

lemma posted_step_same:
  "posted (world s') = posted (world s) \<Longrightarrow> ev_posts e = None \<Longrightarrow> posted_step posted s e s'"
  unfolding posted_step_def by (intro exI [of _ "{#}"]) simp

lemma posted_step_post:
  "post_result posted c t l s r ro s' \<Longrightarrow> posted_step posted s (a, r, Request ro) s'"
  unfolding posted_step_def
  by (rule exI [of _ "case ro of None \<Rightarrow> {#} | Some p \<Rightarrow> {#(p, l)#}"], rule exI [of _ "{#}"])
    (auto simp: post_result_def simp del: req_view.simps split: option.splits if_splits)

lemma posted_inflight:
  assumes "plugin_ok P opened posted s" and "(p, l) \<in># posted (world s)"
  shows "\<exists>t. req_view s p = Some (InFlight t)"
  using posted_ok_pending [OF plugin_okD(5) [OF assms(1)] assms(2)] unfolding pending_view by blast

lemma posted_step_test:
  assumes "plugin_ok P opened posted s" and "req_view s p = Some st" and "has_size \<or> req_kind st \<noteq> ReqRecv"
    and "psm2_nccl_test P p has_size s = Some (Ret (r, d, sz, s'))"
  shows "posted_step posted s (Test p has_size, r, Tested d sz) s'"
proof (cases "st = Free")
  case True
  then have "s' = s" using test_free [of s p P has_size] assms(2,4) by simp
  then show ?thesis by (simp add: posted_step_same)
next
  case False
  from psm2_nccl_test_returns [OF assms(1,2) False assms(3)] assms(4) obtain s1 sts st1
    where pol: "polled posted s sts s1" and w: "world s' = world s1"
      and f: "fold spec_end sts (req_view s) p = Some st1"
      and rep: "spec_report st1 = ((d, sz), the (req_view s' p))"
      and v: "req_view s' = (fold spec_end sts (req_view s))(p := req_view s' p)"
      and n: "req_view s' p \<noteq> None" by auto
  obtain ls where po: "posted (world s) = posted (world s') + mset (zip (map s_context sts) ls)"
    using pol w unfolding polled_def by auto
  have "\<not> pending s' q" if q: "(q, l) \<in> set (zip (map s_context sts) ls)" for q l
  proof -
    have "q \<in> s_context ` set sts" using q by (auto dest: set_zip_leftD)
    then obtain e where e: "e \<in> set sts" "s_context e = q" by blast
    have "(q, l) \<in># posted (world s)" using q po by simp
    from posted_inflight [OF assms(1) this] obtain t where t: "req_view s q = Some (InFlight t)" by blast
    from fold_spec_end_ended [where v = "req_view s", OF t e]
    obtain m where m: "fold spec_end sts (req_view s) q = Some (Finished t m)" by blast
    show ?thesis
    proof (cases "q = p")
      case True
      then have "the (req_view s' q) = Free" using m f rep by auto
      then show ?thesis using n True by (auto simp: pending_view simp del: req_view.simps)
    next
      case False
      then have "req_view s' q = Some (Finished t m)" using m v by (metis fun_upd_other)
      then show ?thesis by (simp add: pending_view del: req_view.simps)
    qed
  qed
  then show ?thesis
    unfolding posted_step_def
    by (intro exI [of _ "{#}"] exI [of _ "mset (zip (map s_context sts) ls)"]) (auto simp: po)
qed

lemma all_posted_step:
  assumes "spec_step (plugin_abs s) e (plugin_abs s')" and "posted_step posted s e s'"
    and "all_posted posted s"
  shows "all_posted posted s'"
  unfolding all_posted_def
proof (intro allI impI)
  fix p assume p: "pending s' p"
  obtain new ended where eq: "posted (world s') + ended = posted (world s) + new"
    and new: "fst ` set_mset new = set_option (ev_posts e)"
    and ended: "\<forall>(p, l) \<in># ended. \<not> pending s' p"
    using assms(2) unfolding posted_step_def by blast
  have "\<exists>l. (p, l) \<in># posted (world s) + new"
  proof (cases "ev_posts e = Some p")
    case True
    then have "p \<in> fst ` set_mset new" using new by simp
    then show ?thesis by auto
  next
    case False
    then have "pending s p" using pending_step [OF assms(1) p] by blast
    then have "\<exists>l. (p, l) \<in># posted (world s)" using assms(3) unfolding all_posted_def by blast
    then show ?thesis by auto
  qed
  then obtain l where "(p, l) \<in># posted (world s') + ended" unfolding eq by blast
  moreover have "(p, l) \<notin># ended" using ended p by auto
  ultimately show "\<exists>l. (p, l) \<in># posted (world s')" by auto
qed

text \<open>The calls that set up, tear down or ask make control calls only.\<close>

fun data_call :: "api_call \<Rightarrow> bool" where
  "data_call (ISend c d sz tg) = True"
| "data_call (IRecv c n ds szs tags mhs) = True"
| "data_call (Test p has_size) = True"
| "data_call _ = False"

lemma control_step:
  assumes "system_ok P opened posted s" and "plugin_step P s (a, r, out) s'" and "\<not> data_call a"
  shows "control_calls P (world s) (world s') \<and> ev_posts (a, r, out) = None"
proof -
  have pl: "plugin_ok P opened posted s" using assms(1) by (simp add: system_ok_def)
  note co = plugin_okD(1) [OF pl]
  have al: "allowed s a" and e: "run_call P a s = Some (Ret (r, out, s'))"
    using assms(2) by (simp_all add: plugin_step_def)
  have fini: "control_calls P (world s) (world s')"
    if c: "live c s" and f: "psm2comm_fini P c s = Ret (r, s')" for c
  proof -
    obtain cm where cm: "comms s c = Some cm" using c by (auto simp: live_def)
    show ?thesis by (rule comm_step_facts(2) [OF psm2comm_fini_ok(2) [OF co cm f]])
  qed
  show ?thesis
  proof (cases a)
    case (Init f)
    then show ?thesis using e init_control [of P s f] by (auto split: prod.splits)
  next
    case Devices
    obtain r' n s1 where d: "psm2_nccl_devices P s = (r', n, s1)" by (metis surj_pair)
    then show ?thesis using e Devices sys_calls_control [OF devices_sys(1) [OF d]] by auto
  next
    case (GetProperties dev props)
    then obtain ps where p: "psm2_nccl_getProperties P dev props s = Ret (r, ps, s')" "out = Props ps"
      using e by (auto simp: obind_eq_Ret)
    then show ?thesis using sys_calls_control [OF getProperties_sys [OF p(1)]] by simp
  next
    case (Listen dev)
    then obtain c h where l: "psm2_nccl_listen P dev s = Ret (r, c, h, s')" "out = Listener c h"
      using e by (auto simp: obind_eq_Ret)
    have "room s" and "tags_left s" using al Listen by simp_all
    from psm2_nccl_listen_returns [OF co this, of dev] show ?thesis using l by simp
  next
    case (Connect dev h)
    then obtain c where l: "psm2_nccl_connect P dev h s = Ret (r, c, s')" "out = Comm c 0"
      using e by (auto simp: obind_eq_Ret psm2_nccl_connect_v8_def)
    have "room s" using al Connect by simp
    from psm2_nccl_connect_returns [OF co this, of dev h] show ?thesis using l by simp
  next
    case (Accept c)
    then show ?thesis using e by (auto simp: psm2_nccl_accept_v8_def psm2_nccl_accept_def)
  next
    case (IFlush c n ds szs mhs request)
    then have "n \<le> 1" "ds \<noteq> []" "szs \<noteq> []" "mhs \<noteq> []" using al by simp_all
    then show ?thesis using e IFlush by (auto simp: psm2_nccl_iflush_def psm2_nccl_iflush_v4_def
          NCCL_NET_PSM2_MAX_RECVS_def neq_Nil_conv)
  next
    case (CloseSend c)
    then show ?thesis using e al fini [of c] by (auto simp: psm2_nccl_closeSend_def obind_eq_Ret)
  next
    case (CloseRecv c)
    then show ?thesis using e al fini [of c] by (auto simp: psm2_nccl_closeRecv_def obind_eq_Ret)
  qed (use e assms(3) in \<open>auto simp: psm2_nccl_regMr_v8_def psm2_nccl_regMrDmaBuf_def
      psm2_nccl_deregMr_def psm2_nccl_closeListen_def\<close>)
qed

lemma data_step:
  assumes "system_ok P opened posted s" and "plugin_step P s (a, r, out) s'" and "data_call a"
  shows "posted_step posted s (a, r, out) s'"
proof -
  have pl: "plugin_ok P opened posted s" using assms(1) by (simp add: system_ok_def)
  have al: "allowed s a" and e: "run_call P a s = Some (Ret (r, out, s'))"
    using assms(2) by (simp_all add: plugin_step_def)
  from assms(3) show ?thesis
  proof (cases a rule: data_call.cases)
    case (1 c d sz tg)
    then obtain ro where p: "psm2_nccl_isend P c d sz tg 0 s = Ret (r, ro, s')" and o: "out = Request ro"
      using e by (auto simp: obind_eq_Ret)
    obtain cm where cm: "comms s c = Some cm" and sz: "0 \<le> sz" "sz \<le> INT_MAX"
      using al 1 by (auto simp: live_def)
    have "post_result posted c ReqSend (int_to_u32 sz) s r ro s'"
      using psm2_nccl_isend_returns [OF pl cm sz, of d tg 0] p by simp
    then show ?thesis unfolding o by (rule posted_step_post)
  next
    case (2 c n ds szs tags mhs)
    then obtain cm d ds' sz szs' mh mhs' where cm: "comms s c = Some cm" and n: "n \<le> 1"
      and l: "ds = d # ds'" "szs = sz # szs'" "mhs = mh # mhs'" and sz: "0 \<le> sz" "sz \<le> INT_MAX"
      using al by (auto simp: live_def neq_Nil_conv)
    then obtain ro where p: "psm2_nccl_irecv_v4 P c d sz mh s = Ret (r, ro, s')" and o: "out = Request ro"
      using e 2 by (auto simp: obind_eq_Ret psm2_nccl_irecv_def NCCL_NET_PSM2_MAX_RECVS_def)
    have "post_result posted c ReqRecv (int_to_u32 sz) s r ro s'"
      using psm2_nccl_irecv_v4_returns [OF pl cm sz, of d mh] p by simp
    then show ?thesis unfolding o by (rule posted_step_post)
  next
    case (3 p hs)
    obtain st where v: "req_view s p = Some st" and h: "hs \<or> req_kind st \<noteq> ReqRecv"
      using al 3 by (auto split: option.splits simp del: req_view.simps)
    obtain d sz where t: "psm2_nccl_test P p hs s = Some (Ret (r, d, sz, s'))" and o: "out = Tested d sz"
      using e 3 by (auto simp: obind_eq_Ret)
    show ?thesis unfolding 3 o by (rule posted_step_test [OF pl v h t])
  qed simp_all
qed

lemma plugin_step_posted:
  assumes "system_ok P opened posted s" and "keeps_posted P posted" and "all_posted posted s"
    and "plugin_step P s e s'"
  shows "all_posted posted s'"
proof -
  obtain a r out where e: "e = (a, r, out)" by (cases e)
  note st = assms(4) [unfolded e]
  have mq: "mq_contract P posted"
    using assms(1) plugin_okD(2) by (auto simp: system_ok_def)
  have "posted_step posted s (a, r, out) s'"
  proof (cases "data_call a")
    case True
    show ?thesis by (rule data_step [OF assms(1) st True])
  next
    case False
    note c = control_step [OF assms(1) st False]
    then show ?thesis using posted_step_same control_calls_keep [OF mq assms(2)] by blast
  qed
  then show ?thesis using all_posted_step [OF plugin_step_ok(4) [OF assms(1,4)]] assms(3) e by blast
qed

text \<open>So the operations that the library has are those of the requests in flight, once each.\<close>

lemma runs_all_posted:
  "runs (plugin_step P) s es s' \<Longrightarrow> keeps_posted P posted \<Longrightarrow> system_ok P opened posted s \<Longrightarrow>
     all_posted posted s \<Longrightarrow> all_posted posted s'"
proof (induction rule: runs.induct)
  case (runs_more s e s1 es s2)
  then show ?case using plugin_step_posted plugin_step_ok(1) by blast
qed

lemma init_all_posted:
  assumes "psm2_nccl_init P f (initial_plugin w0) = (ncclSuccess, s)"
  shows "all_posted posted s"
proof -
  have "s = snd (psm2_nccl_init P f (initial_plugin w0))" using assms by simp
  then have "comms s = Map.empty" using psm2_nccl_init_frame [of P f "initial_plugin w0"] by simp
  then show ?thesis by (simp add: all_posted_def)
qed

lemma posted_in_flight:
  assumes "plugin_ok P opened posted s" and "all_posted posted s"
  shows "image_mset fst (posted (world s)) = mset_set {p. \<exists>t. req_view s p = Some (InFlight t)}"
proof (rule multiset_eqI)
  fix p
  let ?M = "image_mset fst (posted (world s))" and ?A = "{p. \<exists>t. req_view s p = Some (InFlight t)}"
  note ok = plugin_okD(5) [OF assms(1)]
  have m: "x \<in># ?M \<longleftrightarrow> x \<in> ?A" for x
  proof
    assume "x \<in># ?M"
    then obtain l where "(x, l) \<in># posted (world s)" by auto
    from posted_inflight [OF assms(1) this] show "x \<in> ?A" by blast
  next
    assume "x \<in> ?A"
    then have "pending s x" by (simp add: pending_view del: req_view.simps)
    then obtain l where "(x, l) \<in># posted (world s)" using assms(2) unfolding all_posted_def by blast
    then show "x \<in># ?M" by force
  qed
  then have "?A = set_mset ?M" by blast
  then have fin: "finite ?A" by simp
  have le: "count ?M p \<le> 1" using ok unfolding posted_ok_def by blast
  show "count ?M p = count (mset_set ?A) p"
  proof (cases "p \<in> ?A")
    case True
    then have "count ?M p \<noteq> 0" using m [of p] not_in_iff [of p ?M] by metis
    then have "count ?M p = 1" using le by linarith
    then show ?thesis using True fin by simp
  next
    case False
    then have "count ?M p = 0" using m [of p] by (simp add: count_eq_zero_iff)
    then show ?thesis using False by simp
  qed
qed

section \<open>Taking the plugin down\<close>

text \<open>
  Every operation of the communicators that are open has completed: whenever the queue of one
  of them is reported idle, now or after any further polling, none of its operations is left.
\<close>

definition completed ::
  "'w platform \<Rightarrow> ('w \<Rightarrow> (req_ptr \<times> 32 word) multiset) \<Rightarrow> 'w plugin \<Rightarrow> bool" where
  "completed P posted s \<longleftrightarrow> (\<forall>c cm w p l. comms s c = Some cm \<longrightarrow> poll_calls P (world s) w \<longrightarrow>
     queue_empty P (mq cm) w \<longrightarrow> (p, l) \<in># posted w \<longrightarrow> fst p \<noteq> c)"

lemma completed_poll:
  assumes "completed P posted s" and "same_but_reqs s s'" and "poll_calls P (world s) (world s')"
  shows "completed P posted s'"
  unfolding completed_def
proof (intro allI impI)
  fix c cm w p l
  assume c: "comms s' c = Some cm" and w: "poll_calls P (world s') w" "queue_empty P (mq cm) w"
    "(p, l) \<in># posted w"
  obtain rs where "comms s c = Some (cm\<lparr>requests := rs\<rparr>)"
    using same_but_reqs_comm [OF same_but_reqs_sym [OF assms(2)] c] .
  moreover have "poll_calls P (world s) w" by (rule rtranclp_trans [OF assms(3) w(1)])
  moreover have "queue_empty P (mq (cm\<lparr>requests := rs\<rparr>)) w" using w(2) by simp
  ultimately show "fst p \<noteq> c" using assms(1) w(3) unfolding completed_def by blast
qed

text \<open>One test of a request that NCCL has.\<close>

definition with_nccl :: "'w plugin \<Rightarrow> req_ptr set" where
  "with_nccl s = {p. req_view s p \<noteq> None \<and> req_view s p \<noteq> Some Free}"

lemma completed_test:
  assumes "system_ok P opened posted s" and "all_posted posted s" and "completed P posted s"
    and "p \<in> with_nccl s"
  obtains n s' where "plugin_step P s (Test p True, ncclSuccess, Tested 1 n) s'"
    and "with_nccl s' = with_nccl s - {p}" and "same_but_reqs s s'"
    and "all_posted posted s'" and "completed P posted s'"
proof -
  have pl: "plugin_ok P opened posted s" using assms(1) by (simp add: system_ok_def)
  note ok = plugin_okD [OF pl]
  obtain st where st: "req_view s p = Some st" "st \<noteq> Free" using assms(4) by (auto simp: with_nccl_def)
  obtain c i where p: "p = (c, i)" by fastforce
  obtain cm where cm: "comms s c = Some cm" using st(1) by (auto simp: p split: option.splits)
  from psm2_nccl_test_returns [OF pl st, of True] obtain d sz s' sts st1
    where t: "psm2_nccl_test P p True s = Some (Ret (ncclSuccess, d, sz, s'))"
      and sb: "same_but_reqs s s'"
      and f: "fold spec_end sts (req_view s) p = Some st1"
      and rep: "spec_report st1 = ((d, sz), the (req_view s' p))"
      and v: "req_view s' = (fold spec_end sts (req_view s))(p := req_view s' p)"
      and n: "req_view s' p \<noteq> None" by auto
  have step: "plugin_step P s (Test p True, ncclSuccess, Tested d sz) s'"
    using t st(1) by (simp add: plugin_step_def del: req_view.simps)
  have ap: "all_posted posted s'"
    by (rule all_posted_step [OF plugin_step_ok(4) [OF assms(1) step] posted_step_test [OF pl st(1) _ t] assms(2)])
      simp
  obtain rc s1 where l: "mq_progress_loop P (mq cm) s = Some (Ret (rc, s1))" and w: "world s' = world s1"
    using test_polls [OF ok(4) cm t [unfolded p] st(1) [unfolded p] st(2)] .
  have po: "poll_calls P (world s) (world s')" unfolding w by (rule mq_progress_loop_polls [OF l])
  have em: "queue_empty P (mq cm) (world s')"
    using mq_progress_loop_result [OF ok(2,3,5), of "mq cm"] l w by auto
  note se = some_end_out [OF some_end_fold [of "req_view s" sts]]
  have "st1 \<noteq> Free" using se(2) [of p] f st by simp
  moreover have "st1 \<noteq> InFlight k" for k
  proof
    assume "st1 = InFlight k"
    then have "the (req_view s' p) = InFlight k" using rep by auto
    then have "pending s' p" using n by (auto simp: pending_view simp del: req_view.simps)
    then obtain j where "(p, j) \<in># posted (world s')" using ap unfolding all_posted_def by blast
    then show False using assms(3) cm po em unfolding completed_def p by fastforce
  qed
  ultimately obtain k m where "st1 = Finished k m" by (cases st1) auto
  then have d: "d = 1" and free: "req_view s' p = Some Free" using rep n by auto
  have "req_view s' q \<noteq> None \<and> req_view s' q \<noteq> Some Free \<longleftrightarrow>
      req_view s q \<noteq> None \<and> req_view s q \<noteq> Some Free \<and> q \<noteq> p" for q
    using se [of q] free v by (metis fun_upd_other)
  then have "with_nccl s' = with_nccl s - {p}" unfolding with_nccl_def by blast
  then show thesis using that step ap sb completed_poll [OF assms(3) sb po] unfolding d by blast
qed

text \<open>All of them, in any order.\<close>

lemma completed_tests:
  assumes "system_ok P opened posted s" and "all_posted posted s" and "completed P posted s"
    and "distinct ps" and "set ps \<subseteq> with_nccl s"
  shows "\<exists>ns s'. length ns = length ps \<and>
    runs (plugin_step P) s (map2 (\<lambda>p n. (Test p True, ncclSuccess, Tested 1 n)) ps ns) s' \<and>
    with_nccl s' = with_nccl s - set ps \<and> dom (comms s') = dom (comms s)"
  using assms
proof (induction ps arbitrary: s)
  case Nil
  show ?case by (intro exI [of _ "[]"] exI [of _ s]) (simp add: runs_none)
next
  case (Cons p ps)
  obtain n s1 where st: "plugin_step P s (Test p True, ncclSuccess, Tested 1 n) s1"
    and w: "with_nccl s1 = with_nccl s - {p}" and sb: "same_but_reqs s s1"
    and k: "all_posted posted s1" "completed P posted s1"
    using completed_test [OF Cons.prems(1-3)] Cons.prems(5) by (metis list.set_intros(1) subsetD)
  have "set ps \<subseteq> with_nccl s1" using Cons.prems(4,5) w by auto
  with Cons.IH [OF plugin_step_ok(1) [OF Cons.prems(1) st] k] Cons.prems(4)
  obtain ns s' where r: "length ns = length ps"
    "runs (plugin_step P) s1 (map2 (\<lambda>p n. (Test p True, ncclSuccess, Tested 1 n)) ps ns) s'"
    "with_nccl s' = with_nccl s1 - set ps" "dom (comms s') = dom (comms s1)" by auto
  have "dom (comms s1) = dom (comms s)"
    by (rule same_but_reqs_dom [OF sb])
  then show ?case
    using r w runs_more [of "plugin_step P", OF st r(2)]
    by (intro exI [of _ "n # ns"] exI [of _ s']) auto
qed

text \<open>Closing every communicator, in any order, when no request is with NCCL.\<close>

lemma idle_close:
  assumes "system_ok P opened posted s" and "with_nccl s = {}" and "c \<in> dom (comms s)"
    and "a = CloseSend c \<or> a = CloseRecv c"
  obtains r s' where "plugin_step P s (a, r, NoOut) s'" and "comms s' = (comms s)(c := None)"
    and "with_nccl s' = {}"
proof -
  have "pending s q \<Longrightarrow> q \<in> with_nccl s" for q by (auto simp: pending_view with_nccl_def simp del: req_view.simps)
  then have "idle c s" using assms(2) unfolding idle_def by blast
  moreover have "live c s" using assms(3) by (auto simp: live_def)
  ultimately have al: "allowed s a" using assms(4) by auto
  obtain cm where cm: "comms s c = Some cm" using assms(3) by blast
  from call_keeps [OF assms(1) al] obtain r out s' where e: "run_call P a s = Some (Ret (r, out, s'))"
    by (metis prod_cases3)
  then have f: "psm2comm_fini P c s = Ret (r, s')" and o: "out = NoOut"
    using assms(4) by (auto simp: psm2_nccl_closeSend_def psm2_nccl_closeRecv_def obind_eq_Ret)
  have "comms_ok P opened s" using assms(1) plugin_okD(1) by (auto simp: system_ok_def)
  from psm2comm_fini_ok(3) [OF this cm f] have cs: "comms s' = (comms s)(c := None)" .
  then have v: "req_view s' q = (if fst q = c then None else req_view s q)" for q by (cases q) simp
  have "with_nccl s' = {}" using assms(2) by (auto simp: with_nccl_def v simp del: req_view.simps)
  then show thesis using that al e o cs by (simp add: plugin_step_def)
qed

lemma idle_closes:
  assumes "system_ok P opened posted s" and "with_nccl s = {}"
    and "distinct cs" and "set cs = dom (comms s)"
    and "list_all2 (\<lambda>a c. a = CloseSend c \<or> a = CloseRecv c) as cs"
  shows "\<exists>rs s'. length rs = length as \<and>
    runs (plugin_step P) s (map2 (\<lambda>a r. (a, r, NoOut)) as rs) s' \<and> comms s' = Map.empty"
  using assms
proof (induction cs arbitrary: s as)
  case Nil
  then have "comms s = Map.empty" and "as = []" using dom_eq_empty_conv by fastforce+
  then show ?case by (intro exI [of _ "[]"] exI [of _ s]) (simp add: runs_none)
next
  case (Cons c cs)
  then obtain a as' where as: "as = a # as'" and a: "a = CloseSend c \<or> a = CloseRecv c"
    and rest: "list_all2 (\<lambda>a c. a = CloseSend c \<or> a = CloseRecv c) as' cs"
    by (auto simp: list_all2_Cons2)
  obtain r s1 where st: "plugin_step P s (a, r, NoOut) s1" and c1: "comms s1 = (comms s)(c := None)"
    and w: "with_nccl s1 = {}"
    using idle_close [OF Cons.prems(1,2) _ a] Cons.prems(4) by (metis list.set_intros(1))
  have "set cs = dom (comms s1)" using Cons.prems(3,4) c1 by auto
  with Cons.IH [OF plugin_step_ok(1) [OF Cons.prems(1) st] w _ _ rest] Cons.prems(3)
  obtain rs s' where "length rs = length as'"
    "runs (plugin_step P) s1 (map2 (\<lambda>a r. (a, r, NoOut)) as' rs) s'" "comms s' = Map.empty" by auto
  then show ?case
    using runs_more [of "plugin_step P", OF st] as by (intro exI [of _ "r # rs"] exI [of _ s']) auto
qed

text \<open>With no communicator left there is no reference and, if closing does not fail, no endpoint.\<close>

lemma no_comms_down:
  assumes "system_ok P opened posted s" and "comms s = Map.empty"
  shows "refcount (shared_ep s) = 0" and "close_never_fails P \<longrightarrow> opened (world s) \<subseteq> {0}"
proof -
  have co: "comms_ok P opened s" using assms(1) plugin_okD(1) by (auto simp: system_ok_def)
  then have "ep_inv (opened (world s)) s" by (simp add: comms_ok_def)
  then show "refcount (shared_ep s) = 0"
    using refcount_0_iff [of "opened (world s)" s] assms(2) by (simp add: sharers_def)
  show "close_never_fails P \<longrightarrow> opened (world s) \<subseteq> {0}"
    using co assms(2) by (auto simp: comms_ok_def no_stray_ep_def)
qed

end
