(* ===== verification/Reporting.thy ===== *)
theory Reporting
  imports Completion
begin

text \<open>
  What a test reports, over whole runs: a request is done exactly when the library has retired
  its operation, in this poll or an earlier one, and the size reported for a receive is bounded
  by the length that NCCL gave with it, whichever test retired it.
\<close>

section \<open>When a request is reported\<close>

lemma test_reports:
  assumes "system_ok P opened posted s" and "all_posted posted s"
    and "req_view s p = Some st" and "st \<noteq> Free" and "has_size \<or> req_kind st \<noteq> ReqRecv"
  shows "\<exists>d sz s' cm. psm2_nccl_test P p has_size s = Some (Ret (ncclSuccess, d, sz, s')) \<and>
    comms s (fst p) = Some cm \<and> queue_empty P (mq cm) (world s') \<and>
    (sz \<noteq> None \<longleftrightarrow> d = 1 \<and> req_kind st = ReqRecv) \<and>
    (if p \<in># image_mset fst (posted (world s')) then d = 0 \<and> req_view s' p = Some st
     else d = 1 \<and> req_view s' p = Some Free)"
proof -
  have pl: "plugin_ok P opened posted s" using assms(1) by (simp add: system_ok_def)
  note ok = plugin_okD [OF pl]
  obtain c i where p: "p = (c, i)" by fastforce
  obtain cm where cm: "comms s c = Some cm" using assms(3) by (auto simp: p split: option.splits)
  from psm2_nccl_test_returns [OF pl assms(3,4,5)] obtain d sz s' sts st1
    where t: "psm2_nccl_test P p has_size s = Some (Ret (ncclSuccess, d, sz, s'))"
      and pl': "plugin_ok P opened posted s'"
      and f: "fold spec_end sts (req_view s) p = Some st1"
      and rep: "spec_report st1 = ((d, sz), the (req_view s' p))"
      and n: "req_view s' p \<noteq> None" by metis
  have step: "plugin_step P s (Test p has_size, ncclSuccess, Tested d sz) s'"
    using t assms(3,5) by (simp add: plugin_step_def del: req_view.simps)
  have ap: "all_posted posted s'"
    by (rule all_posted_step [OF plugin_step_ok(4) [OF assms(1) step]
        posted_step_test [OF pl assms(3,5) t] assms(2)])
  obtain rc s1 where l: "mq_progress_loop P (mq cm) s = Some (Ret (rc, s1))" and w: "world s' = world s1"
    using test_polls [OF ok(4) cm t [unfolded p] assms(3) [unfolded p] assms(4)] .
  have em: "queue_empty P (mq cm) (world s')"
    using mq_progress_loop_result [OF ok(2,3,5), of "mq cm"] l w by auto
  have "(\<exists>l. (p, l) \<in># posted (world s')) \<longleftrightarrow> (\<exists>t. req_view s' p = Some (InFlight t))"
    using posted_inflight [OF pl', of p] ap unfolding all_posted_def pending_view by blast
  moreover have "p \<in># image_mset fst (posted (world s')) \<longleftrightarrow> (\<exists>l. (p, l) \<in># posted (world s'))"
    by force
  ultimately have po: "p \<in># image_mset fst (posted (world s')) \<longleftrightarrow>
      (\<exists>t. req_view s' p = Some (InFlight t))" by blast
  have e: "some_end (req_view s) (fold spec_end sts (req_view s))" by (rule some_end_fold)
  have nf: "st1 \<noteq> Free" using some_end_out(2) [OF e, of p] f assms(3,4) by simp
  have fl: "st1 = st" if "st1 = InFlight t" for t
    using e f assms(3) that unfolding some_end_def by (metis option.inject req_state.distinct(5))
  have k: "req_kind st1 = req_kind st"
    using fold_spec_end_kind [where v = "req_view s" and p = p and sts = sts, OF assms(3,4)] f by auto
  have size: "sz \<noteq> None \<longleftrightarrow> d = 1 \<and> req_kind st = ReqRecv"
    using rep k nf by (cases st1) (auto split: if_splits)
  have "if p \<in># image_mset fst (posted (world s')) then d = 0 \<and> req_view s' p = Some st
     else d = 1 \<and> req_view s' p = Some Free"
    using rep n nf fl unfolding po by (cases st1; cases "req_view s' p") (auto simp del: req_view.simps)
  moreover have "comms s (fst p) = Some cm" using cm by (simp add: p)
  ultimately show ?thesis using t em size by blast
qed

text \<open>The test of one request does not change of which kind another one is.\<close>

lemma spec_step_kind:
  assumes "spec_step a (Test q has_size, r, out) a'" and "p \<noteq> q" and "sp_req a p = Some st" and "st \<noteq> Free"
  shows "\<exists>st'. sp_req a' p = Some st' \<and> st' \<noteq> Free \<and> req_kind st' = req_kind st"
  using assms(1)
proof cases
  case (sp_test st0 v st1 d sz st2)
  then have "sp_req a' p = v p" using assms(2) by simp
  moreover have "v p = Some st \<or> (\<exists>t n. st = InFlight t \<and> v p = Some (Finished t n))"
    using sp_test assms(3) unfolding some_end_def by (metis option.inject)
  ultimately show ?thesis using assms(4) by auto
qed (use assms(3,4) in simp_all)

section \<open>The size of a receive\<close>

text \<open>The last event that handed out the request \<open>p\<close>.\<close>

definition posted_by :: "event list \<Rightarrow> event \<Rightarrow> req_ptr \<Rightarrow> bool" where
  "posted_by es e p \<longleftrightarrow> ev_posts e = Some p \<and>
     (\<exists>es1 es2. es = es1 @ e # es2 \<and> (\<forall>x\<in>set es2. ev_posts x \<noteq> Some p))"

lemma posted_by_last: "ev_posts e = Some p \<Longrightarrow> posted_by (es @ [e]) e p"
  unfolding posted_by_def by (metis empty_iff empty_set)

lemma posted_by_later:
  assumes "posted_by es e p" and "ev_posts x \<noteq> Some p"
  shows "posted_by (es @ [x]) e p"
proof -
  obtain es1 es2 where "es = es1 @ e # es2" and "\<forall>x\<in>set es2. ev_posts x \<noteq> Some p"
    using assms(1) unfolding posted_by_def by blast
  then have "es @ [x] = es1 @ e # (es2 @ [x])" and "\<forall>y\<in>set (es2 @ [x]). ev_posts y \<noteq> Some p"
    using assms(2) by auto
  then show ?thesis using assms(1) unfolding posted_by_def by blast
qed

text \<open>
  What a run says about the receives: each is the one that was posted last with its request,
  the library has it with at most the length that NCCL gave, and if it is finished it has a size
  that is at most this length.
\<close>

definition sized ::
  "('w \<Rightarrow> (req_ptr \<times> 32 word) multiset) \<Rightarrow> event list \<Rightarrow> 'w plugin \<Rightarrow> bool" where
  "sized posted es s \<longleftrightarrow> (\<forall>p st. req_view s p = Some st \<longrightarrow> req_kind st = ReqRecv \<longrightarrow>
     (\<exists>c n ds szs tags mhs. posted_by es (IRecv c n ds szs tags mhs, ncclSuccess, Request (Some p)) p \<and>
        (\<forall>l. (p, l) \<in># posted (world s) \<longrightarrow> uint l \<le> hd szs) \<and>
        (\<forall>m. st = Finished ReqRecv m \<longrightarrow> 0 \<le> m \<and> m \<le> hd szs)))"

lemma sizedE:
  assumes "sized posted es s" and "req_view s p = Some st" and "req_kind st = ReqRecv"
  obtains c n ds szs tags mhs
  where "posted_by es (IRecv c n ds szs tags mhs, ncclSuccess, Request (Some p)) p"
    and "\<And>l. (p, l) \<in># posted (world s) \<Longrightarrow> uint l \<le> hd szs"
    and "\<And>m. st = Finished ReqRecv m \<Longrightarrow> 0 \<le> m \<and> m \<le> hd szs"
  using assms(1) [unfolded sized_def, rule_format, OF assms(2,3)] by (elim exE conjE) (rule that, blast+)

lemma sized_mono:
  assumes "sized posted es s" and "posted (world s') \<subseteq># posted (world s)" and "ev_posts e = None"
    and "\<And>p st. req_view s' p = Some st \<Longrightarrow> req_kind st = ReqRecv \<Longrightarrow> req_view s p = Some st"
  shows "sized posted (es @ [e]) s'"
  unfolding sized_def
proof (intro allI impI)
  fix p st assume p: "req_view s' p = Some st" and k: "req_kind st = ReqRecv"
  from sizedE [OF assms(1) assms(4) [OF p k] k] obtain c n ds szs tags mhs
    where b: "posted_by es (IRecv c n ds szs tags mhs, ncclSuccess, Request (Some p)) p"
      and l: "\<And>l. (p, l) \<in># posted (world s) \<Longrightarrow> uint l \<le> hd szs"
      and m: "\<And>m. st = Finished ReqRecv m \<Longrightarrow> 0 \<le> m \<and> m \<le> hd szs" by metis
  have "posted_by (es @ [e]) (IRecv c n ds szs tags mhs, ncclSuccess, Request (Some p)) p"
    using assms(3) by (intro posted_by_later [OF b]) simp
  moreover have "\<forall>l. (p, l) \<in># posted (world s') \<longrightarrow> uint l \<le> hd szs"
    using l mset_subset_eqD [OF assms(2)] by blast
  ultimately show "\<exists>c n ds szs tags mhs.
      posted_by (es @ [e]) (IRecv c n ds szs tags mhs, ncclSuccess, Request (Some p)) p \<and>
      (\<forall>l. (p, l) \<in># posted (world s') \<longrightarrow> uint l \<le> hd szs) \<and>
      (\<forall>m. st = Finished ReqRecv m \<longrightarrow> 0 \<le> m \<and> m \<le> hd szs)" using m by blast
qed

text \<open>Polling keeps it: what it retires has no more bytes than its length.\<close>

lemma sized_polled:
  assumes "sized posted es s" and "polled posted s sts s1"
  shows "sized posted es s1"
  unfolding sized_def
proof (intro allI impI)
  fix p st assume p: "req_view s1 p = Some st" and k: "req_kind st = ReqRecv"
  have v: "req_view s1 = fold spec_end sts (req_view s)" using assms(2) by (simp add: polled_def)
  obtain ls where ls: "list_all2 (\<lambda>e l. s_nbytes e \<le> l) sts ls"
    and po: "posted (world s) = posted (world s1) + mset (zip (map s_context sts) ls)"
    using assms(2) unfolding polled_def by blast
  have "some_end (req_view s) (req_view s1)" unfolding v by (rule some_end_fold)
  then have o: "req_view s1 p = req_view s p \<or>
      (\<exists>t n. req_view s p = Some (InFlight t) \<and> req_view s1 p = Some (Finished t n))"
    unfolding some_end_def by blast
  then obtain st0 where st0: "req_view s p = Some st0" "req_kind st0 = ReqRecv"
  proof (elim disjE exE conjE)
    assume "req_view s1 p = req_view s p"
    then show thesis using that [of st] p k by simp
  next
    fix t n assume "req_view s p = Some (InFlight t)" and "req_view s1 p = Some (Finished t n)"
    then show thesis using that [of "InFlight t"] p k by simp
  qed
  from sizedE [OF assms(1) st0] obtain c n ds szs tags mhs
    where b: "posted_by es (IRecv c n ds szs tags mhs, ncclSuccess, Request (Some p)) p"
      and l: "\<And>l. (p, l) \<in># posted (world s) \<Longrightarrow> uint l \<le> hd szs"
      and m: "\<And>m. st0 = Finished ReqRecv m \<Longrightarrow> 0 \<le> m \<and> m \<le> hd szs" by metis
  have "0 \<le> k \<and> k \<le> hd szs" if f: "st = Finished ReqRecv k" for k
    using o
  proof (elim disjE exE conjE)
    assume "req_view s1 p = req_view s p"
    then show ?thesis using f p st0(1) m by simp
  next
    fix t n' assume t: "req_view s p = Some (InFlight t)"
    from fold_spec_end_source [where v = "req_view s", OF t] p f obtain e
      where e: "e \<in> set sts" "s_context e = p" "k = uint (s_nbytes e)" unfolding v by blast
    from ls e(1) obtain j where "(s_context e, j) \<in> set (zip (map s_context sts) ls)"
      and le: "s_nbytes e \<le> j" by (rule retired_posted)
    then have "(p, j) \<in># posted (world s)" unfolding po by (simp add: e(2))
    then have "uint j \<le> hd szs" using l by blast
    then show ?thesis using le e(3) by (simp add: word_le_def)
  qed
  moreover have "uint l' \<le> hd szs" if "(p, l') \<in># posted (world s1)" for l'
    using l [of l'] that unfolding po by simp
  ultimately show "\<exists>c n ds szs tags mhs.
      posted_by es (IRecv c n ds szs tags mhs, ncclSuccess, Request (Some p)) p \<and>
      (\<forall>l. (p, l) \<in># posted (world s1) \<longrightarrow> uint l \<le> hd szs) \<and>
      (\<forall>m. st = Finished ReqRecv m \<longrightarrow> 0 \<le> m \<and> m \<le> hd szs)" using b by blast
qed

text \<open>Posting: the new request is bounded by what NCCL gave, the others are as they were.\<close>

lemma sized_post:
  assumes "plugin_ok P opened posted s" and "sized posted es s" and "post_result posted c t l s r ro s'"
    and "t = ReqRecv \<Longrightarrow> uint l \<le> hd szs"
    and "a = (if t = ReqRecv then IRecv c n ds szs tags mhs else ISend c d sz tg)"
  shows "sized posted (es @ [(a, r, Request ro)]) s'"
proof (cases ro)
  case None
  then have "s' = s \<or> s' = s\<lparr>world := world s'\<rparr>" and "posted (world s') = posted (world s)"
    using assms(3) by (auto simp: post_result_def simp del: req_view.simps split: if_splits)
  then have "req_view s' = req_view s" and "posted (world s') \<subseteq># posted (world s)"
    using req_view_world [of "world s'" s] by (metis, simp)
  then show ?thesis using None by (intro sized_mono [OF assms(2)]) simp_all
next
  case (Some p)
  then have r: "r = ncclSuccess" and free: "req_view s p = Some Free"
    and v: "req_view s' = (req_view s)(p \<mapsto> InFlight t)"
    and po: "posted (world s') = add_mset (p, l) (posted (world s))"
    using assms(3) by (simp_all add: post_result_def del: req_view.simps)
  have new: "(p, j) \<notin># posted (world s)" for j
    using posted_inflight [OF assms(1), of p j] free by auto
  show ?thesis
    unfolding sized_def
  proof (intro allI impI)
    fix q st assume q: "req_view s' q = Some st" and k: "req_kind st = ReqRecv"
    let ?concl = "\<lambda>c n ds szs tags mhs.
      posted_by (es @ [(a, r, Request ro)]) (IRecv c n ds szs tags mhs, ncclSuccess, Request (Some q)) q \<and>
      (\<forall>j. (q, j) \<in># posted (world s') \<longrightarrow> uint j \<le> hd szs) \<and>
      (\<forall>m. st = Finished ReqRecv m \<longrightarrow> 0 \<le> m \<and> m \<le> hd szs)"
    show "\<exists>c n ds szs tags mhs. ?concl c n ds szs tags mhs"
    proof (cases "q = p")
      case True
      then have st: "st = InFlight ReqRecv" and t: "t = ReqRecv" using q k v by auto
      have "uint j \<le> hd szs" if "(p, j) \<in># posted (world s')" for j
        using that new [of j] assms(4) [OF t] unfolding po by auto
      moreover have "posted_by (es @ [(a, r, Request ro)]) (a, r, Request ro) p"
        by (rule posted_by_last) (simp add: Some)
      ultimately have "?concl c n ds szs tags mhs"
        using True st t r Some assms(5) by simp
      then show ?thesis by blast
    next
      case False
      then have "req_view s q = Some st" using q v by simp
      from sizedE [OF assms(2) this k] obtain c' n' ds' szs' tags' mhs'
        where b: "posted_by es (IRecv c' n' ds' szs' tags' mhs', ncclSuccess, Request (Some q)) q"
          and l: "\<And>j. (q, j) \<in># posted (world s) \<Longrightarrow> uint j \<le> hd szs'"
          and m: "\<And>m. st = Finished ReqRecv m \<Longrightarrow> 0 \<le> m \<and> m \<le> hd szs'" by metis
      have "posted_by (es @ [(a, r, Request ro)])
          (IRecv c' n' ds' szs' tags' mhs', ncclSuccess, Request (Some q)) q"
        using False Some by (intro posted_by_later [OF b]) simp
      then have "?concl c' n' ds' szs' tags' mhs'" using l m False unfolding po by auto
      then show ?thesis by blast
    qed
  qed
qed

text \<open>Every step keeps it.\<close>

lemma spec_step_control:
  assumes "spec_step a (x, r, out) a'" and "\<not> data_call x" and "sp_req a' p = Some st" and "st \<noteq> Free"
  shows "sp_req a p = Some st"
  using assms by (cases p; cases rule: spec_step.cases)
    (auto simp: spec_open_def spec_close_def split: if_splits)

lemma test_sized:
  assumes "plugin_ok P opened posted s" and "sized posted es s"
    and "req_view s p = Some st" and "has_size \<or> req_kind st \<noteq> ReqRecv"
    and "psm2_nccl_test P p has_size s = Some (Ret (r, d, sz, s'))"
  shows "sized posted (es @ [(Test p has_size, r, Tested d sz)]) s'"
    and "sz = Some n \<Longrightarrow> d = 1 \<and> r = ncclSuccess \<and> (\<exists>c k ds szs tags mhs.
      posted_by es (IRecv c k ds szs tags mhs, ncclSuccess, Request (Some p)) p \<and>
      0 \<le> n \<and> n \<le> hd szs)"
proof -
  have free: "s' = s \<and> sz = None" if "st = Free"
    using test_free [of s p P has_size] assms(3,5) that by simp
  have busy: "\<exists>s1 st1. sized posted es s1 \<and> world s' = world s1 \<and> req_view s1 p = Some st1 \<and>
      spec_report st1 = ((d, sz), the (req_view s' p)) \<and> r = ncclSuccess \<and>
      req_view s' = (req_view s1)(p := req_view s' p) \<and> req_view s' p \<noteq> None" if "st \<noteq> Free"
  proof -
    from psm2_nccl_test_returns [OF assms(1,3) that assms(4)] assms(5) obtain s1 sts st1
      where pol: "polled posted s sts s1" and "world s' = world s1"
        and "fold spec_end sts (req_view s) p = Some st1"
        and "spec_report st1 = ((d, sz), the (req_view s' p))" and "r = ncclSuccess"
        and "req_view s' = (fold spec_end sts (req_view s))(p := req_view s' p)"
        and "req_view s' p \<noteq> None" by auto
    moreover have "fold spec_end sts (req_view s) = req_view s1" using pol by (simp add: polled_def)
    moreover note sized_polled [OF assms(2) pol]
    ultimately show ?thesis by metis
  qed
  show "sized posted (es @ [(Test p has_size, r, Tested d sz)]) s'"
  proof (cases "st = Free")
    case True
    then show ?thesis using free by (intro sized_mono [OF assms(2)]) simp_all
  next
    case False
    then obtain s1 st1 where sd: "sized posted es s1" and w: "world s' = world s1"
      and st1: "req_view s1 p = Some st1" "spec_report st1 = ((d, sz), the (req_view s' p))"
      and v: "req_view s' = (req_view s1)(p := req_view s' p)" and n: "req_view s' p \<noteq> None"
      using busy by blast
    show ?thesis
    proof (rule sized_mono [OF sd])
      show "req_view s1 q = Some u" if u: "req_view s' q = Some u" "req_kind u = ReqRecv" for q u
      proof (cases "q = p")
        case True
        then have "the (req_view s' p) = u" and "u \<noteq> Free" using u by auto
        then have "st1 = u" using st1(2) by (cases st1) auto
        then show ?thesis using True st1(1) by simp
      next
        case False
        then show ?thesis using u(1) v by (metis fun_upd_other)
      qed
    qed (simp_all add: w)
  qed
  show "d = 1 \<and> r = ncclSuccess \<and> (\<exists>c k ds szs tags mhs.
      posted_by es (IRecv c k ds szs tags mhs, ncclSuccess, Request (Some p)) p \<and>
      0 \<le> n \<and> n \<le> hd szs)" if n: "sz = Some n"
  proof -
    have "st \<noteq> Free" using free n by auto
    then obtain s1 st1 where sd: "sized posted es s1" and v: "req_view s1 p = Some st1"
      and rep: "spec_report st1 = ((d, sz), the (req_view s' p))" and r: "r = ncclSuccess"
      using busy by blast
    have st1: "st1 = Finished ReqRecv n" and d: "d = 1"
      using rep n by (cases st1; auto split: if_splits)+
    then have "req_kind st1 = ReqRecv" by simp
    from sizedE [OF sd v this] st1 obtain c k ds szs tags mhs
      where "posted_by es (IRecv c k ds szs tags mhs, ncclSuccess, Request (Some p)) p"
        and "0 \<le> n \<and> n \<le> hd szs" by metis
    then show ?thesis using d r by blast
  qed
qed

lemma step_sized:
  assumes "system_ok P opened posted s" and "sized posted es s" and "plugin_step P s (a, r, out) s'"
  shows "sized posted (es @ [(a, r, out)]) s'"
proof -
  have pl: "plugin_ok P opened posted s" using assms(1) by (simp add: system_ok_def)
  have al: "allowed s a" and e: "run_call P a s = Some (Ret (r, out, s'))"
    using assms(3) by (simp_all add: plugin_step_def)
  show ?thesis
  proof (cases "data_call a")
    case False
    note c = control_step [OF assms(1,3) False]
    have "posted (world s') \<subseteq># posted (world s)"
      using control_calls_posted [OF plugin_okD(2) [OF pl]] c by blast
    moreover have "req_view s p = Some st" if "req_view s' p = Some st" "req_kind st = ReqRecv" for p st
      using spec_step_control [OF plugin_step_ok(4) [OF assms(1,3)] False, of p st] that
      by (cases "st = Free") (simp_all del: req_view.simps)
    ultimately show ?thesis using c by (intro sized_mono [OF assms(2)]) simp_all
  next
    case True
    then show ?thesis
    proof (cases a rule: data_call.cases)
      case (1 c d sz tg)
      then obtain ro where p: "psm2_nccl_isend P c d sz tg 0 s = Ret (r, ro, s')" and o: "out = Request ro"
        using e by (auto simp: obind_eq_Ret)
      obtain cm where cm: "comms s c = Some cm" and sz: "0 \<le> sz" "sz \<le> INT_MAX"
        using al 1 by (auto simp: live_def)
      have "post_result posted c ReqSend (int_to_u32 sz) s r ro s'"
        using psm2_nccl_isend_returns [OF pl cm sz, of d tg 0] p by simp
      then show ?thesis unfolding o by (rule sized_post [OF pl assms(2)]) (simp_all add: 1)
    next
      case (2 c n ds szs tags mhs)
      then obtain cm d ds' sz szs' mh mhs' where cm: "comms s c = Some cm" and n: "n \<le> 1"
        and l: "ds = d # ds'" "szs = sz # szs'" "mhs = mh # mhs'" and sz: "0 \<le> sz" "sz \<le> INT_MAX"
        using al by (auto simp: live_def neq_Nil_conv)
      then obtain ro where p: "psm2_nccl_irecv_v4 P c d sz mh s = Ret (r, ro, s')" and o: "out = Request ro"
        using e 2 by (auto simp: obind_eq_Ret psm2_nccl_irecv_def NCCL_NET_PSM2_MAX_RECVS_def)
      have "post_result posted c ReqRecv (int_to_u32 sz) s r ro s'"
        using psm2_nccl_irecv_v4_returns [OF pl cm sz, of d mh] p by simp
      then show ?thesis unfolding o
        by (rule sized_post [OF pl assms(2), where szs = szs])
          (simp_all add: 2 l int_to_u32_nonneg sz)
    next
      case (3 p hs)
      obtain st where v: "req_view s p = Some st" and h: "hs \<or> req_kind st \<noteq> ReqRecv"
        using al 3 by (auto split: option.splits simp del: req_view.simps)
      obtain d sz where t: "psm2_nccl_test P p hs s = Some (Ret (r, d, sz, s'))" and o: "out = Tested d sz"
        using e 3 by (auto simp: obind_eq_Ret)
      show ?thesis unfolding 3 o by (rule test_sized(1) [OF pl assms(2) v h t])
    qed simp_all
  qed
qed

lemma runs_sized:
  "runs (plugin_step P) s fs s' \<Longrightarrow> system_ok P opened posted s \<Longrightarrow> sized posted es s \<Longrightarrow>
     sized posted (es @ fs) s'"
proof (induction arbitrary: es rule: runs.induct)
  case (runs_more s e s1 fs s2)
  obtain a r out where e: "e = (a, r, out)" by (cases e)
  have "sized posted (es @ [e]) s1"
    unfolding e by (rule step_sized [OF runs_more.prems runs_more.hyps(1) [unfolded e]])
  from runs_more.IH [OF plugin_step_ok(1) [OF runs_more.prems(1) runs_more.hyps(1)] this]
  show ?case by simp
qed simp

lemma init_sized:
  assumes "psm2_nccl_init P f (initial_plugin w0) = (ncclSuccess, s)"
  shows "sized posted [] s"
proof -
  have "s = snd (psm2_nccl_init P f (initial_plugin w0))" using assms by simp
  then have "comms s = Map.empty" using psm2_nccl_init_frame [of P f "initial_plugin w0"] by simp
  then have "req_view s p = None" for p by (cases p) simp
  then show ?thesis by (simp add: sized_def)
qed

end
