(* ===== verification/System_Props.thy ===== *)
theory System_Props
  imports Lib_Steps Reporting
begin

text \<open>
  The properties of the plugin as a whole: what holds in every reachable state, and what every
  run shows to NCCL.
\<close>

section \<open>The simulated library\<close>

text \<open>The simulated library, and the plugin after initialisation and after one listener.\<close>

lemma sim_library_ok: "library_ok sim_platform (\<lambda>w. set (sim_eps w)) sim_view sim0"
  using sim_ep_contract sim_mq_contract sim_consts_ok sim_realpath_contract
  by (simp add: library_ok_def sim_view_def sim0_def)

lemma getenv_calls:
  "sys_call (P\<lparr>getenv := g\<rparr>) = sys_call P" "quiet_call (P\<lparr>getenv := g\<rparr>) = quiet_call P"
  by (intro ext; simp add: sys_call.simps quiet_call.simps)+

lemma library_ok_getenv: "library_ok (P\<lparr>getenv := g\<rparr>) opened posted w \<longleftrightarrow> library_ok P opened posted w"
  by (simp add: library_ok_def ep_contract_def mq_contract_def consts_ok_def realpath_contract_def
      getenv_calls)

lemma reachable_init: "reachable P f w0 hs s \<Longrightarrow> fst (psm2_nccl_init P f (initial_plugin w0)) = ncclSuccess"
  by (induction rule: reachable.induct) simp_all

definition sim_started :: "sim plugin" where
  "sim_started = (initial_plugin sim0)\<lparr>use_gpudirect := 0, pluginLogFunction := 7\<rparr>"

lemma sim_init: "psm2_nccl_init sim_platform 7 (initial_plugin sim0) = (ncclSuccess, sim_started)"
  by (simp add: psm2_nccl_init_def psm2_nccl_init_logging_def Let_def read_flag_def
      read_multi_policy_def init_gpudirect_def init_finish_def initial_plugin_def sim_started_def
      sim0_def)

lemma sim_started_reachable: "reachable sim_platform 7 sim0 [] sim_started"
  by (rule r_init [OF sim_init])

lemma sim_started_simps [simp]:
  "comms sim_started = Map.empty" "next_tag sim_started = 0" "world sim_started = sim0"
  "allocs sim_started = 0" "use_shared_ep sim_started = 1" "use_nccl_dev_num sim_started = 1"
  "shared_ep sim_started = zero_shared_ep"
  by (simp_all add: sim_started_def)

lemma sim_listen_allowed: "allowed sim_started (Listen 0)"
  using one_less_ULLONG_MAX by (simp add: room_def tags_left_def)

lemma sim_listened: "\<exists>s' h. reachable sim_platform 7 sim0 [h] s'"
proof -
  have "\<exists>r c h s'. run_call sim_platform (Listen 0) sim_started = Some (Ret (r, Listener c (Some h), s'))"
    using not_ULLONG_MAX_le_one one_less_ULLONG_MAX
    by (simp add: psm2_nccl_listen_def psm2comm_init_def calloc_comm_def
        sizeof_psm2comm_handle_def NCCL_NET_HANDLE_MAXSIZE_def Let_def psm2comm_init_ep_def
        check_unit_def obtain_ep_def load_comm_def attach_ep_def init_mq_def zero_shared_ep_def)
  then obtain r c h s'
    where "run_call sim_platform (Listen 0) sim_started = Some (Ret (r, Listener c (Some h), s'))"
    by blast
  then have "plugin_step sim_platform sim_started (Listen 0, r, Listener c (Some h)) s'"
    using sim_listen_allowed by (simp add: plugin_step_def)
  from r_call [OF sim_started_reachable this]
  have "reachable sim_platform 7 sim0 [h] s'" by simp
  then show ?thesis by blast
qed

text \<open>
  C1: safety of the whole plugin. In every state that NCCL can reach after a successful
  initialisation, by any sequence of calls that respect the interface, every further such
  call returns: no assertion fails, no freed or unallocated memory is used, no loop runs for
  ever, and the state it returns to is again one in which this holds.
\<close>

theorem plugin_safe:
  assumes "library_ok P opened posted w0" and "reachable P f w0 hs s" and "allowed s a"
  shows "\<exists>r out s'. run_call P a s = Some (Ret (r, out, s')) \<and>
    reachable P f w0 (ev_handles (a, r, out) @ hs) s' \<and> system_ok P opened posted s'"
proof -
  have "system_ok P opened posted s" using reachable_ok [OF assms(2,1)] by blast
  from call_keeps [OF this assms(3)] obtain r out s'
    where e: "run_call P a s = Some (Ret (r, out, s'))"
      and c: "call_result P opened posted s a (r, out, s')" by auto
  have "system_ok P opened posted s'" using c by (simp add: call_result_def)
  moreover have "plugin_step P s (a, r, out) s'" using e assms(3) by (simp add: plugin_step_def)
  ultimately show ?thesis using e r_call [OF assms(2)] by blast
qed

lemma plugin_safe_witness:
  "\<exists>r out s'. run_call sim_platform (Listen 0) sim_started = Some (Ret (r, out, s')) \<and>
     system_ok sim_platform (\<lambda>w. set (sim_eps w)) sim_view s'"
  using plugin_safe [OF sim_library_ok sim_started_reachable sim_listen_allowed] by blast

text \<open>
  C3: the endpoints in every reachable state. The endpoint of every communicator is open; if
  the library closes what it is told to, nothing else is open; the communicators that share
  use the recorded endpoint and the reference count is their number; no two of the others use
  the same one. In an environment that does not change, either all share or none does.
\<close>

theorem reachable_endpoints:
  assumes "library_ok P opened posted w0" and "reachable P f w0 hs s"
  shows "(\<forall>c cm. comms s c = Some cm \<longrightarrow> ep cm \<in> opened (world s)) \<and>
    (close_never_fails P \<longrightarrow> (\<forall>e \<in> opened (world s). e \<noteq> 0 \<longrightarrow> (\<exists>c cm. comms s c = Some cm \<and> ep cm = e))) \<and>
    (\<forall>c cm. comms s c = Some cm \<longrightarrow> has_shared_ep cm \<longrightarrow> ep cm = sh_ep (shared_ep s)) \<and>
    unat (refcount (shared_ep s)) = card {c. \<exists>cm. comms s c = Some cm \<and> has_shared_ep cm} \<and>
    (\<forall>c cm d dm. comms s c = Some cm \<longrightarrow> comms s d = Some dm \<longrightarrow> c \<noteq> d \<longrightarrow> \<not> has_shared_ep dm \<longrightarrow>
      ep cm \<noteq> ep dm) \<and>
    (env_fixed P \<longrightarrow> (\<forall>c cm. comms s c = Some cm \<longrightarrow> has_shared_ep cm = (use_shared_ep s \<noteq> 0)))"
proof -
  have sys: "system_ok P opened posted s" and mo: "env_fixed P \<Longrightarrow> modes_ok s"
    using reachable_ok [OF assms(2,1)] by blast+
  then have co: "comms_ok P opened s" and he: "has_eps s"
    by (simp_all add: system_ok_def plugin_ok_def)
  have inv: "ep_inv (opened (world s)) s" using co by (simp add: comms_ok_def)
  have e0: "ep cm \<noteq> 0" if "comms s c = Some cm" for c cm using he that unfolding has_eps_def by blast
  have "close_never_fails P \<longrightarrow>
      (\<forall>e \<in> opened (world s). e \<noteq> 0 \<longrightarrow> (\<exists>c cm. comms s c = Some cm \<and> ep cm = e))"
    using co unfolding comms_ok_def no_stray_ep_def by blast
  moreover have "{c. \<exists>cm. comms s c = Some cm \<and> has_shared_ep cm} = sharers (comms s)"
    by (auto simp: sharers_def)
  moreover have "ep cm \<noteq> ep dm"
    if "comms s c = Some cm" and "comms s d = Some dm" and "c \<noteq> d" and "\<not> has_shared_ep dm"
    for c cm d dm
    using ep_inv_private(2) [OF inv that(2,4) e0 [OF that(2)] that(1,3)] .
  moreover have "ep cm \<in> opened (world s)" if "comms s c = Some cm" for c cm
    using ep_inv_open [OF inv that e0 [OF that]] .
  moreover have "ep cm = sh_ep (shared_ep s)" if "comms s c = Some cm" and "has_shared_ep cm" for c cm
    using ep_inv_shared(1) [OF inv that] .
  moreover note unat_refcount [OF inv] mo [unfolded modes_ok_def]
  ultimately show ?thesis by simp
qed

lemma reachable_endpoints_witness:
  "\<exists>h s. reachable sim_platform 7 sim0 [h] s \<and>
     {e \<in> set (sim_eps (world s)). e \<noteq> 0} \<subseteq> {ep cm |cm. cm \<in> ran (comms s)}"
proof -
  obtain s' h where r: "reachable sim_platform 7 sim0 [h] s'"
    using sim_listened by blast
  from reachable_endpoints [OF sim_library_ok r] sim_close_never_fails
  have "\<forall>e \<in> set (sim_eps (world s')). e \<noteq> 0 \<longrightarrow> (\<exists>c cm. comms s' c = Some cm \<and> ep cm = e)" by blast
  then show ?thesis using r unfolding ran_def by blast
qed

text \<open>
  C31: the configuration in every reachable state. The switches are 0 or 1, the policy is one of
  the two that exist, DMA-BUF is off, the log level is at most 3, and messages go to the
  function that NCCL passed to the initialisation. In an environment that does not change the
  configuration is for the life of the process the one that the first initialisation set,
  whatever is initialised again, with whatever result, and GPUDirect is on only if the
  environment says that libpsm2 has both CUDA support and GPUDirect on.
\<close>

theorem reachable_config:
  assumes "library_ok P opened posted w0" and "reachable P f w0 hs s"
  shows "config_ok s \<and> pluginLogFunction s = f \<and>
    (env_fixed P \<longrightarrow> same_conf (snd (psm2_nccl_init P f (initial_plugin w0))) s \<and>
      (use_gpudirect s \<noteq> 0 \<longrightarrow> read_flag P ''PSM2_CUDA'' 0 w0 = Some 1 \<and>
        read_flag P ''PSM2_GPUDIRECT'' 0 w0 = Some 1))"
proof -
  let ?i = "psm2_nccl_init P f (initial_plugin w0)"
  note r = reachable_ok [OF assms(2,1)]
  have "read_flag P ''PSM2_CUDA'' 0 w0 = Some 1 \<and> read_flag P ''PSM2_GPUDIRECT'' 0 w0 = Some 1"
    if "same_conf (snd ?i) s" and "use_gpudirect s \<noteq> 0"
  proof -
    have "fst ?i = ncclSuccess" using assms(2) by (rule reachable_init)
    moreover have "use_gpudirect (snd ?i) \<noteq> 0" using that by (simp add: same_conf_def)
    ultimately show ?thesis
      using psm2_nccl_init_gpudirect_sound [of P f "initial_plugin w0"] by simp
  qed
  then show ?thesis using r by (auto simp: system_ok_def)
qed

text \<open>The simulated library in an environment that is fixed, with GPUDirect on.\<close>

definition gdr_platform :: "sim platform" where
  "gdr_platform = sim_platform\<lparr>getenv := \<lambda>n w.
     if n = ''PSM2_CUDA'' \<or> n = ''PSM2_GPUDIRECT'' then Some ''1'' else None\<rparr>"

lemma gdr_library_ok: "library_ok gdr_platform (\<lambda>w. set (sim_eps w)) sim_view sim0"
  using sim_library_ok unfolding gdr_platform_def by (simp only: library_ok_getenv)

lemma gdr_reachable:
  "reachable gdr_platform 7 sim0 [] ((initial_plugin sim0)\<lparr>pluginLogFunction := 7\<rparr>)"
  by (rule r_init)
    (simp add: gdr_platform_def psm2_nccl_init_def psm2_nccl_init_logging_def read_flag_def
      read_multi_policy_def init_gpudirect_def init_finish_def initial_plugin_def
      sim0_def env_bit_def strtoul_def starts_with_digit_def digit_of_def code_of_def
      isspace_def ULONG_MAX_def Let_def)

lemma reachable_config_witness:
  "config_ok ((initial_plugin sim0)\<lparr>pluginLogFunction := 7\<rparr>) \<and>
   read_flag gdr_platform ''PSM2_CUDA'' 0 sim0 = Some 1"
  using reachable_config [OF gdr_library_ok gdr_reachable]
  by (simp add: env_fixed_def gdr_platform_def initial_plugin_def)

section \<open>Runs of the plugin\<close>

text \<open>A process that has initialised the plugin and made some calls.\<close>

definition process :: "'w platform \<Rightarrow> addr \<Rightarrow> 'w \<Rightarrow> event list \<Rightarrow> 'w plugin \<Rightarrow> bool" where
  "process P f w0 es s \<longleftrightarrow> (\<exists>s0. psm2_nccl_init P f (initial_plugin w0) = (ncclSuccess, s0) \<and>
     runs (plugin_step P) s0 es s)"

lemma process_refines:
  "library_ok P opened posted w0 \<Longrightarrow> process P f w0 es s \<Longrightarrow> runs spec_step spec_start es (plugin_abs s)"
  unfolding process_def by (blast intro: started_runs)

lemma process_reachable:
  "process P f w0 es s \<Longrightarrow> reachable P f w0 (concat (rev (map ev_handles es))) s"
  unfolding process_def by (auto dest: runs_reachable [OF _ r_init])

lemma process_system_ok:
  "library_ok P opened posted w0 \<Longrightarrow> process P f w0 es s \<Longrightarrow> system_ok P opened posted s"
  by (blast dest: process_reachable reachable_ok)

lemma process_all_posted:
  assumes "library_ok P opened posted w0" and "keeps_posted P posted" and "process P f w0 es s"
  shows "all_posted posted s"
  using assms(3) runs_all_posted [OF _ assms(2) init_system_ok [OF assms(1)] init_all_posted]
  unfolding process_def by blast

lemma process_sized:
  assumes "library_ok P opened posted w0" and "process P f w0 es s"
  shows "sized posted es s"
  using assms(2) runs_sized [OF _ init_system_ok [OF assms(1)] init_sized]
  unfolding process_def by (metis append_Nil)

lemma process_runs:
  "process P f w0 es s \<Longrightarrow> runs (plugin_step P) s fs s' \<Longrightarrow> process P f w0 (es @ fs) s'"
  unfolding process_def by (blast intro: runs_append)

text \<open>The operations of the simulated library complete as soon as it is asked.\<close>

lemma sim_pairs_entry: "(p, l) \<in># sim_pairs xs \<Longrightarrow> \<exists>h q. (h, q, p, l) \<in> set xs"
  by (induction xs rule: sim_pairs.induct) auto

lemma sim_find_none: "sim_find q xs = None \<Longrightarrow> (h, q, p, l) \<notin> set xs"
  by (induction xs rule: sim_pairs.induct) (auto split: if_splits)

lemma sim_take_subset: "sim_take h xs = Some (x, ys) \<Longrightarrow> y \<in> set ys \<Longrightarrow> y \<in> set xs"
  by (induction xs arbitrary: ys rule: sim_pairs.induct) (fastforce split: if_splits)+

lemma sim_poll_subset:
  assumes "poll_calls sim_platform w w'"
  shows "set (sim_posted w') \<subseteq> set (sim_posted w)"
  using assms
proof (induction rule: rtranclp_induct)
  case (step w1 w2)
  from step.hyps(2) have "set (sim_posted w2) \<subseteq> set (sim_posted w1)"
    by (cases rule: poll_call.cases)
      (auto simp: sim_test_def dest: sim_take_subset split: option.splits)
  then show ?case using step.IH by blast
qed simp

lemma sim_completed:
  assumes "\<forall>(h, q, p, l) \<in> set (sim_posted (world s)). \<forall>cm. comms s (fst p) = Some cm \<longrightarrow> mq cm = q"
  shows "completed sim_platform sim_view s"
  unfolding completed_def
proof (intro allI impI notI)
  fix c cm w and p :: req_ptr and l
  assume c: "comms s c = Some cm" and w: "poll_calls sim_platform (world s) w"
    and e: "queue_empty sim_platform (mq cm) w" and p: "(p, l) \<in># sim_view w" and f: "fst p = c"
  obtain h q where x: "(h, q, p, l) \<in> set (sim_posted w)"
    using sim_pairs_entry p unfolding sim_view_def by blast
  then have "(h, q, p, l) \<in> set (sim_posted (world s))" using sim_poll_subset [OF w] by blast
  then have "q = mq cm" using assms c f by auto
  moreover have "sim_find (mq cm) (sim_posted w) = None"
    using e by (auto simp: queue_empty_def split: option.splits)
  ultimately show False using sim_find_none x by blast
qed

text \<open>Runs in the simulated library: a listener and a receive on it; a connection and a send.\<close>

lemmas sim_init_simps = psm2comm_init_def calloc_comm_def sizeof_psm2comm_handle_def
  NCCL_NET_HANDLE_MAXSIZE_def psm2comm_init_ep_def check_unit_def obtain_ep_def load_comm_def
  attach_ep_def init_mq_def zero_shared_ep_def zero_comm_def

lemma sim_first_call:
  assumes "run_call sim_platform a sim_started = Some (Ret (r, out, s))" and "allowed sim_started a"
  shows "process sim_platform 7 sim0 [(a, r, out)] s"
proof -
  have "plugin_step sim_platform sim_started (a, r, out) s" using assms by (simp add: plugin_step_def)
  then show ?thesis unfolding process_def using sim_init runs_more runs_none by metis
qed

lemma sim_post_request:
  assumes "comms s 1 = Some cm" and "requests cm = replicate NUM_REQUESTS zero_req"
  obtains s1 s2 where "plugin_step sim_platform s
      (IRecv 1 1 [7] [64] [0] [0], ncclSuccess, Request (Some (1, 0))) s1"
    and "plugin_step sim_platform s (ISend 1 7 64 0, ncclSuccess, Request (Some (1, 0))) s2"
proof -
  have r: "requests cm = zero_req # replicate (NUM_REQUESTS - 1) zero_req" and n: "NUM_REQUESTS \<noteq> 0"
    using assms(2) by (simp_all add: NUM_REQUESTS_def NCCL_NET_MAX_REQUESTS_def numeral_eq_Suc)
  have "\<exists>s1. run_call sim_platform (IRecv 1 1 [7] [64] [0] [0]) s =
      Some (Ret (ncclSuccess, Request (Some (1, 0)), s1))"
    and "\<exists>s2. run_call sim_platform (ISend 1 7 64 0) s =
      Some (Ret (ncclSuccess, Request (Some (1, 0)), s2))"
    using assms(1) r n
    by (simp_all add: psm2_nccl_irecv_def psm2_nccl_irecv_v4_def psm2_nccl_isend_def
        post_request_def get_req_def load_comm_def NCCL_NET_PSM2_MAX_RECVS_def sim_post_def
        zero_req_def take_Cons' Let_def)
  then show thesis
    using assms(1) that by (auto simp: plugin_step_def live_def INT_MAX_def)
qed

lemma sim_listener:
  obtains h s cm where "process sim_platform 7 sim0 [(Listen 0, ncclSuccess, Listener 1 (Some h))] s"
    and "comms s 1 = Some cm" and "requests cm = replicate NUM_REQUESTS zero_req"
proof -
  have "\<exists>h s cm. run_call sim_platform (Listen 0) sim_started =
        Some (Ret (ncclSuccess, Listener 1 (Some h), s)) \<and>
      comms s 1 = Some cm \<and> requests cm = replicate NUM_REQUESTS zero_req"
    using not_ULLONG_MAX_le_one one_less_ULLONG_MAX
    by (simp add: psm2_nccl_listen_def Let_def sim_init_simps)
  then show thesis using sim_first_call [OF _ sim_listen_allowed] that by blast
qed

lemma sim_connector:
  obtains s cm where "process sim_platform 7 sim0 [(Connect 0 h, ncclSuccess, Comm 1 0)] s"
    and "comms s 1 = Some cm" and "requests cm = replicate NUM_REQUESTS zero_req"
proof -
  have "\<exists>s cm. run_call sim_platform (Connect 0 h) sim_started =
        Some (Ret (ncclSuccess, Comm 1 0, s)) \<and>
      comms s 1 = Some cm \<and> requests cm = replicate NUM_REQUESTS zero_req"
    by (simp add: psm2_nccl_connect_v8_def psm2_nccl_connect_def Let_def sim_init_simps)
  moreover have "allowed sim_started (Connect 0 h)" by (simp add: room_def)
  ultimately show thesis using sim_first_call that by blast
qed

text \<open>
  C2: the code refines the abstract machine of \<open>Plugin_Spec\<close>. Whatever NCCL calls after
  a successful initialisation, in whatever order it may, the values that it gets back are
  those of a run of the abstract machine from its start: every call, with its result and what it stores,
  is a step that the abstract machine allows in the state that the code has by then.
\<close>

theorem plugin_refines:
  assumes "library_ok P opened posted w0" and "process P f w0 es s"
  shows "runs spec_step spec_start es (plugin_abs s)"
  using assms by (rule process_refines)

lemma plugin_refines_witness:
  "\<exists>h s. process sim_platform 7 sim0 [(Listen 0, ncclSuccess, Listener 1 (Some h))] s \<and>
     runs spec_step spec_start [(Listen 0, ncclSuccess, Listener 1 (Some h))] (plugin_abs s)"
proof -
  obtain h s cm where p: "process sim_platform 7 sim0 [(Listen 0, ncclSuccess, Listener 1 (Some h))] s"
    by (rule sim_listener)
  show ?thesis using plugin_refines [OF sim_library_ok p] p by blast
qed

text \<open>
  C9: over every run, each request is handed out and reported done in turn. Between two
  times that the same request is handed out, a test has reported it done or its communicator
  was closed, and it is reported done at most once for each time it was handed out; what is
  not free at the end are exactly the requests that are still with NCCL.
\<close>

theorem requests_alternate:
  assumes "library_ok P opened posted w0" and "process P f w0 es s"
  shows "follow p False es = Some (\<exists>st. req_view s p = Some st \<and> st \<noteq> Free)"
proof -
  have "\<not> sp_out spec_start p" by (simp add: sp_out_def spec_start_def)
  then have "follow p False es = Some (sp_out (plugin_abs s) p)"
    using spec_runs_follow [OF process_refines [OF assms], of p] by simp
  also have "sp_out (plugin_abs s) p \<longleftrightarrow> (\<exists>st. req_view s p = Some st \<and> st \<noteq> Free)"
    by (auto simp: sp_out_def)
  finally show ?thesis .
qed

lemma process_step:
  assumes "process P f w0 es s" and "plugin_step P s e s'"
  shows "process P f w0 (es @ [e]) s'"
  using assms unfolding process_def by (blast intro: runs_append runs_more runs_none)

lemma requests_alternate_witness:
  "\<exists>h s. process sim_platform 7 sim0 [(Listen 0, ncclSuccess, Listener 1 (Some h)),
      (IRecv 1 1 [7] [64] [0] [0], ncclSuccess, Request (Some (1, 0)))] s \<and>
    (\<exists>st. req_view s (1, 0) = Some st \<and> st \<noteq> Free)"
proof -
  obtain h s cm where p: "process sim_platform 7 sim0 [(Listen 0, ncclSuccess, Listener 1 (Some h))] s"
    and "comms s 1 = Some cm" and "requests cm = replicate NUM_REQUESTS zero_req"
    by (rule sim_listener)
  then obtain s' where "plugin_step sim_platform s
      (IRecv 1 1 [7] [64] [0] [0], ncclSuccess, Request (Some (1, 0))) s'"
    by (blast elim: sim_post_request)
  then have q: "process sim_platform 7 sim0 ([(Listen 0, ncclSuccess, Listener 1 (Some h))] @
      [(IRecv 1 1 [7] [64] [0] [0], ncclSuccess, Request (Some (1, 0)))]) s'"
    by (rule process_step [OF p])
  from requests_alternate [OF sim_library_ok q, of "(1, 0)"] q show ?thesis
    by (auto simp del: req_view.simps)
qed

section \<open>Operations and shutdown\<close>

text \<open>
  C10: no operation is lost and none is left over. After any run, the operations that the
  library has are those of the requests that are in flight, each exactly once. This needs
  a library in which closing an endpoint or finalising a queue never drops an operation, which
  is assumed of every close, whatever is outstanding; the plugin is only asked to close a
  communicator none of whose own operations is outstanding.
\<close>

theorem operations_tracked:
  assumes "library_ok P opened posted w0" and "keeps_posted P posted" and "process P f w0 es s"
  shows "image_mset fst (posted (world s)) = mset_set {p. \<exists>t. req_view s p = Some (InFlight t)}"
proof -
  have "plugin_ok P opened posted s"
    using process_system_ok [OF assms(1,3)] by (simp add: system_ok_def)
  then show ?thesis by (rule posted_in_flight [OF _ process_all_posted [OF assms]])
qed

text \<open>A receive in the simulated library.\<close>

lemma sim_keeps_posted: "keeps_posted sim_platform sim_view"
  by (simp add: keeps_posted_def sim_view_def)

lemma sim_received_state:
  obtains h s cm k where "process sim_platform 7 sim0 [(Listen 0, ncclSuccess, Listener 1 (Some h)),
      (IRecv 1 1 [7] [64] [0] [0], ncclSuccess, Request (Some (1, 0)))] s"
    and "sim_posted (world s) = [(k, 1, (1, 0), 64)]" and "mq cm = 1"
    and "comms s = [1 \<mapsto> cm\<lparr>requests := new_req 1 cm ReqRecv\<lparr>r_req := k\<rparr> #
      replicate (NUM_REQUESTS - 1) zero_req\<rparr>]"
proof -
  have "\<exists>h s. run_call sim_platform (Listen 0) sim_started =
        Some (Ret (ncclSuccess, Listener 1 (Some h), s)) \<and>
      comms s = [1 \<mapsto> the (comms s 1)] \<and> requests (the (comms s 1)) = replicate NUM_REQUESTS zero_req \<and>
      mq (the (comms s 1)) = 1 \<and> sim_posted (world s) = []"
    using not_ULLONG_MAX_le_one one_less_ULLONG_MAX
    by (simp add: psm2_nccl_listen_def Let_def sim_init_simps sim_fresh_def sim0_def)
  then obtain h s cm where l: "run_call sim_platform (Listen 0) sim_started =
        Some (Ret (ncclSuccess, Listener 1 (Some h), s))"
    and cs: "comms s = [1 \<mapsto> cm]" and rs: "requests cm = replicate NUM_REQUESTS zero_req"
    and q: "mq cm = 1" and ps: "sim_posted (world s) = []" by blast
  note p = sim_first_call [OF l sim_listen_allowed]
  have r: "requests cm = zero_req # replicate (NUM_REQUESTS - 1) zero_req" and n: "NUM_REQUESTS \<noteq> 0"
    using rs by (simp_all add: NUM_REQUESTS_def NCCL_NET_MAX_REQUESTS_def numeral_eq_Suc)
  have "\<exists>s1 k. run_call sim_platform (IRecv 1 1 [7] [64] [0] [0]) s =
      Some (Ret (ncclSuccess, Request (Some (1, 0)), s1)) \<and>
      sim_posted (world s1) = [(k, 1, (1, 0), 64)] \<and>
      comms s1 = [1 \<mapsto> cm\<lparr>requests := new_req 1 cm ReqRecv\<lparr>r_req := k\<rparr> #
        replicate (NUM_REQUESTS - 1) zero_req\<rparr>]"
    using cs r n q ps
    by (simp add: psm2_nccl_irecv_def psm2_nccl_irecv_v4_def
        post_request_def get_req_def load_comm_def NCCL_NET_PSM2_MAX_RECVS_def sim_post_def
        zero_req_def take_Cons' Let_def int_to_u32_def)
  then obtain s1 k where e: "run_call sim_platform (IRecv 1 1 [7] [64] [0] [0]) s =
      Some (Ret (ncclSuccess, Request (Some (1, 0)), s1))"
    and po: "sim_posted (world s1) = [(k, 1, (1, 0), 64)]"
    and c1: "comms s1 = [1 \<mapsto> cm\<lparr>requests := new_req 1 cm ReqRecv\<lparr>r_req := k\<rparr> #
        replicate (NUM_REQUESTS - 1) zero_req\<rparr>]" by blast
  have "plugin_step sim_platform s (IRecv 1 1 [7] [64] [0] [0], ncclSuccess, Request (Some (1, 0))) s1"
    using e cs by (simp add: plugin_step_def live_def INT_MAX_def)
  note p1 = process_step [OF p this, unfolded append.simps]
  show thesis by (rule that [OF p1 po q c1])
qed

lemma sim_received:
  obtains h s where "process sim_platform 7 sim0 [(Listen 0, ncclSuccess, Listener 1 (Some h)),
      (IRecv 1 1 [7] [64] [0] [0], ncclSuccess, Request (Some (1, 0)))] s"
    and "sim_view (world s) = {#((1, 0), 64)#}" and "completed sim_platform sim_view s"
    and "with_nccl s = {(1, 0)}" and "dom (comms s) = {1}"
proof -
  obtain h s cm k where p: "process sim_platform 7 sim0 [(Listen 0, ncclSuccess, Listener 1 (Some h)),
      (IRecv 1 1 [7] [64] [0] [0], ncclSuccess, Request (Some (1, 0)))] s"
    and po: "sim_posted (world s) = [(k, 1, (1, 0), 64)]" and q: "mq cm = 1"
    and cs: "comms s = [1 \<mapsto> cm\<lparr>requests := new_req 1 cm ReqRecv\<lparr>r_req := k\<rparr> #
        replicate (NUM_REQUESTS - 1) zero_req\<rparr>]" by (rule sim_received_state)
  have "sim_view (world s) = {#((1, 0), 64)#}" by (simp add: sim_view_def po)
  moreover have "completed sim_platform sim_view s"
    by (rule sim_completed) (simp add: po cs q)
  moreover have "with_nccl s = {(1, 0)}"
    by (auto simp: with_nccl_def cs abs_req_def nth_Cons zero_req_def new_req_def
        split: option.splits if_splits nat.splits)
  ultimately show thesis using that p cs by simp
qed

lemma operations_tracked_witness:
  "\<exists>h s. process sim_platform 7 sim0 [(Listen 0, ncclSuccess, Listener 1 (Some h)),
      (IRecv 1 1 [7] [64] [0] [0], ncclSuccess, Request (Some (1, 0)))] s \<and>
     {#(1, 0)#} = mset_set {p. \<exists>t. req_view s p = Some (InFlight t)}"
proof -
  obtain h s where p: "process sim_platform 7 sim0 [(Listen 0, ncclSuccess, Listener 1 (Some h)),
      (IRecv 1 1 [7] [64] [0] [0], ncclSuccess, Request (Some (1, 0)))] s"
    and v: "sim_view (world s) = {#((1, 0), 64)#}" by (rule sim_received)
  from operations_tracked [OF sim_library_ok sim_keeps_posted p] p v show ?thesis by auto
qed

text \<open>
  Two receives on one queue of the simulated library: the test of the first one retires them
  both, and the test of the second one reports what was retired before.
\<close>

definition sim_two_recvs :: "psm2comm_handle \<Rightarrow> event list" where
  "sim_two_recvs h = [(Listen 0, ncclSuccess, Listener 1 (Some h)),
     (IRecv 1 1 [7] [64] [0] [0], ncclSuccess, Request (Some (1, 0))),
     (IRecv 1 1 [7] [8] [0] [0], ncclSuccess, Request (Some (1, 1)))]"

lemma sim_two_received:
  obtains h s where "process sim_platform 7 sim0 (sim_two_recvs h) s"
    and "completed sim_platform sim_view s" and "with_nccl s = {(1, 0), (1, 1)}"
    and "req_view s (1, 1) = Some (InFlight ReqRecv)"
proof -
  obtain h s cm k where p: "process sim_platform 7 sim0 [(Listen 0, ncclSuccess, Listener 1 (Some h)),
      (IRecv 1 1 [7] [64] [0] [0], ncclSuccess, Request (Some (1, 0)))] s"
    and po: "sim_posted (world s) = [(k, 1, (1, 0), 64)]" and q: "mq cm = 1"
    and cs: "comms s = [1 \<mapsto> cm\<lparr>requests := new_req 1 cm ReqRecv\<lparr>r_req := k\<rparr> #
        replicate (NUM_REQUESTS - 1) zero_req\<rparr>]" by (rule sim_received_state)
  have r: "replicate (NUM_REQUESTS - 1) zero_req = zero_req # replicate (NUM_REQUESTS - 2) zero_req"
    and n: "NUM_REQUESTS = Suc (Suc (NUM_REQUESTS - 2))"
    and one: "NUM_REQUESTS - 1 \<noteq> 0"
    by (simp_all add: NUM_REQUESTS_def NCCL_NET_MAX_REQUESTS_def numeral_eq_Suc)
  let ?j = "sim_next (world s)"
  have "\<exists>s1. run_call sim_platform (IRecv 1 1 [7] [8] [0] [0]) s =
      Some (Ret (ncclSuccess, Request (Some (1, 1)), s1)) \<and>
      set (sim_posted (world s1)) = {(k, 1, (1, 0), 64), (?j, 1, (1, 1), 8)} \<and>
      comms s1 = [1 \<mapsto> cm\<lparr>requests := new_req 1 cm ReqRecv\<lparr>r_req := k\<rparr> #
        new_req 1 cm ReqRecv\<lparr>r_req := ?j\<rparr> # replicate (NUM_REQUESTS - 2) zero_req\<rparr>]"
    using cs r n q po one
    by (simp add: psm2_nccl_irecv_def psm2_nccl_irecv_v4_def
        post_request_def get_req_def load_comm_def NCCL_NET_PSM2_MAX_RECVS_def sim_post_def
        zero_req_def new_req_def take_Cons' Let_def int_to_u32_def insert_commute)
  then obtain s1 j where e: "run_call sim_platform (IRecv 1 1 [7] [8] [0] [0]) s =
      Some (Ret (ncclSuccess, Request (Some (1, 1)), s1))"
    and po1: "set (sim_posted (world s1)) = {(k, 1, (1, 0), 64), (j, 1, (1, 1), 8)}"
    and c1: "comms s1 = [1 \<mapsto> cm\<lparr>requests := new_req 1 cm ReqRecv\<lparr>r_req := k\<rparr> #
        new_req 1 cm ReqRecv\<lparr>r_req := j\<rparr> # replicate (NUM_REQUESTS - 2) zero_req\<rparr>]" by blast
  have "plugin_step sim_platform s (IRecv 1 1 [7] [8] [0] [0], ncclSuccess, Request (Some (1, 1))) s1"
    using e cs by (simp add: plugin_step_def live_def INT_MAX_def)
  from process_step [OF p this] have "process sim_platform 7 sim0 (sim_two_recvs h) s1"
    by (simp add: sim_two_recvs_def)
  moreover have "completed sim_platform sim_view s1"
    by (rule sim_completed) (auto simp: po1 c1 q)
  moreover have "with_nccl s1 = {(1, 0), (1, 1)}"
    by (auto simp: with_nccl_def c1 abs_req_def nth_Cons zero_req_def new_req_def
        split: option.splits if_splits nat.splits)
  moreover have "req_view s1 (1, 1) = Some (InFlight ReqRecv)"
    using c1 by (simp add: abs_req_def new_req_def zero_req_def)
  ultimately show thesis by (rule that)
qed

lemma sim_tests:
  obtains h n sz s1 s2 t where "process sim_platform 7 sim0 (sim_two_recvs h @
      [(Test (1, 0) True, ncclSuccess, Tested 1 n)]) s1"
    and "plugin_step sim_platform s1 (Test (1, 1) True, ncclSuccess, Tested 1 sz) s2"
    and "req_view s1 (1, 1) = Some t" and "t \<noteq> Free" and "req_kind t = ReqRecv"
proof -
  obtain h s where p: "process sim_platform 7 sim0 (sim_two_recvs h) s"
    and c: "completed sim_platform sim_view s" and w: "with_nccl s = {(1, 0), (1, 1)}"
    and v: "req_view s (1, 1) = Some (InFlight ReqRecv)" by (rule sim_two_received)
  note ok = process_system_ok [OF sim_library_ok] process_all_posted [OF sim_library_ok sim_keeps_posted]
  have "(1, 0) \<in> with_nccl s" unfolding w by simp
  from completed_test [OF ok [OF p] c this] obtain n s1
    where st: "plugin_step sim_platform s (Test (1, 0) True, ncclSuccess, Tested 1 n) s1"
      and w1: "with_nccl s1 = with_nccl s - {(1, 0)}" and c1: "completed sim_platform sim_view s1" by blast
  note p1 = process_step [OF p st]
  have "(1, 1) \<in> with_nccl s1" unfolding w1 w by simp
  from completed_test [OF ok [OF p1] c1 this] obtain sz s2
    where st2: "plugin_step sim_platform s1 (Test (1, 1) True, ncclSuccess, Tested 1 sz) s2" by blast
  obtain t where "req_view s1 (1, 1) = Some t" "t \<noteq> Free" "req_kind t = ReqRecv"
    using spec_step_kind [OF plugin_step_ok(4) [OF ok(1) [OF p] st], of "(1, 1)" "InFlight ReqRecv"] v
    by (auto simp del: req_view.simps)
  then show thesis using that p1 st2 by blast
qed

lemma sim_test_done:
  "plugin_step P s (Test p hs, r, Tested d sz) s' \<Longrightarrow>
     psm2_nccl_test P p hs s = Some (Ret (r, d, sz, s'))"
  by (auto simp: plugin_step_def obind_eq_Ret)

lemma sim_test_size:
  assumes "process sim_platform 7 sim0 es s"
    and "plugin_step sim_platform s (Test p True, r, Tested 1 sz) s'"
    and "req_view s p = Some t" and "t \<noteq> Free" and "req_kind t = ReqRecv"
  obtains m where "sz = Some m"
  using test_reports [OF process_system_ok [OF sim_library_ok assms(1)]
      process_all_posted [OF sim_library_ok sim_keeps_posted assms(1)] assms(3,4), of True]
    sim_test_done [OF assms(2)] assms(5) by auto

text \<open>
  C17: a request is reported as soon as it can be. Testing a request that NCCL has returns, after
  the queue of its communicator was found idle, and reports it done exactly if the library no
  longer has its operation, whether this poll retired it or the test of another request on a
  queue that they share did earlier. Reported done it is
  free again, and a size is given exactly for a receive; otherwise it is in flight as before.
\<close>

theorem psm2_nccl_test_reports:
  assumes "library_ok P opened posted w0" and "keeps_posted P posted" and "process P f w0 es s"
    and "req_view s p = Some st" and "st \<noteq> Free" and "has_size \<or> req_kind st \<noteq> ReqRecv"
  shows "\<exists>d sz s' cm. psm2_nccl_test P p has_size s = Some (Ret (ncclSuccess, d, sz, s')) \<and>
    comms s (fst p) = Some cm \<and> queue_empty P (mq cm) (world s') \<and>
    (sz \<noteq> None \<longleftrightarrow> d = 1 \<and> req_kind st = ReqRecv) \<and>
    (if p \<in># image_mset fst (posted (world s')) then d = 0 \<and> req_view s' p = Some st
     else d = 1 \<and> req_view s' p = Some Free)"
  using test_reports [OF process_system_ok [OF assms(1,3)] process_all_posted [OF assms(1-3)] assms(4-6)] .

lemma psm2_nccl_test_reports_witness:
  "\<exists>h n m s1 s2. process sim_platform 7 sim0 (sim_two_recvs h @
      [(Test (1, 0) True, ncclSuccess, Tested 1 n)]) s1 \<and>
     psm2_nccl_test sim_platform (1, 1) True s1 = Some (Ret (ncclSuccess, 1, Some m, s2)) \<and>
     (1, 1) \<notin># image_mset fst (sim_view (world s2)) \<and> req_view s2 (1, 1) = Some Free"
proof -
  obtain h n sz s1 s2 t where p: "process sim_platform 7 sim0 (sim_two_recvs h @
      [(Test (1, 0) True, ncclSuccess, Tested 1 n)]) s1"
    and st: "plugin_step sim_platform s1 (Test (1, 1) True, ncclSuccess, Tested 1 sz) s2"
    and v: "req_view s1 (1, 1) = Some t" "t \<noteq> Free" "req_kind t = ReqRecv" by (rule sim_tests)
  have "True \<or> req_kind t \<noteq> ReqRecv" by simp
  from psm2_nccl_test_reports [OF sim_library_ok sim_keeps_posted p v(1,2) this] sim_test_done [OF st] v(3)
  show ?thesis using p by (fastforce split: if_splits simp del: req_view.simps)
qed

text \<open>
  C21: the size that a test reports is a byte count that fits the buffer. Whenever a test
  reports a size, the request is reported done, it was posted last by a receive, and the size
  is at least 0 and at most the length that NCCL gave with this receive, whether this
  test retired the operation or the test of another request did earlier.
\<close>

theorem psm2_nccl_test_size_bound:
  assumes "library_ok P opened posted w0" and "process P f w0 es s"
    and "plugin_step P s (Test p has_size, r, Tested d (Some n)) s'"
  shows "r = ncclSuccess \<and> d = 1 \<and> (\<exists>es1 es2 c k ds szs tags mhs.
    es = es1 @ (IRecv c k ds szs tags mhs, ncclSuccess, Request (Some p)) # es2 \<and>
    (\<forall>e\<in>set es2. ev_posts e \<noteq> Some p) \<and> 0 \<le> n \<and> n \<le> hd szs)"
proof -
  have pl: "plugin_ok P opened posted s"
    using process_system_ok [OF assms(1,2)] by (simp add: system_ok_def)
  obtain st where st: "req_view s p = Some st" "has_size \<or> req_kind st \<noteq> ReqRecv"
    using assms(3) by (auto simp: plugin_step_def simp del: req_view.simps split: option.splits)
  have t: "psm2_nccl_test P p has_size s = Some (Ret (r, d, Some n, s'))"
    using assms(3) by (auto simp: plugin_step_def obind_eq_Ret)
  from test_sized(2) [OF pl process_sized [OF assms(1,2)] st t] show ?thesis
    unfolding posted_by_def by blast
qed

lemma psm2_nccl_test_size_bound_witness:
  "\<exists>h n m s1 s2. process sim_platform 7 sim0 (sim_two_recvs h @
      [(Test (1, 0) True, ncclSuccess, Tested 1 n)]) s1 \<and>
     plugin_step sim_platform s1 (Test (1, 1) True, ncclSuccess, Tested 1 (Some m)) s2 \<and> 0 \<le> m \<and> m \<le> 8"
proof -
  obtain h n sz s1 s2 t where p: "process sim_platform 7 sim0 (sim_two_recvs h @
      [(Test (1, 0) True, ncclSuccess, Tested 1 n)]) s1"
    and st: "plugin_step sim_platform s1 (Test (1, 1) True, ncclSuccess, Tested 1 sz) s2"
    and v: "req_view s1 (1, 1) = Some t" "t \<noteq> Free" "req_kind t = ReqRecv" by (rule sim_tests)
  obtain m where m: "sz = Some m" by (rule sim_test_size [OF p st v])
  from psm2_nccl_test_size_bound [OF sim_library_ok p st [unfolded m]] obtain es1 es2 c k ds szs tags mhs
    where e: "sim_two_recvs h @ [(Test (1, 0) True, ncclSuccess, Tested 1 n)] =
        es1 @ (IRecv c k ds szs tags mhs, ncclSuccess, Request (Some (1, 1))) # es2"
      and b: "0 \<le> m" "m \<le> hd szs" by blast
  from e have "szs = [8]" by (auto simp: sim_two_recvs_def append_eq_Cons_conv Cons_eq_append_conv)
  with b have "0 \<le> m \<and> m \<le> 8" by simp
  with p st [unfolded m] show ?thesis by blast
qed

text \<open>
  C11: the plugin can always be taken down. Once the library has completed the operations of
  a process, in whatever state it is, one test of each request that is with NCCL, in any
  order, reports every one of them done, and closing every communicator, in any order and by
  either call, returns. Then no communicator and no reference to the shared endpoint is
  left, and no endpoint stays open if the library closes what it is told to.
\<close>

theorem plugin_shutdown:
  assumes "library_ok P opened posted w0" and "keeps_posted P posted" and "process P f w0 es s"
    and "completed P posted s"
    and "distinct ps" and "set ps = {p. req_view s p \<noteq> None \<and> req_view s p \<noteq> Some Free}"
    and "distinct cs" and "set cs = dom (comms s)"
    and "list_all2 (\<lambda>a c. a = CloseSend c \<or> a = CloseRecv c) as cs"
  shows "\<exists>ns rs s'. length ns = length ps \<and> length rs = length as \<and>
    process P f w0 (es @ map2 (\<lambda>p n. (Test p True, ncclSuccess, Tested 1 n)) ps ns @
      map2 (\<lambda>a r. (a, r, NoOut)) as rs) s' \<and>
    comms s' = Map.empty \<and> refcount (shared_ep s') = 0 \<and>
    (close_never_fails P \<longrightarrow> opened (world s') \<subseteq> {0})"
proof -
  note sys = process_system_ok [OF assms(1,3)]
  have "set ps = with_nccl s" using assms(6) by (simp add: with_nccl_def)
  with completed_tests [OF sys process_all_posted [OF assms(1-3)] assms(4,5)]
  obtain ns s1 where ns: "length ns = length ps"
    and r1: "runs (plugin_step P) s (map2 (\<lambda>p n. (Test p True, ncclSuccess, Tested 1 n)) ps ns) s1"
    and w: "with_nccl s1 = {}" and d: "dom (comms s1) = dom (comms s)" by auto
  note p1 = process_runs [OF assms(3) r1]
  note sys1 = process_system_ok [OF assms(1) p1]
  from idle_closes [OF sys1 w assms(7) _ assms(9)] assms(8) d
  obtain rs s' where rs: "length rs = length as"
    and r2: "runs (plugin_step P) s1 (map2 (\<lambda>a r. (a, r, NoOut)) as rs) s'"
    and e: "comms s' = Map.empty" by auto
  note p2 = process_runs [OF p1 r2]
  show ?thesis
    using ns rs p2 e no_comms_down [OF process_system_ok [OF assms(1) p2] e]
    by (metis append.assoc)
qed

lemma plugin_shutdown_witness:
  "\<exists>h n r s'. process sim_platform 7 sim0 [(Listen 0, ncclSuccess, Listener 1 (Some h)),
      (IRecv 1 1 [7] [64] [0] [0], ncclSuccess, Request (Some (1, 0))),
      (Test (1, 0) True, ncclSuccess, Tested 1 n), (CloseRecv 1, r, NoOut)] s' \<and>
     comms s' = Map.empty \<and> set (sim_eps (world s')) \<subseteq> {0}"
proof -
  obtain h s where p: "process sim_platform 7 sim0 [(Listen 0, ncclSuccess, Listener 1 (Some h)),
      (IRecv 1 1 [7] [64] [0] [0], ncclSuccess, Request (Some (1, 0)))] s"
    and c: "completed sim_platform sim_view s" and w: "with_nccl s = {(1, 0)}"
    and d: "dom (comms s) = {1}" by (rule sim_received)
  have ps: "set [(1, 0)] = {p. req_view s p \<noteq> None \<and> req_view s p \<noteq> Some Free}"
    using w by (simp add: with_nccl_def del: req_view.simps)
  have cs: "set [1] = dom (comms s)" using d by simp
  have as: "list_all2 (\<lambda>a c. a = CloseSend c \<or> a = CloseRecv c) [CloseRecv 1] [1]" by simp
  from plugin_shutdown [OF sim_library_ok sim_keeps_posted p c _ ps _ cs as]
  show ?thesis using sim_close_never_fails by (fastforce simp: length_Suc_conv)
qed

section \<open>The protocol of libpsm2\<close>

text \<open>
  C5: the plugin keeps to the protocol of libpsm2. The library records the calls that are made to it,
  from the start of the process, failing calls and failing operations included. The record
  is a run of the protocol: no endpoint is opened before \<open>psm2_init\<close> has succeeded, none is
  connected or closed that is not open, none is closed while a queue made on it has not been
  finalised, no queue is used or finalised that does not exist, and every finished request that a
  poll finds is tested by the very next call, which also the second part says of the record
  itself, and nothing else is ever tested. What is then open and not finalised is exactly what
  the communicators hold.
\<close>

theorem library_protocol:
  assumes "library_ok P opened posted w0" and "queue_contract P"
    and "process (traced P) f (w0, []) es s"
  shows "runs lib_step lib_start (snd (world s))
    \<lparr>lib_ready = True, lib_eps = {e. e \<noteq> 0 \<and> (\<exists>c cm. comms s c = Some cm \<and> ep cm = e)},
     lib_queues = image_mset (\<lambda>c. (ep (the (comms s c)), mq (the (comms s c)))) (mset_set (dom (comms s))),
     lib_found = None\<rparr> \<and>
    (\<forall>tr1 q h tr2. snd (world s) = tr1 @ LPeek q (Some h) # tr2 \<longrightarrow> (\<exists>tr3. tr2 = LTest h # tr3))"
proof -
  have run: "runs lib_step lib_start (snd (world s)) (lib_view s)" and "has_queues s"
    using assms(3) started_traced [OF assms(1,2)] unfolding process_def by blast+
  then have "{c. \<exists>cm. comms s c = Some cm \<and> mq cm \<noteq> 0} = dom (comms s)"
    by (auto simp: has_queues_def)
  moreover have "\<exists>tr3. tr2 = LTest h # tr3" if "snd (world s) = tr1 @ LPeek q (Some h) # tr2" for tr1 q h tr2
    using run unfolding that by (rule found_tested_next) simp
  ultimately show ?thesis using run by (simp add: lib_view_def eps_of_def queues_of_def)
qed

lemma sim_queue_contract: "queue_contract sim_platform"
  by (simp add: queue_contract_def)

text \<open>A listener in the simulated library that records its calls, closed again.\<close>

lemma traced_sim_simps [simp]:
  "alloc_ok (traced P) n = alloc_ok P n"
  "psm2_init (traced sim_platform) ma mi x = (0, fst x, snd x @ [LInit True])"
  "psm2_info_query (traced sim_platform) iq ia x = (0, 1, x)"
  "psm2_ep_open_opts_get_defaults (traced sim_platform) x = (0, \<lparr>opt_unit = -1, other_opts = 0\<rparr>, x)"
  "psm2_ep_open (traced sim_platform) u opts (w, tr) = (0, sim_fresh w, of_nat (sim_fresh w),
     w\<lparr>sim_eps := sim_fresh w # sim_eps w\<rparr>, tr @ [LOpen (Some (sim_fresh w))])"
  "psm2_ep_close (traced sim_platform) e m t (w, tr) =
     (0, w\<lparr>sim_eps := removeAll e (sim_eps w)\<rparr>, tr @ [LClose e])"
  "psm2_mq_init (traced sim_platform) e om (w, tr) = (0, e, w, tr @ [LMqInit e (Some e)])"
  "psm2_mq_finalize (traced sim_platform) q (w, tr) = (0, w, tr @ [LMqFinalize q])"
  by (simp_all add: traced_def split: prod.split)

definition traced_started :: "(sim \<times> lib_event list) plugin" where
  "traced_started = (initial_plugin (sim0, []))\<lparr>use_gpudirect := 0, pluginLogFunction := 7,
     world := (sim0, [LInit True])\<rparr>"

lemma traced_init:
  "psm2_nccl_init (traced sim_platform) 7 (initial_plugin (sim0, [])) = (ncclSuccess, traced_started)"
  by (simp add: psm2_nccl_init_def psm2_nccl_init_logging_def Let_def read_flag_def
      read_multi_policy_def init_gpudirect_def init_finish_def initial_plugin_def traced_started_def
      sim0_def)

lemma library_protocol_witness:
  "\<exists>h s. process (traced sim_platform) 7 (sim0, [])
       [(Listen 0, ncclSuccess, Listener 1 (Some h)), (CloseRecv 1, ncclSuccess, NoOut)] s \<and>
     snd (world s) = [LInit True, LOpen (Some 1), LMqInit 1 (Some 1), LMqFinalize 1, LClose 1] \<and>
     runs lib_step lib_start (snd (world s)) (lib_start\<lparr>lib_ready := True\<rparr>)"
proof -
  have st: "comms traced_started = Map.empty" "next_tag traced_started = 0"
    "world traced_started = (sim0, [LInit True])" "allocs traced_started = 0"
    "use_shared_ep traced_started = 1" "use_nccl_dev_num traced_started = 1"
    "shared_ep traced_started = zero_shared_ep"
    by (simp_all add: traced_started_def initial_plugin_def)
  have "\<exists>h s. run_call (traced sim_platform) (Listen 0) traced_started =
        Some (Ret (ncclSuccess, Listener 1 (Some h), s)) \<and>
      snd (world s) = [LInit True, LOpen (Some 1), LMqInit 1 (Some 1)] \<and>
      comms s = [1 \<mapsto> the (comms s 1)] \<and> requests (the (comms s 1)) = replicate NUM_REQUESTS zero_req \<and>
      ep (the (comms s 1)) = 1 \<and> mq (the (comms s 1)) = 1 \<and> has_shared_ep (the (comms s 1)) \<and>
      refcount (shared_ep s) = 1"
    using not_ULLONG_MAX_le_one one_less_ULLONG_MAX
    by (simp add: st psm2_nccl_listen_def Let_def sim_init_simps sim_fresh_def sim0_def)
  then obtain h s cm where l: "run_call (traced sim_platform) (Listen 0) traced_started =
        Some (Ret (ncclSuccess, Listener 1 (Some h), s))"
    and w: "snd (world s) = [LInit True, LOpen (Some 1), LMqInit 1 (Some 1)]"
    and cs: "comms s = [1 \<mapsto> cm]" "requests cm = replicate NUM_REQUESTS zero_req"
    and cm: "ep cm = 1" "mq cm = 1" "has_shared_ep cm" "refcount (shared_ep s) = 1"
    by blast
  have "allowed traced_started (Listen 0)"
    using one_less_ULLONG_MAX by (simp add: st room_def tags_left_def)
  then have s1: "plugin_step (traced sim_platform) traced_started
      (Listen 0, ncclSuccess, Listener 1 (Some h)) s"
    using l by (simp add: plugin_step_def)
  obtain v where "world s = (v, snd (world s))" by (metis prod.collapse)
  then have ws: "world s = (v, [LInit True, LOpen (Some 1), LMqInit 1 (Some 1)])" using w by simp
  have "\<exists>s'. run_call (traced sim_platform) (CloseRecv 1) s = Some (Ret (ncclSuccess, NoOut, s')) \<and>
      comms s' = Map.empty \<and>
      snd (world s') = [LInit True, LOpen (Some 1), LMqInit 1 (Some 1), LMqFinalize 1, LClose 1]"
    using cs cm ws
    by (simp add: psm2_nccl_closeRecv_def psm2comm_fini_def load_comm_def finalize_mq_def
        detach_ep_def release_ep_def free_comm_def Let_def)
  then obtain s' where c: "run_call (traced sim_platform) (CloseRecv 1) s =
      Some (Ret (ncclSuccess, NoOut, s'))" and cs': "comms s' = Map.empty"
    and w': "snd (world s') = [LInit True, LOpen (Some 1), LMqInit 1 (Some 1), LMqFinalize 1, LClose 1]"
    by blast
  have "allowed s (CloseRecv 1)" using cs by (simp add: live_def idle_def zero_req_def)
  then have "plugin_step (traced sim_platform) s (CloseRecv 1, ncclSuccess, NoOut) s'"
    using c by (simp add: plugin_step_def)
  then have p: "process (traced sim_platform) 7 (sim0, [])
      [(Listen 0, ncclSuccess, Listener 1 (Some h)), (CloseRecv 1, ncclSuccess, NoOut)] s'"
    unfolding process_def using traced_init s1 by (blast intro: runs_more runs_none)
  from library_protocol [OF sim_library_ok sim_queue_contract p] cs'
  have "runs lib_step lib_start (snd (world s')) (lib_start\<lparr>lib_ready := True\<rparr>)"
    by (simp add: lib_start_def)
  with p w' show ?thesis by blast
qed

section \<open>Matching\<close>

text \<open>What a posting that succeeds hands to the library.\<close>

lemma post_request_passes:
  assumes "reqs_ok s" and "comms s c = Some cm" and "type = ReqSend \<or> type = ReqRecv"
    and "post_request P c type call s = Ret (r, Some p, s')"
  shows "\<exists>rs rc h. call (cm\<lparr>requests := rs\<rparr>) p (world s) = (rc, h, world s')"
proof (cases "find_unused 0 (requests cm)")
  case None
  then show ?thesis using post_request_eval(1) [OF assms(1-3) None] assms(4) by simp
next
  case (Some i)
  let ?rs = "(requests cm)[i := new_req c cm type]"
  obtain rc h w' where k: "call (cm\<lparr>requests := ?rs\<rparr>) (c, i) (world s) = (rc, h, w')"
    by (metis prod_cases3)
  from post_request_eval(2) [where call = call, OF assms(1-3) Some k] assms(4)
  have "p = (c, i)" and "world s' = w'"
    by (auto simp: store_req_world simp del: store_req.simps split: if_splits)
  then show ?thesis using k by blast
qed

text \<open>The last event that opened the communicator \<open>c\<close>, and it has not been closed since.\<close>

definition opened_by :: "event list \<Rightarrow> event \<Rightarrow> addr \<Rightarrow> bool" where
  "opened_by es e c \<longleftrightarrow>
     (\<exists>es1 es2. es = es1 @ e # es2 \<and> (\<forall>x\<in>set es2. ev_closes x \<noteq> Some c))"

lemma process_tag:
  assumes "library_ok P opened posted w0" and "process P f w0 es s"
    and "opened_by es e c" and "ev_opens e = Some (c, t)"
  obtains cm where "comms s c = Some cm" and "tag cm = t"
proof -
  obtain es1 es2 where "es = es1 @ e # es2" and n: "\<forall>x\<in>set es2. ev_closes x \<noteq> Some c"
    using assms(3) unfolding opened_by_def by blast
  with process_refines [OF assms(1,2)]
  have "runs spec_step spec_start (es1 @ e # es2) (plugin_abs s)" by simp
  then have "sp_tag (plugin_abs s) c = Some t" by (rule spec_runs_opened [OF _ assms(4) n])
  then show thesis using that by auto
qed

lemma process_handle_tags:
  assumes "library_ok P opened posted w0" and "process P f w0 es s"
    and "h \<in> set (concat (map ev_handles es))" and "h' \<in> set (concat (map ev_handles es))"
  shows "h_tag h' = h_tag h \<longleftrightarrow> h' = h"
proof -
  let ?hs = "concat (rev (map ev_handles es))"
  have "distinct (map h_tag ?hs)"
    using reachable_ok [OF process_reachable [OF assms(2)] assms(1)] by blast
  then have "inj_on h_tag (set ?hs)" by (simp add: distinct_map)
  then show ?thesis using assms(3,4) by (auto dest: inj_onD)
qed

lemma step_irecv:
  assumes "plugin_step P s (IRecv l n ds szs tags mhs, ncclSuccess, Request (Some p)) s'"
  shows "psm2_nccl_irecv_v4 P l (hd ds) (hd szs) (hd mhs) s = Ret (ncclSuccess, Some p, s')"
proof -
  obtain d ds' sz szs' mh mhs' where "ds = d # ds'" "szs = sz # szs'" "mhs = mh # mhs'"
    using assms by (auto simp: plugin_step_def neq_Nil_conv)
  then show ?thesis
    using assms by (auto simp: plugin_step_def psm2_nccl_irecv_def NCCL_NET_PSM2_MAX_RECVS_def
        obind_eq_Ret)
qed

lemma step_isend:
  "plugin_step P s (ISend c d sz tg, ncclSuccess, Request (Some p)) s' \<Longrightarrow>
     psm2_nccl_isend P c d sz tg 0 s = Ret (ncclSuccess, Some p, s')"
  by (auto simp: plugin_step_def obind_eq_Ret)

lemma tags_match: "((x :: 64 word) XOR y) AND NOT 0 = 0 \<longleftrightarrow> x = y"
  by (auto simp: bit_eq_iff bit_simps)


text \<open>
  C4: messages reach the listener whose handle the sender has. A listener of one process and
  a communicator that any process made with a handle of the first are open. The receive that
  the one posts and the send that the other posts go to their matched queues with these tags
  and mask, and the tags agree under the mask, which is how libpsm2 matches them, exactly if
  the handle is the listener's, although all listeners of a process may share one endpoint.
\<close>

theorem messages_matched:
  assumes "library_ok P opened posted w0" and "process P f w0 es s"
    and "opened_by es (Listen dev, ncclSuccess, Listener l (Some h)) l"
    and "h' \<in> set (concat (map ev_handles es))"
    and "library_ok Q opened' posted' v0" and "process Q g v0 fs t"
    and "opened_by fs (Connect dev' h', ncclSuccess, Comm c x) c"
    and "plugin_step P s (IRecv l n ds szs tags mhs, ncclSuccess, Request (Some p)) s'"
    and "plugin_step Q t (ISend c d sz tg, ncclSuccess, Request (Some q)) t'"
  shows "\<exists>lm cm. comms s l = Some lm \<and> comms t c = Some cm \<and>
    (\<exists>rc hnd. psm2_mq_irecv P (mq lm) (tag lm) (NOT 0) (PSM2_MQ_FLAG_GDRCPY_ONLY P) (hd ds)
      (int_to_u32 (hd szs)) p (world s) = (rc, hnd, world s')) \<and>
    (\<exists>rc hnd. psm2_mq_isend Q (mq cm) (rem_epaddr cm) (PSM2_MQ_FLAG_GDRCPY_ONLY Q) (tag cm) d
      (int_to_u32 sz) q (world t) = (rc, hnd, world t')) \<and>
    ((tag cm XOR tag lm) AND NOT 0 = 0 \<longleftrightarrow> h' = h)"
proof -
  have "ev_opens (Listen dev, ncclSuccess, Listener l (Some h)) = Some (l, h_tag h)" by simp
  then obtain lm where lm: "comms s l = Some lm" "tag lm = h_tag h"
    using process_tag [OF assms(1-3)] by blast
  have "ev_opens (Connect dev' h', ncclSuccess, Comm c x) = Some (c, h_tag h')" by simp
  then obtain cm where cm: "comms t c = Some cm" "tag cm = h_tag h'"
    using process_tag [OF assms(5-7)] by blast
  have rs: "reqs_ok s" and rt: "reqs_ok t"
    using process_system_ok [OF assms(1,2)] process_system_ok [OF assms(5,6)] plugin_okD(4)
    by (auto simp: system_ok_def)
  have "psm2_nccl_irecv_v4 P l (hd ds) (hd szs) (hd mhs) s = Ret (ncclSuccess, Some p, s')"
    using assms(8) by (rule step_irecv)
  from post_request_passes [OF rs lm(1) _ this [unfolded psm2_nccl_irecv_v4_def]]
  obtain rc hnd where r: "psm2_mq_irecv P (mq lm) (tag lm) (NOT 0) (PSM2_MQ_FLAG_GDRCPY_ONLY P) (hd ds)
      (int_to_u32 (hd szs)) p (world s) = (rc, hnd, world s')" by auto
  have "psm2_nccl_isend Q c d sz tg 0 t = Ret (ncclSuccess, Some q, t')"
    using assms(9) by (rule step_isend)
  from post_request_passes [OF rt cm(1) _ this [unfolded psm2_nccl_isend_def]]
  obtain rc' hnd' where k: "psm2_mq_isend Q (mq cm) (rem_epaddr cm) (PSM2_MQ_FLAG_GDRCPY_ONLY Q) (tag cm) d
      (int_to_u32 sz) q (world t) = (rc', hnd', world t')" by auto
  have "h \<in> set (concat (map ev_handles es))" using assms(3) by (auto simp: opened_by_def)
  from process_handle_tags [OF assms(1,2) this assms(4)]
  have "(tag cm XOR tag lm) AND NOT 0 = 0 \<longleftrightarrow> h' = h" unfolding tags_match lm(2) cm(2) .
  then show ?thesis using lm(1) cm(1) r k by blast
qed

lemma messages_matched_witness:
  "\<exists>s s' t t'. plugin_step sim_platform s (IRecv 1 1 [7] [64] [0] [0], ncclSuccess, Request (Some (1, 0))) s' \<and>
     plugin_step sim_platform t (ISend 1 7 64 0, ncclSuccess, Request (Some (1, 0))) t' \<and>
     (\<exists>lm cm. comms s 1 = Some lm \<and> comms t 1 = Some cm \<and> (tag cm XOR tag lm) AND NOT 0 = 0)"
proof -
  obtain h s lm where p: "process sim_platform 7 sim0 [(Listen 0, ncclSuccess, Listener 1 (Some h))] s"
    and l: "comms s 1 = Some lm" "requests lm = replicate NUM_REQUESTS zero_req" by (rule sim_listener)
  obtain t cm where q: "process sim_platform 7 sim0 [(Connect 0 h, ncclSuccess, Comm 1 0)] t"
    and c: "comms t 1 = Some cm" "requests cm = replicate NUM_REQUESTS zero_req" by (rule sim_connector)
  obtain s' where r: "plugin_step sim_platform s
      (IRecv 1 1 [7] [64] [0] [0], ncclSuccess, Request (Some (1, 0))) s'"
    by (rule sim_post_request [OF l])
  obtain t' where k: "plugin_step sim_platform t (ISend 1 7 64 0, ncclSuccess, Request (Some (1, 0))) t'"
    by (rule sim_post_request [OF c])
  have "opened_by [e] e 1" for e :: event unfolding opened_by_def by (rule exI [of _ "[]"]) auto
  from messages_matched [OF sim_library_ok p this _ sim_library_ok q this r k]
  show ?thesis using r k by auto
qed

end
