(* ===== verification/Version_Runs.thy ===== *)
theory Version_Runs
  imports System_Props
begin

text \<open>
  The plugin as NCCL drives it through the table of any version: each call of the interface
  goes to the member of that table, and what NCCL sees is a run of the abstract machine.
\<close>

section \<open>Calls through a table\<close>

type_synonym 'w call_result = "(ncclResult \<times> api_out \<times> 'w plugin) outcome option"

text \<open>
  The members that all versions have with the same type. A call that the structure of a version
  has no member for is undefined here; NCCL cannot make it.
\<close>

fun common_call :: "('w, 'z) ncclNet_scheme \<Rightarrow> api_call \<Rightarrow> 'w plugin \<Rightarrow> 'w call_result" where
  "common_call t (Init f) s = Some (case n_init t f s of (r, s') \<Rightarrow> Ret (r, NoOut, s'))"
| "common_call t Devices s = Some (case n_devices t s of (r, n, s') \<Rightarrow> Ret (r, NDevs n, s'))"
| "common_call t (Listen dev) s =
     Some (obind (n_listen t dev s) (\<lambda>(r, c, h, s'). Ret (r, Listener c h, s')))"
| "common_call t (DeregMr c m) s = Some (obind (n_deregMr t c m s) (\<lambda>(r, s'). Ret (r, NoOut, s')))"
| "common_call t (Test p has_size) s =
     map_option (\<lambda>m. obind m (\<lambda>(r, d, sz, s'). Ret (r, Tested d sz, s'))) (n_test t p has_size s)"
| "common_call t (CloseSend c) s = Some (obind (n_closeSend t c s) (\<lambda>(r, s'). Ret (r, NoOut, s')))"
| "common_call t (CloseRecv c) s = Some (obind (n_closeRecv t c s) (\<lambda>(r, s'). Ret (r, NoOut, s')))"
| "common_call t (CloseListen c) s = Some (obind (n_closeListen t c s) (\<lambda>(r, s'). Ret (r, NoOut, s')))"
| "common_call t _ s = Some Undef"

text \<open>
  How the values of a member become the outputs of a call. Up to version 6 connect and
  accept store no device handle, which is NULL.
\<close>

definition comm_out :: "(ncclResult \<times> addr \<times> 'w plugin) outcome \<Rightarrow> 'w call_result" where
  "comm_out m = Some (obind m (\<lambda>(r, c, s'). Ret (r, Comm c 0, s')))"

definition comm_dev_out :: "(ncclResult \<times> addr \<times> addr \<times> 'w plugin) outcome \<Rightarrow> 'w call_result" where
  "comm_dev_out m = Some (obind m (\<lambda>(r, c, d, s'). Ret (r, Comm c d, s')))"

definition mr_out :: "(ncclResult \<times> addr option \<times> 'w plugin) outcome \<Rightarrow> 'w call_result" where
  "mr_out m = Some (obind m (\<lambda>(r, h, s'). Ret (r, Mhandle h, s')))"

definition req_out :: "(ncclResult \<times> req_ptr option \<times> 'w plugin) outcome \<Rightarrow> 'w call_result" where
  "req_out m = Some (obind m (\<lambda>(r, ro, s'). Ret (r, Request ro, s')))"

definition flush_out :: "(ncclResult \<times> req_ptr option option \<times> 'w plugin) outcome \<Rightarrow> 'w call_result" where
  "flush_out m = Some (obind m (\<lambda>(r, f, s'). Ret (r, Flushed f, s')))"

text \<open>
  The tables of versions 2 to 4 take one buffer and no tag, those of 2 and 3 flush without
  a request.
\<close>

fun call_v2 :: "'w ncclNet_v2 \<Rightarrow> api_call \<Rightarrow> 'w plugin \<Rightarrow> 'w call_result" where
  "call_v2 t (Connect dev h) s = comm_out (n2_connect t dev h s)"
| "call_v2 t (Accept c) s = comm_out (n2_accept t c s)"
| "call_v2 t (RegMr c d sz type mh) s = mr_out (n2_regMr t c d (uint sz) type mh s)"
| "call_v2 t (ISend c d sz tg) s = req_out (n2_isend t c d sz 0 s)"
| "call_v2 t (IRecv c n ds szs tags mhs) s = req_out (n2_irecv t c (hd ds) (hd szs) (hd mhs) s)"
| "call_v2 t (IFlush c n ds szs mhs request) s =
     flush_out (obind (n2_flush t c (hd ds) (hd szs) (hd mhs) s) (\<lambda>(r, s'). Ret (r, None, s')))"
| "call_v2 t a s = common_call t a s"

fun call_v3 :: "'w ncclNet_v3 \<Rightarrow> api_call \<Rightarrow> 'w plugin \<Rightarrow> 'w call_result" where
  "call_v3 t (Connect dev h) s = comm_out (n3_connect t dev h s)"
| "call_v3 t (Accept c) s = comm_out (n3_accept t c s)"
| "call_v3 t (RegMr c d sz type mh) s = mr_out (n3_regMr t c d (uint sz) type mh s)"
| "call_v3 t (ISend c d sz tg) s = req_out (n3_isend t c d sz 0 s)"
| "call_v3 t (IRecv c n ds szs tags mhs) s = req_out (n3_irecv t c (hd ds) (hd szs) (hd mhs) s)"
| "call_v3 t (IFlush c n ds szs mhs request) s =
     flush_out (obind (n3_flush t c (hd ds) (hd szs) (hd mhs) s) (\<lambda>(r, s'). Ret (r, None, s')))"
| "call_v3 t a s = common_call t a s"

fun call_v4 :: "'w ncclNet_v4 \<Rightarrow> api_call \<Rightarrow> 'w plugin \<Rightarrow> 'w call_result" where
  "call_v4 t (Connect dev h) s = comm_out (n4_connect t dev h s)"
| "call_v4 t (Accept c) s = comm_out (n4_accept t c s)"
| "call_v4 t (RegMr c d sz type mh) s = mr_out (n4_regMr t c d (uint sz) type mh s)"
| "call_v4 t (ISend c d sz tg) s = req_out (n4_isend t c d sz 0 s)"
| "call_v4 t (IRecv c n ds szs tags mhs) s = req_out (n4_irecv t c (hd ds) (hd szs) (hd mhs) s)"
| "call_v4 t (IFlush c n ds szs mhs request) s =
     flush_out (n4_iflush t c (hd ds) (hd szs) (hd mhs) request s)"
| "call_v4 t a s = common_call t a s"

fun call_v5 :: "'w ncclNet_v5 \<Rightarrow> api_call \<Rightarrow> 'w plugin \<Rightarrow> 'w call_result" where
  "call_v5 t (Connect dev h) s = comm_out (n5_connect t dev h s)"
| "call_v5 t (Accept c) s = comm_out (n5_accept t c s)"
| "call_v5 t (RegMr c d sz type mh) s = mr_out (n5_regMr t c d (uint sz) type mh s)"
| "call_v5 t (ISend c d sz tg) s = req_out (n5_isend t c d sz tg 0 s)"
| "call_v5 t (IRecv c n ds szs tags mhs) s = req_out (n5_irecv t c n ds szs tags mhs s)"
| "call_v5 t (IFlush c n ds szs mhs request) s = flush_out (n5_iflush t c n ds szs mhs request s)"
| "call_v5 t a s = common_call t a s"

fun call_v6 :: "'w ncclNet_v6 \<Rightarrow> api_call \<Rightarrow> 'w plugin \<Rightarrow> 'w call_result" where
  "call_v6 t (Connect dev h) s = comm_out (n6_connect t dev h s)"
| "call_v6 t (Accept c) s = comm_out (n6_accept t c s)"
| "call_v6 t (RegMr c d sz type mh) s = mr_out (n6_regMr t c d (uint sz) type mh s)"
| "call_v6 t (RegMrDmaBuf c d sz type off fd mh) s = mr_out (n6_regMrDmaBuf t c d sz type off fd mh s)"
| "call_v6 t (ISend c d sz tg) s = req_out (n6_isend t c d sz tg 0 s)"
| "call_v6 t (IRecv c n ds szs tags mhs) s = req_out (n6_irecv t c n ds szs tags mhs s)"
| "call_v6 t (IFlush c n ds szs mhs request) s = flush_out (n6_iflush t c n ds szs mhs request s)"
| "call_v6 t a s = common_call t a s"

fun call_v7 :: "'w ncclNet_v7 \<Rightarrow> api_call \<Rightarrow> 'w plugin \<Rightarrow> 'w call_result" where
  "call_v7 t (Connect dev h) s = comm_dev_out (n7_connect t dev h s)"
| "call_v7 t (Accept c) s = comm_dev_out (n7_accept t c s)"
| "call_v7 t (RegMr c d sz type mh) s = mr_out (n7_regMr t c d (uint sz) type mh s)"
| "call_v7 t (RegMrDmaBuf c d sz type off fd mh) s = mr_out (n7_regMrDmaBuf t c d sz type off fd mh s)"
| "call_v7 t (ISend c d sz tg) s = req_out (n7_isend t c d sz tg 0 s)"
| "call_v7 t (IRecv c n ds szs tags mhs) s = req_out (n7_irecv t c n ds szs tags mhs s)"
| "call_v7 t (IFlush c n ds szs mhs request) s = flush_out (n7_iflush t c n ds szs mhs request s)"
| "call_v7 t a s = common_call t a s"

fun call_v8 :: "'w ncclNet_v8 \<Rightarrow> api_call \<Rightarrow> 'w plugin \<Rightarrow> 'w call_result" where
  "call_v8 t (GetProperties dev props) s =
     Some (obind (n8_getProperties t dev props s) (\<lambda>(r, ps, s'). Ret (r, Props ps, s')))"
| "call_v8 t (Connect dev h) s = comm_dev_out (n8_connect t dev h s)"
| "call_v8 t (Accept c) s = comm_dev_out (n8_accept t c s)"
| "call_v8 t (RegMr c d sz type mh) s = mr_out (n8_regMr t c d sz type mh s)"
| "call_v8 t (RegMrDmaBuf c d sz type off fd mh) s = mr_out (n8_regMrDmaBuf t c d sz type off fd mh s)"
| "call_v8 t (ISend c d sz tg) s = req_out (n8_isend t c d sz tg 0 s)"
| "call_v8 t (IRecv c n ds szs tags mhs) s = req_out (n8_irecv t c n ds szs tags mhs s)"
| "call_v8 t (IFlush c n ds szs mhs request) s = flush_out (n8_iflush t c n ds szs mhs request s)"
| "call_v8 t a s = common_call t a s"

section \<open>The seven versions\<close>

datatype net_version = V2 | V3 | V4 | V5 | V6 | V7 | V8

text \<open>A call through the table that the library exports for a version.\<close>

fun table_call ::
  "net_version \<Rightarrow> 'w platform \<Rightarrow> psm2_ncclNetProperties \<Rightarrow> api_call \<Rightarrow> 'w plugin \<Rightarrow> 'w call_result" where
  "table_call V2 P stk = call_v2 (ncclNetPlugin_v2 P)"
| "table_call V3 P stk = call_v3 (ncclNetPlugin_v3 P stk)"
| "table_call V4 P stk = call_v4 (ncclNetPlugin_v4 P stk)"
| "table_call V5 P stk = call_v5 (ncclNetPlugin_v5 P stk)"
| "table_call V6 P stk = call_v6 (ncclNetPlugin_v6 P stk)"
| "table_call V7 P stk = call_v7 (ncclNetPlugin_v7 P stk)"
| "table_call V8 P stk = call_v8 (ncclNetPlugin_v8 P)"

text \<open>
  What the structure of a version has a member for. The versions before 8 register memory of
  a size that is an \<open>int\<close>; those before 6 have no DMA-BUF; those before 5 have no tags and no
  groups; those before 4 flush without a request. The older structures of the properties are
  left to \<open>Plugin_Vtables\<close>.
\<close>

fun offers :: "net_version \<Rightarrow> api_call \<Rightarrow> bool" where
  "offers v (GetProperties dev props) \<longleftrightarrow> v = V8"
| "offers v (RegMr c d sz type mh) \<longleftrightarrow> v = V8 \<or> uint sz \<le> INT_MAX"
| "offers v (RegMrDmaBuf c d sz type off fd mh) \<longleftrightarrow> v \<in> {V6, V7, V8}"
| "offers v (ISend c d sz tg) \<longleftrightarrow> v \<in> {V5, V6, V7, V8} \<or> tg = 0"
| "offers v (IRecv c n ds szs tags mhs) \<longleftrightarrow> v \<in> {V5, V6, V7, V8} \<or>
     n = 1 \<and> length ds = 1 \<and> length szs = 1 \<and> tags = [0] \<and> length mhs = 1"
| "offers v (IFlush c n ds szs mhs request) \<longleftrightarrow> v \<in> {V5, V6, V7, V8} \<or>
     n = 1 \<and> length ds = 1 \<and> length szs = 1 \<and> length mhs = 1 \<and> (v = V4 \<or> \<not> request)"
| "offers v a \<longleftrightarrow> True"

text \<open>A step: a call that NCCL may make, through the table of the version.\<close>

definition version_step ::
  "net_version \<Rightarrow> 'w platform \<Rightarrow> psm2_ncclNetProperties \<Rightarrow> 'w plugin \<Rightarrow> event \<Rightarrow> 'w plugin \<Rightarrow> bool" where
  "version_step v P stk s e s' \<longleftrightarrow>
     (case e of (a, r, out) \<Rightarrow> allowed s a \<and> offers v a \<and>
        table_call v P stk a s = Some (Ret (r, out, s')))"

section \<open>The tables run the plugin\<close>

lemmas table_outs = comm_out_def comm_dev_out_def mr_out_def req_out_def flush_out_def

lemma irecv_one:
  assumes "n \<le> 1" and "ds \<noteq> []" and "szs \<noteq> []" and "mhs \<noteq> []"
  shows "psm2_nccl_irecv P c n ds szs tags mhs s = psm2_nccl_irecv_v4 P c (hd ds) (hd szs) (hd mhs) s"
  using assms by (auto simp: neq_Nil_conv psm2_nccl_irecv_def NCCL_NET_PSM2_MAX_RECVS_def)

lemma regMr_uint: "psm2_nccl_regMr c d (uint sz) type mh s = psm2_nccl_regMr_v8 c d sz type mh s"
  by (simp add: psm2_nccl_regMr_def)

lemma iflush_one:
  assumes "n \<le> 1" and "ds \<noteq> []" and "szs \<noteq> []" and "mhs \<noteq> []"
  shows "psm2_nccl_iflush P c n ds szs mhs b s = psm2_nccl_iflush_v4 c (hd ds) (hd szs) (hd mhs) b s"
  using assms by (auto simp: neq_Nil_conv psm2_nccl_iflush_def NCCL_NET_PSM2_MAX_RECVS_def)

lemmas table_funs = irecv_one iflush_one regMr_uint psm2_nccl_flush_v3_def
  psm2_nccl_iflush_v4_def psm2_nccl_isend_v4_def
  psm2_nccl_connect_v8_def psm2_nccl_accept_v8_def psm2_nccl_accept_def obind_assoc

lemma table_call_run:
  assumes "allowed s a" and "offers v a"
  shows "table_call v P stk a s = run_call P a s"
proof (cases v)
  case V2
  then show ?thesis using assms
    by (cases a) (simp_all add: ncclNetPlugin_v2_def table_outs table_funs case_prod_unfold)
next
  case V3
  then show ?thesis using assms
    by (cases a) (simp_all add: ncclNetPlugin_v3_def table_outs table_funs case_prod_unfold)
next
  case V4
  then show ?thesis using assms
    by (cases a) (simp_all add: ncclNetPlugin_v4_def table_outs table_funs case_prod_unfold)
next
  case V5
  then show ?thesis using assms
    by (cases a) (simp_all add: ncclNetPlugin_v5_def table_outs table_funs case_prod_unfold)
next
  case V6
  then show ?thesis using assms
    by (cases a) (simp_all add: ncclNetPlugin_v6_def table_outs table_funs case_prod_unfold)
next
  case V7
  then show ?thesis using assms
    by (cases a) (simp_all add: ncclNetPlugin_v7_def table_outs table_funs case_prod_unfold)
next
  case V8
  then show ?thesis using assms
    by (cases a) (simp_all add: ncclNetPlugin_v8_def table_outs table_funs case_prod_unfold)
qed

lemma version_step_iff: "version_step v P stk s e s' \<longleftrightarrow> plugin_step P s e s' \<and> offers v (fst e)"
  unfolding version_step_def plugin_step_def by (cases e) (auto simp: table_call_run)

lemma version_runs:
  "runs (version_step v P stk) s es s' \<Longrightarrow> runs (plugin_step P) s es s'"
  by (induction rule: runs.induct) (auto simp: version_step_iff intro: runs_none runs_more)

text \<open>
  C25: the plugin is the same whatever version of NCCL loads it. NCCL initialises it through
  the table of any version and makes any calls that this version has. All calls are the
  plugin's own, so that what holds of a process holds of this one; what NCCL sees is a run of the
  abstract machine; and every further call through the table returns, with a step of the
  plugin, so that none of these members is missing, wrong or unsafe.
\<close>

theorem ncclNet_versions_agree:
  assumes "library_ok P opened posted w0"
    and "table_call v P stk (Init f) (initial_plugin w0) = Some (Ret (ncclSuccess, NoOut, s0))"
    and "runs (version_step v P stk) s0 es s"
  shows "process P f w0 es s \<and> runs spec_step spec_start es (plugin_abs s) \<and>
    (\<forall>a. allowed s a \<longrightarrow> offers v a \<longrightarrow>
      (\<exists>r out s'. table_call v P stk a s = Some (Ret (r, out, s')) \<and> plugin_step P s (a, r, out) s' \<and>
        spec_step (plugin_abs s) (a, r, out) (plugin_abs s')))"
proof -
  have "psm2_nccl_init P f (initial_plugin w0) = (ncclSuccess, s0)"
    using assms(2)
    by (cases v) (auto simp: ncclNetPlugin_v2_def ncclNetPlugin_v3_def ncclNetPlugin_v4_def
        ncclNetPlugin_v5_def ncclNetPlugin_v6_def ncclNetPlugin_v7_def ncclNetPlugin_v8_def
        split: prod.splits)
  then have p: "process P f w0 es s" using version_runs [OF assms(3)] by (auto simp: process_def)
  have sys: "system_ok P opened posted s" by (rule process_system_ok [OF assms(1) p])
  have "\<exists>r out s'. table_call v P stk a s = Some (Ret (r, out, s')) \<and> plugin_step P s (a, r, out) s' \<and>
      spec_step (plugin_abs s) (a, r, out) (plugin_abs s')" if al: "allowed s a" "offers v a" for a
  proof -
    from call_keeps [OF sys al(1)] obtain r out s' where e: "run_call P a s = Some (Ret (r, out, s'))"
      by (metis prod_cases3)
    then have st: "plugin_step P s (a, r, out) s'" using al(1) by (simp add: plugin_step_def)
    show ?thesis
      using table_call_run [OF al] e st plugin_step_ok(4) [OF sys st] by auto
  qed
  then show ?thesis using p process_refines [OF assms(1) p] by blast
qed

text \<open>A listener through the table of version 3 of the simulated library, and then a receive.\<close>

lemma ncclNet_versions_agree_witness:
  "\<exists>h s r out s'. runs (version_step V3 sim_platform null_props) sim_started
       [(Listen 0, ncclSuccess, Listener 1 (Some h))] s \<and>
     table_call V3 sim_platform null_props (IRecv 1 1 [7] [64] [0] [0]) s = Some (Ret (r, out, s'))"
proof -
  have i: "table_call V3 sim_platform null_props (Init 7) (initial_plugin sim0) =
      Some (Ret (ncclSuccess, NoOut, sim_started))"
    by (simp add: ncclNetPlugin_v3_def sim_init)
  obtain h s cm where p: "process sim_platform 7 sim0 [(Listen 0, ncclSuccess, Listener 1 (Some h))] s"
    and c: "comms s 1 = Some cm" by (rule sim_listener)
  have "plugin_step sim_platform sim_started (Listen 0, ncclSuccess, Listener 1 (Some h)) s"
    using p sim_init by (auto simp: process_def elim: runs_ConsE)
  then have "version_step V3 sim_platform null_props sim_started
      (Listen 0, ncclSuccess, Listener 1 (Some h)) s" by (simp add: version_step_iff)
  then have r: "runs (version_step V3 sim_platform null_props) sim_started
      [(Listen 0, ncclSuccess, Listener 1 (Some h))] s" by (blast intro: runs_more runs_none)
  have "allowed s (IRecv 1 1 [7] [64] [0] [0])" and "offers V3 (IRecv 1 1 [7] [64] [0] [0])"
    using c by (simp_all add: live_def INT_MAX_def)
  then show ?thesis using ncclNet_versions_agree [OF sim_library_ok i r] r by blast
qed

end
