(* ===== verification/Spec2Isabelle.thy ===== *)
theory Spec2Isabelle
  imports Prelude Libc Nccl_Types Plugin_State Psm2_Contract Debug_Log Config Hfi_Sysclass
    Device_Props Device_Calls Requests Endpoint Comm_Life Progress Conn_Api Data_Api Data_Props
    Plugin_Vtables Client Plugin_Spec Init_Calls Plugin_System Lib_Protocol
    Lib_Steps Completion Reporting System_Props Version_Runs
begin

text \<open>
  A verification of psm2-nccl, the network plugin with which NCCL uses an Omni-Path adapter
  through libpsm2.

  \<^bold>\<open>The program.\<close> NCCL loads the plugin as a shared library and finds in it one table of
  function pointers per interface version (\<open>src/psm2_nccl_net.c\<close>). It initialises the plugin,
  asks for the devices and their properties, makes connections (listen on one side, connect
  with the listener's handle on the other, accept), posts sends and receives, tests the
  requests that it got until they are done, and closes the communicators
  (\<open>src/psm2_nccl_api.c\<close>). The plugin maps this to libpsm2: a communicator holds an endpoint,
  by default one endpoint that all communicators share and count, a matched queue, and
  32 request slots. Testing a request polls the matched queue and marks the requests of the
  operations that libpsm2 retires. The properties of a device are read from the files of the
  driver below \<open>/sys/class/infiniband\<close> (\<open>src/hfi_sysclass.c\<close>).

  \<^bold>\<open>The theories, and the code that each models.\<close>
    \<^item> \<open>Prelude\<close>: outcomes of C code. \<open>Ret x\<close> is a return, \<open>Abort\<close> a failed
      \<open>assert\<close>, \<open>Undef\<close> undefined behaviour such as the use of a freed block; \<open>obind\<close>
      sequences them, \<open>returns m Q\<close> says that \<open>m\<close> returns with a result in \<open>Q\<close>. Limits
      of the C types for LP64.
    \<^item> \<open>Libc\<close>: what the code uses of the C library: \<open>strtoul\<close>, \<open>strncasecmp\<close>,
      \<open>strnlen\<close>, \<open>strncpy\<close>, the conversions of \<open>sscanf\<close> and \<open>snprintf\<close>.
    \<^item> \<open>Nccl_Types\<close>: the constants, enumerations and property structures of the headers
      \<open>src/include/nccl_net/\<close>.
    \<^item> \<open>Plugin_State\<close>: the structures of \<open>src/include/psm2_nccl_api.h\<close>, the file-scope
      variables of \<open>psm2_nccl_api.c\<close> and the heap as one record \<open>plugin\<close>, and the
      record \<open>platform\<close> of the functions that are not in the repository (libpsm2, the system).
    \<^item> \<open>Psm2_Contract\<close>: what the theorems rely on of libpsm2 (\<open>ep_contract\<close>,
      \<open>mq_contract\<close>, \<open>consts_ok\<close>), and a simulated library \<open>sim_platform\<close> that meets it.
    \<^item> \<open>Debug_Log\<close>: \<open>psm2_nccl_debug.h\<close>, \<open>psm2_nccl_init_logging\<close> and \<open>dump_comm\<close>.
    \<^item> \<open>Config\<close>: \<open>psm2_nccl_init\<close>.
    \<^item> \<open>Hfi_Sysclass\<close>: \<open>hfi_sysclass.c\<close> and \<open>guid_str_to_u64\<close>.
    \<^item> \<open>Device_Props\<close>: \<open>psm2_nccl_devices\<close>, \<open>psm2_nccl_pciPath_v2\<close>,
      \<open>psm2_nccl_ptrSupport_v2\<close> and the four versions of \<open>psm2_nccl_getProperties\<close>;
      \<open>Device_Calls\<close>: that these queries leave endpoints and operations alone.
    \<^item> \<open>Requests\<close>: \<open>get_req\<close> and \<open>put_req\<close>; the locale \<open>slot_pool\<close> is the contract of a
      fixed pool of slots, interpreted on the request array.
    \<^item> \<open>Endpoint\<close>: \<open>psm2comm_init_ep\<close>, \<open>psm2comm_init\<close>, \<open>psm2comm_fini\<close>, cut where
      the code has its steps, and the invariant \<open>ep_inv\<close> of the shared endpoint.
    \<^item> \<open>Comm_Life\<close>: that creating and destroying keep the invariant on every path; the locale
      \<open>lifecycle\<close> of objects that are created and destroyed, interpreted on communicators.
    \<^item> \<open>Progress\<close>: \<open>mq_progress_loop\<close>.
    \<^item> \<open>Conn_Api\<close>: listen, connect, accept and the three close functions.
    \<^item> \<open>Data_Api\<close>, \<open>Data_Props\<close>: isend, irecv, iflush, flush, test and memory registration,
      the abstract states of a request, and the proof that the calls implement them.
    \<^item> \<open>Plugin_Vtables\<close>: the seven tables of \<open>psm2_nccl_net.c\<close>, and what they report of a
      device.
    \<^item> \<open>Client\<close>: the locale \<open>nccl_data\<close>, the data interface as NCCL uses it, interpreted on
      the exported table of version 8.
    \<^item> \<open>Plugin_Spec\<close>: the abstract machine that NCCL may rely on: its state is the tag of each
      open communicator, the state of each request and the next tag, its steps are labelled
      with a call, the value returned and what is stored (\<open>event\<close>). It leaves open which free
      request is used, when operations end and which address a communicator gets. The locale
      \<open>refinement_map\<close> is a system with an invariant whose steps are mapped to steps of another.
    \<^item> \<open>Init_Calls\<close>: that \<open>psm2_nccl_init\<close> leaves endpoints, operations and the mode alone
      when it is called again.
    \<^item> \<open>Plugin_System\<close>: NCCL calling the members of the exported table as a transition system
      over the model of the code (\<open>plugin_step\<close>), its invariant \<open>system_ok\<close>, and the
      interpretation of \<open>refinement_map\<close>: the map is \<open>plugin_abs\<close>.
    \<^item> \<open>Lib_Protocol\<close>: which calls libpsm2 allows in which order, as a machine over the calls
      (\<open>lib_step\<close>; a request that was found finished must be tested by the next call), and the platform \<open>traced P\<close>, which is \<open>P\<close> with every call recorded;
      \<open>Lib_Steps\<close>: that each operation makes a sequence of calls that this machine allows.
    \<^item> \<open>Completion\<close>: what each call does to the operations that the library has, and the
      sequences of tests and closes that take the plugin down.
    \<^item> \<open>Reporting\<close>: what a test reports in the course of a run, whichever test retired the
      operation.
    \<^item> \<open>System_Props\<close>: the properties of the whole plugin.
    \<^item> \<open>Version_Runs\<close>: the plugin driven through the table of any version
      (\<open>table_call\<close>, \<open>version_step\<close>; \<open>offers\<close> says which calls a version has a member for).

  \<^bold>\<open>How the state corresponds to the code.\<close> A file-scope variable is a field of \<open>plugin\<close> with
  its name. A structure is a record. \<open>comms\<close> maps the address of a live
  communicator to its contents; \<open>load_comm\<close>, \<open>store_comm\<close> and \<open>free_comm\<close> read, write and
  remove it, and reading or freeing what is not there is \<open>Undef\<close>. A pointer to a request is
  the address of its communicator and the index of its slot. \<open>strs\<close> is the same for the
  strings that the property functions allocate. \<open>allocs\<close> counts allocations: the platform says
  which of them fail, and an address is not used twice. \<open>int\<close> variables that only hold
  truth values, numbers of devices or lengths are integers of HOL, converted where the code
  converts; tags, endpoint ids, the reference count and the level are words of their width.
  Output parameters are components of the result (0 or \<open>None\<close> is NULL). The names of
  definitions are those of the code; a function that is long in the code is cut into parts,
  each with its own name, composed in the order of the code.
  Each operation takes the platform \<open>P\<close> first and the state last.

  \<^bold>\<open>What the theorems show.\<close>
    \<^item> The whole plugin (\<open>Plugin_System\<close>, \<open>System_Props\<close>): after a successful
      initialisation, in any order of calls that NCCL may make, further initialisations
      included, every call returns, without a failed assertion and without touching memory
      that is not allocated, and what NCCL sees is a run of the abstract machine; so each
      request is handed out and reported done in turn, and a message can only be matched by the
      listener whose handle its sender has. Every communicator's endpoint is open, and, if
      closing does not fail, no other is; the reference count is the number of communicators
      that share. The operations that the library has are those of the requests in flight, and
      once it has completed them, testing each request once and closing all communicators, in
      any order, leaves nothing behind. The configuration is well-formed and, in an environment
      that does not change, fixed by the first initialisation. A test reports its request done
      exactly if the library no longer has its operation, whichever test retired it, and the size
      of a receive is at most the length that NCCL gave when it posted it. In the other
      direction, what the library sees is a run of its protocol: endpoints are opened after
      \<open>psm2_init\<close> has succeeded, closed once and after their queues, queues are not used
      after they are finalised, and a request that is found finished is tested by the very next
      call.
    \<^item> Data (\<open>Progress\<close>, \<open>Data_Api\<close>, \<open>Data_Props\<close>, \<open>Client\<close>): polling ends; each call
      refines the abstract states free, in flight, finished; a finished request is reported
      at once and only once; over a whole run nothing is lost; an error of the library, after any
      number of rounds of polling, and a missing \<open>size\<close> have the effects stated.
    \<^item> Connections (\<open>Endpoint\<close>, \<open>Comm_Life\<close>, \<open>Conn_Api\<close>): creating is all or nothing on every
      error path, closing in any order leaves nothing behind, sharing opens one endpoint, and
      listeners get different tags.
    \<^item> Configuration (\<open>Debug_Log\<close>, \<open>Config\<close>): which strings each variable accepts, when
      initialisation succeeds, that initialising again changes nothing.
    \<^item> Devices (\<open>Hfi_Sysclass\<close>, \<open>Device_Props\<close>, \<open>Plugin_Vtables\<close>): every outcome of reading
      the name and the path of a device, the new strings byte by byte with their terminators; the
      value of every property in every version; what is allocated and freed on every path, that no
      descriptor stays open, and the one path on which \<open>psm2_nccl_getProperties\<close> frees a pointer
      that was never set.
    \<^item> Tables (\<open>Version_Runs\<close>): initialised and driven through the table of any of the seven
      versions, the plugin makes the same runs, so that what is proved of a run holds for each
      version; every call that the structure of a version has returns.

  \<^bold>\<open>Bounds.\<close> No fuel is used. The polling loop is a \<open>partial_function (option)\<close>; it is
  proved to return because each round takes one operation out of the finite multiset of those
  that are posted. The reference count is 32 bits wide, so \<open>room\<close> asks for fewer than
  \<open>2 ^ 32 - 1\<close> communicators. The tag counter is 64 bits wide and listening is
  refused from the tag \<open>2 ^ 64 - 2\<close> on (\<open>tags_left\<close>).

  \<^bold>\<open>Assumptions on libpsm2 and the system\<close>, all of them named and met by
  \<open>sim_platform\<close>: opening an endpoint gives a new one that is not NULL, closing affects no
  other endpoint (\<open>ep_contract\<close>); a queue that is polled reports either that it is idle or an
  operation that was posted and not yet retired, with at most the bytes that were asked for, and
  \<open>psm2_mq_test\<close> then retires it (\<open>mq_contract\<close>); \<open>psm2_mq_init\<close> stores a queue that is
  not NULL exactly if it succeeds (\<open>queue_contract\<close>); no closing of an endpoint and no finalising of a queue drops
  an operation, whosever it is (\<open>keeps_posted\<close>, unconditional, only for the theorems on tracked
  operations, on what a test reports over a run, and on shutdown; \<open>completed\<close> says in the last
  that the library has nothing left to do); \<open>read\<close> returns at most what was asked for
  (\<open>read_contract\<close>), \<open>open\<close>, \<open>read\<close> and \<open>close\<close> keep track of descriptors
  (\<open>fd_contract\<close>), \<open>realpath\<close> returns a string shorter than \<open>PATH_MAX\<close>
  (\<open>realpath_contract\<close>).

  \<^bold>\<open>Assumptions on NCCL\<close> (\<open>allowed\<close>): it initialises again only with the same log
  function, it passes communicators that it got and has not
  closed, closes none that has operations in flight, tests requests of communicators that are
  still open and passes a \<open>size\<close> for receives, uses one buffer per receive, passes lengths
  from 0 to \<open>INT_MAX\<close>, and asks for properties with a structure whose \<open>pciPath\<close> is NULL. The plugin is called by one thread at a time, as its file-scope
  variables require; there is no concurrency in the model.

  \<^bold>\<open>Not modelled.\<close> Logging by the operations: \<open>PSM_LOG_MSG\<close> and \<open>dump_comm\<close> model what
  a message does, but the operations, \<open>psm2_nccl_init\<close> included, do not carry their messages.
  If NCCL passed NULL as its log function, each message would be a call through NULL, which the
  theorems on the operations do not see; the variable \<open>HFI_UNIT\<close>, on which only a warning depends;
  collective network tables, which the plugin does not fill; the build files and the
  packaging. libpsm2 itself is not part of the repository: what bytes travel
  between two processes is its matter.
\<close>

end
